(* ===== verification/Prelude.thy ===== *)
theory Prelude
  imports Main "HOL-Library.AList" "HOL-Library.Multiset"
begin

text \<open>
  Shared vocabulary of the development: the Python built-ins the gateway's code uses
  (strings, insertion-ordered dictionaries, decimal printing, exceptions as values) and the
  generic facts about them that the component theories rely on.

  A Python \<open>str\<close> is a sequence of code points; it is modelled as a \<open>string\<close> whose
  characters are the code points U+0000 to U+00FF. The classification functions below
  (\<open>py_isspace\<close>, \<open>py_isdecimal\<close>, \<open>py_isword\<close>, \<open>py_lower\<close>) are exact on that range.
  A \<open>dict\<close> is an association list with distinct keys in insertion order: \<open>map_of\<close> is
  \<open>d.get\<close>, \<open>AList.update\<close> is \<open>d[k] = v\<close> (an existing key keeps its place, a new one goes to
  the end) and \<open>AList.delete\<close> is \<open>d.pop(k, None)\<close>.
\<close>

named_theorems py_str \<open>facts about the string functions\<close>
named_theorems py_dict \<open>facts about dictionaries\<close>

type_synonym ('k, 'v) dict = "('k \<times> 'v) list"

text \<open>The exceptions of the language that the modelled code can raise by itself.\<close>

datatype py_error = IndexError | KeyError | ValueError | ZeroDivisionError | TypeError | AttributeError

text \<open>Sequencing of steps that may raise.\<close>

definition bind_res :: "'e + 'a \<Rightarrow> ('a \<Rightarrow> 'e + 'b) \<Rightarrow> 'e + 'b" where
  "bind_res r f = (case r of Inl e \<Rightarrow> Inl e | Inr v \<Rightarrow> f v)"

lemma bind_res_simps [simp]: "bind_res (Inl e) f = Inl e" "bind_res (Inr v) f = f v"
  by (simp_all add: bind_res_def)

lemma bind_res_Inr: "bind_res r f = Inr y \<longleftrightarrow> (\<exists>v. r = Inr v \<and> f v = Inr y)"
  by (cases r) simp_all

subsection \<open>Character classes\<close>

abbreviation code :: "char \<Rightarrow> nat" where
  "code c \<equiv> of_char c"

text \<open>\<open>str.isspace\<close>, the class \<open>\s\<close> of \<open>re\<close>, and what \<open>str.strip\<close> and \<open>str.split()\<close> remove.\<close>

definition py_isspace :: "char \<Rightarrow> bool" where
  "py_isspace c \<longleftrightarrow> (9 \<le> code c \<and> code c \<le> 13) \<or> (28 \<le> code c \<and> code c \<le> 32) \<or>
     code c = 133 \<or> code c = 160"

text \<open>The class \<open>\d\<close>: in this range the decimal digits are the ASCII ones.\<close>

definition py_isdecimal :: "char \<Rightarrow> bool" where
  "py_isdecimal c \<longleftrightarrow> 48 \<le> code c \<and> code c \<le> 57"

definition ascii_upper :: "char \<Rightarrow> bool" where
  "ascii_upper c \<longleftrightarrow> 65 \<le> code c \<and> code c \<le> 90"

definition ascii_lower :: "char \<Rightarrow> bool" where
  "ascii_lower c \<longleftrightarrow> 97 \<le> code c \<and> code c \<le> 122"

definition ascii_letter :: "char \<Rightarrow> bool" where
  "ascii_letter c \<longleftrightarrow> ascii_upper c \<or> ascii_lower c"

text \<open>The class \<open>\w\<close>: alphanumeric (letters, decimal and other numeric characters) or underscore.\<close>

definition py_isword :: "char \<Rightarrow> bool" where
  "py_isword c \<longleftrightarrow> ascii_letter c \<or> py_isdecimal c \<or> code c = 95 \<or>
     code c \<in> {170, 178, 179, 181, 185, 186, 188, 189, 190} \<or>
     (192 \<le> code c \<and> code c \<noteq> 215 \<and> code c \<noteq> 247)"

text \<open>\<open>str.lower\<close> on one character; in this range the result is again one character.\<close>

definition py_lower_char :: "char \<Rightarrow> char" where
  "py_lower_char c =
     (if ascii_upper c \<or> (192 \<le> code c \<and> code c \<le> 222 \<and> code c \<noteq> 215)
      then char_of (code c + 32) else c)"

definition py_lower :: "string \<Rightarrow> string" where
  "py_lower s = map py_lower_char s"

subsection \<open>Strings\<close>

definition py_strip :: "string \<Rightarrow> string" where
  "py_strip s = rev (dropWhile py_isspace (rev (dropWhile py_isspace s)))"

text \<open>\<open>s.split(c)\<close> for a one-character separator: never the empty list.\<close>

fun py_split :: "char \<Rightarrow> string \<Rightarrow> string list" where
  "py_split c [] = [[]]"
| "py_split c (x # xs) =
     (if x = c then [] # py_split c xs
      else (case py_split c xs of [] \<Rightarrow> [[x]] | y # ys \<Rightarrow> (x # y) # ys))"

text \<open>\<open>s.partition(c)\<close>: the part before, whether the separator was found, the part after.\<close>

definition py_partition :: "char \<Rightarrow> string \<Rightarrow> string \<times> bool \<times> string" where
  "py_partition c s = (takeWhile (\<lambda>x. x \<noteq> c) s, c \<in> set s, drop 1 (dropWhile (\<lambda>x. x \<noteq> c) s))"

definition py_startswith :: "string \<Rightarrow> string \<Rightarrow> bool" where
  "py_startswith s start \<longleftrightarrow> take (length start) s = start"

text \<open>\<open>sep.join(parts)\<close>.\<close>

fun py_join :: "string \<Rightarrow> string list \<Rightarrow> string" where
  "py_join sep [] = []"
| "py_join sep [x] = x"
| "py_join sep (x # y # ys) = x @ sep @ py_join sep (y # ys)"

text \<open>\<open>[item.strip() for item in value.split(",") if item.strip()]\<close>, which four modules write out.\<close>

definition csv_items :: "string \<Rightarrow> string list" where
  "csv_items s = filter (\<lambda>x. x \<noteq> []) (map py_strip (py_split (CHR '','') s))"

text \<open>\<open>str(n)\<close> for a natural number.\<close>

definition digit_char :: "nat \<Rightarrow> char" where
  "digit_char d = char_of (48 + d)"

fun nat_str :: "nat \<Rightarrow> string" where
  "nat_str n = (if n < 10 then [digit_char n] else nat_str (n div 10) @ [digit_char (n mod 10)])"

declare nat_str.simps [simp del]

text \<open>The same for a non-negative \<open>int\<close>, which evaluates fast.\<close>

function dec_str :: "int \<Rightarrow> string" where
  "dec_str n = (if n < 10 then [digit_char (nat n)] else dec_str (n div 10) @ [digit_char (nat (n mod 10))])"
  by pat_completeness auto
termination by (relation "measure nat") auto

declare dec_str.simps [simp del]

definition digit_val :: "char \<Rightarrow> nat" where
  "digit_val c = code c - 48"

text \<open>\<open>int(s)\<close> on a string of decimal digits; anything else raises \<open>ValueError\<close>.\<close>

definition digits_val :: "string \<Rightarrow> nat" where
  "digits_val s = foldl (\<lambda>n c. 10 * n + digit_val c) 0 s"

definition py_int_digits :: "string \<Rightarrow> nat option" where
  "py_int_digits s = (if s \<noteq> [] \<and> list_all py_isdecimal s then Some (digits_val s) else None)"


subsection \<open>Facts about strings\<close>

lemma py_strip_no_space [py_str]: "py_strip s = [] \<or> \<not> py_isspace (hd (py_strip s))"
proof (cases "dropWhile py_isspace s")
  case (Cons c cs)
  then have c: "\<not> py_isspace c" using hd_dropWhile [of py_isspace s] by simp
  then have "dropWhile py_isspace (rev cs @ [c]) = dropWhile py_isspace (rev cs) @ [c]"
    by (simp add: dropWhile_append3)
  with Cons c show ?thesis by (simp add: py_strip_def)
next
  case Nil
  then show ?thesis by (simp only: py_strip_def) simp
qed

lemma py_strip_no_space_last [py_str]: "py_strip s = [] \<or> \<not> py_isspace (last (py_strip s))"
  using hd_dropWhile [of py_isspace "rev (dropWhile py_isspace s)"]
  by (auto simp: py_strip_def last_rev)

lemma py_strip_id:
  assumes "s = [] \<or> (\<not> py_isspace (hd s) \<and> \<not> py_isspace (last s))"
  shows "py_strip s = s"
proof (cases s)
  case (Cons c cs)
  with assms have "dropWhile py_isspace s = s" by simp
  moreover have "dropWhile py_isspace (rev s) = rev s"
    using assms Cons by (metis dropWhile_eq_self_iff hd_rev list.distinct(1))
  ultimately show ?thesis by (simp add: py_strip_def)
qed (simp add: py_strip_def)

lemma py_strip_idem [simp, py_str]: "py_strip (py_strip s) = py_strip s"
  by (rule py_strip_id) (use py_strip_no_space py_strip_no_space_last in blast)

lemma set_py_strip: "set (py_strip s) \<subseteq> set s"
  by (auto simp: py_strip_def dest!: set_dropWhileD)

lemma py_split_nonempty [simp, py_str]: "py_split c s \<noteq> []"
  by (induction s) (auto split: list.splits)

lemma py_split_no_sep: "x \<in> set (py_split c s) \<Longrightarrow> c \<notin> set x"
  by (induction s arbitrary: x) (auto split: list.splits if_splits)

lemma py_split_chars: "x \<in> set (py_split c s) \<Longrightarrow> set x \<subseteq> set s"
  by (induction s arbitrary: x) (force split: list.splits if_splits)+

lemma py_split_free: "c \<notin> set x \<Longrightarrow> py_split c x = [x]"
  by (induction x) auto

lemma py_split_append: "c \<notin> set x \<Longrightarrow> py_split c (x @ c # s) = x # py_split c s"
  by (induction x) auto

text \<open>Splitting undoes joining when no part contains the separator.\<close>

lemma py_split_join [py_str]:
  "xs \<noteq> [] \<Longrightarrow> \<forall>x \<in> set xs. c \<notin> set x \<Longrightarrow> py_split c (py_join [c] xs) = xs"
  by (induction "[c]" xs rule: py_join.induct) (auto simp: py_split_free py_split_append)

text \<open>What a comma-separated field can yield: trimmed, non-empty items without commas.\<close>

definition csv_clean :: "string \<Rightarrow> bool" where
  "csv_clean x \<longleftrightarrow> x \<noteq> [] \<and> py_strip x = x \<and> CHR '','' \<notin> set x"

lemma csv_items_clean: "x \<in> set (csv_items s) \<Longrightarrow> csv_clean x"
  using set_py_strip by (fastforce simp: csv_items_def csv_clean_def dest: py_split_no_sep)

lemma csv_items_join [py_str]:
  assumes "\<forall>x \<in> set xs. csv_clean x"
  shows "csv_items (py_join '','' xs) = xs"
proof (cases "xs = []")
  case True
  then show ?thesis by (simp add: csv_items_def py_strip_def)
next
  case False
  with assms have "py_split (CHR '','') (py_join '','' xs) = xs"
    by (simp add: py_split_join csv_clean_def)
  moreover have "map py_strip xs = xs" "filter (\<lambda>x. x \<noteq> []) xs = xs"
    using assms by (auto simp: csv_clean_def intro: map_idI filter_True)
  ultimately show ?thesis by (simp add: csv_items_def)
qed

lemma py_split_append_any: "py_split c (x @ c # y) = py_split c x @ py_split c y"
  by (induction x) (auto split: list.splits)

lemma csv_items_append: "csv_items (x @ '','' @ y) = csv_items x @ csv_items y"
  by (simp add: csv_items_def py_split_append_any)

lemma find_append: "find P (xs @ ys) = (case find P xs of Some x \<Rightarrow> Some x | None \<Rightarrow> find P ys)"
  by (induction xs) auto

subsection \<open>Decimal numbers\<close>

lemma code_digit_char: "d < 10 \<Longrightarrow> code (digit_char d) = 48 + d"
  by (simp add: digit_char_def)

lemma digit_val_digit_char [simp]: "d < 10 \<Longrightarrow> digit_val (digit_char d) = d"
  by (simp add: digit_val_def code_digit_char)

lemma digit_char_decimal: "d < 10 \<Longrightarrow> py_isdecimal (digit_char d)"
  by (simp add: py_isdecimal_def code_digit_char)

lemma digit_val_less: "py_isdecimal c \<Longrightarrow> digit_val c < 10"
  unfolding py_isdecimal_def digit_val_def by linarith

lemma digits_val_append: "digits_val (s @ [c]) = 10 * digits_val s + digit_val c"
  by (simp add: digits_val_def)

lemma nat_str_decimal: "c \<in> set (nat_str n) \<Longrightarrow> py_isdecimal c"
proof (induction n rule: nat_str.induct)
  case (1 n)
  then show ?case
    by (subst (asm) (2) nat_str.simps) (auto simp: digit_char_decimal split: if_splits)
qed

lemma nat_str_nonempty [simp]: "nat_str n \<noteq> []"
  by (subst nat_str.simps) simp

lemma digits_val_nat_str [simp, py_str]: "digits_val (nat_str n) = n"
proof (induction n rule: nat_str.induct)
  case (1 n)
  show ?case
  proof (cases "n < 10")
    case True
    then show ?thesis by (simp add: nat_str.simps [of n]) (simp add: digits_val_def)
  next
    case False
    with 1 show ?thesis by (simp add: nat_str.simps [of n] digits_val_append)
  qed
qed

lemma nat_str_small:
  "n < 10 \<Longrightarrow> nat_str n = [digit_char n]"
  "10 \<le> n \<Longrightarrow> n < 100 \<Longrightarrow> nat_str n = [digit_char (n div 10), digit_char (n mod 10)]"
  "100 \<le> n \<Longrightarrow> n < 1000 \<Longrightarrow> nat_str n = [digit_char (n div 100), digit_char (n div 10 mod 10), digit_char (n mod 10)]"
  by (auto simp: nat_str.simps [of n] nat_str.simps [of "n div 10"] nat_str.simps [of "n div 10 div 10"] div_mult2_eq [of n 10 10, simplified])

lemma digit_char_zero: "d < 10 \<Longrightarrow> digit_char d = CHR ''0'' \<longleftrightarrow> d = 0"
  by (subst of_char_eq_iff [symmetric, where ?'a = nat]) (simp add: code_digit_char)

lemma nat_str_hd: "0 < n \<Longrightarrow> n < 1000 \<Longrightarrow> length (nat_str n) \<le> 3 \<and> hd (nat_str n) \<noteq> CHR ''0''"
proof -
  assume n: "0 < n" "n < 1000"
  consider "n < 10" | "10 \<le> n" "n < 100" | "100 \<le> n" by linarith
  then show ?thesis
  proof cases
    case 1 with n show ?thesis by (simp add: nat_str_small(1) digit_char_zero)
  next
    case 2
    then have "n div 10 < 10" "n div 10 \<noteq> 0" by auto
    with 2 show ?thesis by (simp add: nat_str_small(2) digit_char_zero)
  next
    case 3
    then have "n div 100 < 10" "n div 100 \<noteq> 0" using n by auto
    with 3 n show ?thesis by (simp add: nat_str_small(3) digit_char_zero)
  qed
qed

lemma nat_str_len3: "n < 1000 \<Longrightarrow> length (nat_str n) \<le> 3"
  using nat_str_hd [of n] by (cases "n = 0") (auto simp: nat_str_small)

lemma nat_str_length: "length (nat_str n) \<le> m \<longleftrightarrow> n < 10 ^ m \<and> 0 < m"
proof (induction n arbitrary: m rule: nat_str.induct)
  case (1 n)
  show ?case
  proof (cases "n < 10")
    case True
    moreover have "n < 10 * 10 ^ k" if "n < 10" for k :: nat using that by (rule less_le_trans) simp
    ultimately show ?thesis by (cases m) (simp_all add: nat_str.simps [of n])
  next
    case False
    then show ?thesis using 1 [OF False, of "m - 1"]
      by (cases m) (auto simp: nat_str.simps [of n] div_less_iff_less_mult mult.commute)
  qed
qed

lemma digits_val_zeros: "digits_val (replicate k (CHR ''0'') @ s) = digits_val s"
proof -
  have "digit_val (CHR ''0'') = 0" by (simp add: digit_val_def)
  then have "foldl (\<lambda>n c. 10 * n + digit_val c) 0 (replicate k (CHR ''0'')) = 0" by (induction k) simp_all
  then show ?thesis by (simp add: digits_val_def)
qed

text \<open>Printing is injective and reading undoes it.\<close>

lemma nat_str_inject [simp]: "nat_str m = nat_str n \<longleftrightarrow> m = n"
  by (metis digits_val_nat_str)

lemma py_int_nat_str [py_str]: "py_int_digits (nat_str n) = Some n"
  by (auto simp: py_int_digits_def list_all_iff intro: nat_str_decimal)

lemma dec_str_nat: "dec_str (int n) = nat_str n"
proof (induction n rule: nat_str.induct)
  case (1 n)
  show ?case
  proof (cases "n < 10")
    case True
    then show ?thesis by (simp add: dec_str.simps [of "int n"] nat_str.simps [of n])
  next
    case False
    moreover have "nat (int n mod 10) = n mod 10" by (simp add: nat_mod_distrib)
    ultimately show ?thesis using 1
      by (simp add: dec_str.simps [of "int n"] nat_str.simps [of n] zdiv_int)
  qed
qed

lemma dec_str_nonneg: "0 \<le> n \<Longrightarrow> dec_str n = nat_str (nat n)"
  using dec_str_nat [of "nat n"] by simp

subsection \<open>Facts about dictionaries\<close>

lemma map_of_update [simp, py_dict]: "map_of (AList.update k v d) = (map_of d)(k \<mapsto> v)"
  by (rule update_conv')

lemma map_of_delete [simp, py_dict]: "map_of (AList.delete k d) = (map_of d)(k := None)"
  by (rule delete_conv')

lemma distinct_update_keys [simp, py_dict]:
  "distinct (map fst d) \<Longrightarrow> distinct (map fst (AList.update k v d))"
  by (rule distinct_update)

lemma set_update_keys [simp, py_dict]:
  "fst ` set (AList.update k v d) = insert k (fst ` set d)"
  by (induction d) auto

lemma map_le_Some: "m \<subseteq>\<^sub>m m' \<Longrightarrow> m k = Some v \<Longrightarrow> m' k = Some v"
  by (metis domI map_le_def)

subsection \<open>Sorting\<close>

text \<open>With distinct keys a stable sort depends only on the elements, not on their order.\<close>

lemma filter_eq_single: "distinct zs \<Longrightarrow> k \<in> set zs \<Longrightarrow> filter (\<lambda>x. x = k) zs = [k]"
  by (induction zs) (auto simp: filter_empty_conv)

lemma sort_key_inj:
  assumes "distinct xs" and "inj_on f (set xs)" and "mset ys = mset xs"
  shows "sort_key f ys = sort_key f xs"
proof (rule properties_for_sort_key [symmetric])
  show "mset (sort_key f ys) = mset xs" using assms(3) by simp
  show "sorted (map f (sort_key f ys))" by simp
  fix k assume k: "k \<in> set (sort_key f ys)"
  have same: "filter (\<lambda>x. f k = f x) zs = [k]" if "mset zs = mset xs" for zs
  proof -
    have "distinct zs" "set zs = set xs" using assms(1) that by (metis mset_eq_imp_distinct_iff, metis mset_eq_setD)
    moreover have "k \<in> set xs" using k assms(3) by (metis mset_eq_setD set_sort)
    ultimately have "filter (\<lambda>x. f k = f x) zs = filter (\<lambda>x. x = k) zs"
      using assms(2) by (intro filter_cong) (auto dest: inj_onD)
    also have "\<dots> = [k]"
      using \<open>distinct zs\<close> \<open>k \<in> set xs\<close> \<open>set zs = set xs\<close> by (simp add: filter_eq_single)
    finally show ?thesis .
  qed
  show "filter (\<lambda>x. f k = f x) (sort_key f ys) = filter (\<lambda>x. f k = f x) xs"
    using same [of "sort_key f ys"] same [of xs] assms(3) by simp
qed

lemma pairwise_sorted_wrt:
  assumes "distinct cs" and "\<And>a b. a \<in> set cs \<Longrightarrow> b \<in> set cs \<Longrightarrow> a \<noteq> b \<Longrightarrow> R a b"
  shows "sorted_wrt R cs"
  using assms by (induction cs) auto

end
