(* ===== verification/Config.thy ===== *)
theory Config
  imports Prelude
begin

text \<open>
  \<open>app/config.py\<close>: the settings record with its defaults, the comma-separated list fields, the
  field validators, and the \<open>group=scope\<close> map of the JWT configuration.
\<close>

text \<open>The raw value of a list field before validation; \<open>CsvOther\<close> is any other Python object.\<close>

datatype raw_value = RawNone | RawStr string | RawSeq "string list" | RawOther

text \<open>
  \<open>_parse_csv\<close>: \<open>None\<close> stands for the value handed on unchanged, which the field type
  \<open>list[str]\<close> then rejects. Sequence items are given as their \<open>str\<close>.
\<close>

definition parse_csv :: "raw_value \<Rightarrow> string list option" where
  "parse_csv value =
     (case value of
        RawNone \<Rightarrow> Some []
      | RawStr s \<Rightarrow> Some (csv_items s)
      | RawSeq xs \<Rightarrow> Some (filter (\<lambda>x. x \<noteq> []) (map py_strip xs))
      | RawOther \<Rightarrow> None)"

fun parse_jwt_group_scope_map :: "string list \<Rightarrow> (string, string) dict \<Rightarrow> (string, string) dict" where
  "parse_jwt_group_scope_map [] mapping = mapping"
| "parse_jwt_group_scope_map (entry # entries) mapping =
     (let (group, separator, scope) = py_partition (CHR ''='') entry in
      if \<not> separator then parse_jwt_group_scope_map entries mapping
      else let g = py_strip group; sc = py_strip scope in
        parse_jwt_group_scope_map entries
          (if g \<noteq> [] \<and> sc \<noteq> [] then AList.update g sc mapping else mapping))"

record settings =
  api_keys :: "string list"
  auth_mode :: "string list"
  openai_api_key :: "string option"
  anthropic_api_key :: "string option"
  api_key_last_used_min_interval_seconds :: int
  database_url :: string
  redis_url :: "string option"
  audit_enabled :: bool
  audit_sync :: bool
  audit_fallback_path :: string
  audit_store_messages :: bool
  jwt_issuer :: "string option"
  jwt_audience :: "string option"
  jwt_jwks_url :: "string option"
  jwt_algorithms :: "string list"
  jwt_scope_claim :: string
  jwt_group_scope_map :: "string list"
  jwt_org_claim :: string
  policy_mode :: string
  forbidden_patterns :: "string list"
  pii_masking_enabled :: bool
  pii_types :: "string list"
  rate_limit_rpm :: int
  rate_limit_backend :: string
  rate_limit_strict :: bool
  pre_auth_rpm_per_ip :: int
  trusted_proxies :: "string list"
  trust_forwarded_for :: bool
  log_level :: string
  default_max_tokens :: int
  max_request_bytes :: int
  max_messages :: int
  max_message_chars :: int
  max_model_name_chars :: int
  max_output_tokens :: int
  stream_max_duration_seconds :: int
  max_concurrent_streams_per_key :: int
  docs_enabled :: bool
  allowed_hosts :: "string list"
  openai_models :: "string list"
  anthropic_models :: "string list"

definition default_settings :: settings where
  "default_settings = \<lparr>
     api_keys = [], auth_mode = [''api_key''], openai_api_key = None, anthropic_api_key = None,
     api_key_last_used_min_interval_seconds = 60,
     database_url = ''sqlite+aiosqlite:///./data/app.db'', redis_url = None,
     audit_enabled = True, audit_sync = False, audit_fallback_path = ''./data/audit_fallback.jsonl'',
     audit_store_messages = False, jwt_issuer = None, jwt_audience = None, jwt_jwks_url = None,
     jwt_algorithms = [''RS256''], jwt_scope_claim = ''groups'', jwt_group_scope_map = [],
     jwt_org_claim = ''org_id'', policy_mode = ''log_only'', forbidden_patterns = [],
     pii_masking_enabled = True, pii_types = [''rrn'', ''card'', ''phone'', ''email''],
     rate_limit_rpm = 60, rate_limit_backend = ''memory'', rate_limit_strict = False,
     pre_auth_rpm_per_ip = 30, trusted_proxies = [], trust_forwarded_for = False,
     log_level = ''INFO'', default_max_tokens = 1024, max_request_bytes = 1048576,
     max_messages = 200, max_message_chars = 100000, max_model_name_chars = 128,
     max_output_tokens = 4096, stream_max_duration_seconds = 300,
     max_concurrent_streams_per_key = 4, docs_enabled = True, allowed_hosts = [''*''],
     openai_models = [''gpt-4o'', ''gpt-4o-mini''],
     anthropic_models = [''claude-sonnet-4-6'', ''claude-3-5-haiku-latest'']\<rparr>"

definition validate_auth_mode :: "string list \<Rightarrow> py_error + string list" where
  "validate_auth_mode value =
     (if filter (\<lambda>x. x \<notin> {''api_key'', ''jwt''}) value \<noteq> [] then Inl ValueError else Inr value)"

definition validate_policy_mode :: "string \<Rightarrow> py_error + string" where
  "validate_policy_mode value =
     (if value \<notin> {''block'', ''log_only'', ''disabled''} then Inl ValueError else Inr value)"

text \<open>What pydantic accepts: the \<open>ge\<close> bounds of the fields and the two validators.\<close>

definition settings_valid :: "settings \<Rightarrow> bool" where
  "settings_valid st \<longleftrightarrow>
     0 \<le> api_key_last_used_min_interval_seconds st \<and> 0 \<le> rate_limit_rpm st \<and>
     0 \<le> pre_auth_rpm_per_ip st \<and> 1 \<le> max_request_bytes st \<and> 1 \<le> max_messages st \<and>
     1 \<le> max_message_chars st \<and> 1 \<le> max_model_name_chars st \<and> 1 \<le> max_output_tokens st \<and>
     1 \<le> stream_max_duration_seconds st \<and> 1 \<le> max_concurrent_streams_per_key st \<and>
     validate_auth_mode (auth_mode st) = Inr (auth_mode st) \<and>
     validate_policy_mode (policy_mode st) = Inr (policy_mode st)"

definition discard_raw_api_keys :: "settings \<Rightarrow> settings" where
  "discard_raw_api_keys st = st\<lparr>api_keys := []\<rparr>"

subsection \<open>Facts\<close>

lemma default_settings_valid: "settings_valid default_settings"
  by (simp add: settings_valid_def default_settings_def validate_auth_mode_def validate_policy_mode_def)

lemma parse_csv_clean: "parse_csv (RawStr s) = Some xs \<Longrightarrow> x \<in> set xs \<Longrightarrow> csv_clean x"
  by (auto simp: parse_csv_def csv_items_clean)

lemma parse_csv_trimmed: "parse_csv v = Some xs \<Longrightarrow> x \<in> set xs \<Longrightarrow> x \<noteq> [] \<and> py_strip x = x"
  by (cases v) (auto simp: parse_csv_def dest: csv_items_clean simp: csv_clean_def)

text \<open>An entry that contributes to the map, as the pair it contributes.\<close>

definition scope_entry :: "string \<Rightarrow> (string \<times> string) option" where
  "scope_entry entry =
     (let (group, separator, scope) = py_partition (CHR ''='') entry in
      if separator \<and> py_strip group \<noteq> [] \<and> py_strip scope \<noteq> [] then Some (py_strip group, py_strip scope) else None)"

lemma parse_map_entries:
  "map_of (parse_jwt_group_scope_map entries mapping) =
     map_of mapping ++ map_of (rev (List.map_filter scope_entry entries))"
proof (induction entries arbitrary: mapping)
  case (Cons e es)
  obtain g f sc where p: "py_partition (CHR ''='') e = (g, f, sc)" by (cases "py_partition (CHR ''='') e") auto
  show ?case
    using Cons.IH p by (auto simp: scope_entry_def List.map_filter_def Let_def fun_eq_iff map_add_def split: option.splits)
qed (simp add: List.map_filter_def)

end
