(* ===== verification/Errors.thy ===== *)
theory Errors
  imports Prelude
begin

text \<open>
  \<open>app/errors.py\<close>: the exception classes of the gateway with their HTTP status, type and code,
  the mapping of upstream failures to public errors, and the handlers that turn an exception
  into a response and record its type in the request state.
\<close>

datatype error_class =
  APIError | AuthenticationError | RateLimitError | PolicyViolationError |
  UnsupportedModelError | ProviderConfigurationError | ProviderAPIError

text \<open>The class attributes \<open>status_code\<close>, \<open>error_type\<close> and \<open>code\<close>.\<close>

fun class_status :: "error_class \<Rightarrow> int" where
  "class_status APIError = 500"
| "class_status AuthenticationError = 401"
| "class_status RateLimitError = 429"
| "class_status PolicyViolationError = 403"
| "class_status UnsupportedModelError = 400"
| "class_status ProviderConfigurationError = 503"
| "class_status ProviderAPIError = 502"

fun class_type :: "error_class \<Rightarrow> string" where
  "class_type APIError = ''server_error''"
| "class_type AuthenticationError = ''invalid_request_error''"
| "class_type RateLimitError = ''rate_limit_error''"
| "class_type PolicyViolationError = ''content_policy_violation''"
| "class_type UnsupportedModelError = ''invalid_request_error''"
| "class_type ProviderConfigurationError = ''server_error''"
| "class_type ProviderAPIError = ''provider_error''"

fun class_code :: "error_class \<Rightarrow> string option" where
  "class_code APIError = Some ''internal_error''"
| "class_code AuthenticationError = Some ''invalid_api_key''"
| "class_code RateLimitError = Some ''rate_limit_exceeded''"
| "class_code PolicyViolationError = Some ''content_policy_violation''"
| "class_code UnsupportedModelError = Some ''model_not_found''"
| "class_code ProviderConfigurationError = Some ''provider_not_configured''"
| "class_code ProviderAPIError = Some ''provider_error''"

text \<open>An instance; the last five fields are set by \<open>ProviderAPIError\<close> only.\<close>

record api_error =
  e_class :: error_class
  e_message :: string
  e_status :: int
  e_type :: string
  e_code :: "string option"
  e_headers :: "(string, string) dict"
  e_provider :: "string option"
  e_upstream :: "int option"
  e_raw_message :: "string option"
  e_raw_class :: "string option"
  e_retry_after :: "string option"

text \<open>\<open>APIError.__init__\<close>: \<open>x or default\<close> also replaces a zero status and an empty type.\<close>

definition api_error_init :: "error_class \<Rightarrow> string \<Rightarrow> int option \<Rightarrow> string option \<Rightarrow> string option \<Rightarrow>
    (string, string) dict option \<Rightarrow> api_error" where
  "api_error_init cls message status etype ecode hdrs = \<lparr>
     e_class = cls, e_message = message,
     e_status = (case status of Some n \<Rightarrow> if n = 0 then class_status cls else n | None \<Rightarrow> class_status cls),
     e_type = (case etype of Some t \<Rightarrow> if t = [] then class_type cls else t | None \<Rightarrow> class_type cls),
     e_code = (case ecode of Some c \<Rightarrow> Some c | None \<Rightarrow> class_code cls),
     e_headers = (case hdrs of Some h \<Rightarrow> h | None \<Rightarrow> []),
     e_provider = None, e_upstream = None, e_raw_message = None, e_raw_class = None,
     e_retry_after = None\<rparr>"

definition plain_error :: "error_class \<Rightarrow> string \<Rightarrow> api_error" where
  "plain_error cls message = api_error_init cls message None None None None"

definition policy_violation_error :: api_error where
  "policy_violation_error = plain_error PolicyViolationError ''Request blocked by content policy.''"

text \<open>
  \<open>ProviderAPIError.__init__\<close>; its \<open>message\<close> argument is not used. The status, type, code,
  public message and headers depend on the upstream status only (and \<open>retry_after\<close> on 429).
\<close>

definition provider_public :: "int option \<Rightarrow> string option \<Rightarrow>
    int \<times> string \<times> string \<times> string \<times> (string, string) dict" where
  "provider_public upstream retry =
     (case upstream of
        None \<Rightarrow> (502, ''provider_error'', ''provider_error'', ''Upstream provider error'', [])
      | Some u \<Rightarrow>
          if u = 429 then
            (429, ''rate_limit_error'', ''rate_limit_exceeded'', ''Upstream provider rate limit exceeded'',
             (case retry of None \<Rightarrow> [] | Some r \<Rightarrow> if r = [] then [] else [(''Retry-After'', r)]))
          else if u = 401 \<or> u = 403 then
            (502, ''provider_error'', ''provider_error'', ''Upstream provider error'', [])
          else if 400 \<le> u \<and> u < 500 then
            (if u = 400 \<or> u = 404
             then (400, ''invalid_request_error'', ''model_not_found'',
                   ''Upstream provider rejected the requested model'', [])
             else (400, ''invalid_request_error'', ''invalid_request'',
                   ''Upstream provider rejected the request'', []))
          else (502, ''provider_error'', ''provider_error'', ''Upstream provider error'', []))"

definition provider_api_error :: "string option \<Rightarrow> int option \<Rightarrow> string option \<Rightarrow> string option \<Rightarrow>
    string option \<Rightarrow> api_error" where
  "provider_api_error provider upstream raw_message raw_class retry =
     (let (status, etype, ecode, msg, hdrs) = provider_public upstream retry in
      (api_error_init ProviderAPIError msg (Some status) (Some etype) (Some ecode) (Some hdrs))
        \<lparr>e_provider := provider, e_upstream := upstream, e_raw_message := raw_message,
         e_raw_class := raw_class, e_retry_after := retry\<rparr>)"

subsection \<open>Handlers\<close>

text \<open>
  \<open>openai_error_body\<close>: the object under \<open>"error"\<close>; the policy handler adds \<open>"param": None\<close>.
\<close>

record error_body =
  eb_message :: string
  eb_type :: string
  eb_param :: bool
  eb_code :: "string option"

definition openai_error_body :: "string \<Rightarrow> string \<Rightarrow> string option \<Rightarrow> error_body" where
  "openai_error_body message etype ecode =
     \<lparr>eb_message = message, eb_type = etype, eb_param = False, eb_code = ecode\<rparr>"

record error_response =
  er_status :: int
  er_body :: error_body
  er_headers :: "(string, string) dict"

text \<open>One entry of \<open>exc.errors()\<close>: its location path and message (absent keys as \<open>None\<close>).\<close>

type_synonym validation_entry = "string list option \<times> string option"

definition validation_part :: "validation_entry \<Rightarrow> string" where
  "validation_part entry =
     (let location = py_join ''.'' (case fst entry of None \<Rightarrow> [] | Some loc \<Rightarrow> loc);
          message = (case snd entry of None \<Rightarrow> ''Invalid value'' | Some m \<Rightarrow> m)
      in if location \<noteq> [] then location @ '': '' @ message else message)"

definition validation_message :: "validation_entry list \<Rightarrow> string" where
  "validation_message errs = ''Invalid request: '' @ py_join ''; '' (map validation_part (take 3 errs))"

text \<open>Everything a handler function can raise: the registered classes and any other exception.\<close>

datatype exc =
    ApiExc api_error
  | ValidationExc "validation_entry list"
  | HttpExc int "string option" "(string, string) dict"   \<comment> \<open>status, detail, headers\<close>
  | OtherExc

definition api_error_handler :: "api_error \<Rightarrow> error_response" where
  "api_error_handler e = \<lparr>er_status = e_status e,
     er_body = openai_error_body (e_message e) (e_type e) (e_code e), er_headers = e_headers e\<rparr>"

definition policy_violation_error_handler :: "api_error \<Rightarrow> error_response" where
  "policy_violation_error_handler e = \<lparr>er_status = e_status e,
     er_body = \<lparr>eb_message = e_message e, eb_type = e_type e, eb_param = True, eb_code = e_code e\<rparr>,
     er_headers = e_headers e\<rparr>"

definition validation_error_handler :: "validation_entry list \<Rightarrow> error_response" where
  "validation_error_handler errs = \<lparr>er_status = 422,
     er_body = openai_error_body (validation_message errs) ''invalid_request_error'' (Some ''invalid_request''),
     er_headers = []\<rparr>"

definition http_error_handler :: "int \<Rightarrow> string option \<Rightarrow> (string, string) dict \<Rightarrow> error_response" where
  "http_error_handler status detail hdrs = \<lparr>er_status = status,
     er_body = openai_error_body
       (case detail of None \<Rightarrow> ''HTTP error'' | Some d \<Rightarrow> if d = [] then ''HTTP error'' else d)
       ''invalid_request_error''
       (Some (if status = 413 then ''request_too_large'' else ''http_error'')),
     er_headers = hdrs\<rparr>"

definition unhandled_error_handler :: error_response where
  "unhandled_error_handler = \<lparr>er_status = 500,
     er_body = openai_error_body ''Internal server error'' ''server_error'' (Some ''internal_error''),
     er_headers = []\<rparr>"

text \<open>The handler chosen by the exception's class: the most specific registered one.\<close>

definition handle_exc :: "exc \<Rightarrow> error_response" where
  "handle_exc x =
     (case x of
        ApiExc e \<Rightarrow> if e_class e = PolicyViolationError then policy_violation_error_handler e
                    else api_error_handler e
      | ValidationExc errs \<Rightarrow> validation_error_handler errs
      | HttpExc status detail hdrs \<Rightarrow> http_error_handler status detail hdrs
      | OtherExc \<Rightarrow> unhandled_error_handler)"

text \<open>What the same handler stores in \<open>request.state.error_type\<close>.\<close>

definition handled_error_type :: "exc \<Rightarrow> string" where
  "handled_error_type x =
     (case x of
        ApiExc e \<Rightarrow> e_type e
      | ValidationExc _ \<Rightarrow> ''invalid_request_error''
      | HttpExc _ _ _ \<Rightarrow> ''http_error''
      | OtherExc \<Rightarrow> ''server_error'')"

text \<open>The log level of an upstream failure.\<close>

datatype log_level = ERROR | WARNING

definition provider_error_level :: "api_error \<Rightarrow> log_level" where
  "provider_error_level e =
     (case e_upstream e of None \<Rightarrow> ERROR | Some u \<Rightarrow> if u \<ge> 500 then ERROR else WARNING)"

subsection \<open>Facts\<close>

lemma plain_error_simps [simp]:
  "e_class (plain_error c m) = c" "e_message (plain_error c m) = m" "e_status (plain_error c m) = class_status c"
  "e_type (plain_error c m) = class_type c" "e_code (plain_error c m) = class_code c"
  "e_headers (plain_error c m) = []"
  by (simp_all add: plain_error_def api_error_init_def)

lemma provider_error_class [simp]: "e_class (provider_api_error p u m c r) = ProviderAPIError"
  by (simp add: provider_api_error_def api_error_init_def split: prod.splits)

lemma provider_public_cases:
  "fst (provider_public u r) = 429 \<and> u = Some 429 \<or>
   fst (provider_public u r) = 400 \<and> (\<exists>n. u = Some n \<and> 400 \<le> n \<and> n < 500 \<and> n \<notin> {401, 403, 429}) \<or>
   fst (provider_public u r) = 502 \<and> (u = None \<or> (\<exists>n. u = Some n \<and> (n < 400 \<or> 500 \<le> n \<or> n = 401 \<or> n = 403)))"
  by (auto simp: provider_public_def split: option.splits)

lemma provider_error_status:
  "e_status (provider_api_error p u m c r) = fst (provider_public u r)"
  using provider_public_cases [of u r]
  by (auto simp: provider_api_error_def api_error_init_def split: prod.splits)

lemma handle_api_status: "er_status (handle_exc (ApiExc e)) = e_status e"
  by (simp add: handle_exc_def api_error_handler_def policy_violation_error_handler_def)

text \<open>An upstream failure is reported as 429 exactly for an upstream 429, as 400 for the other
  client errors except 401 and 403, and as 502 otherwise; what the client sees does not depend on
  the upstream message, the exception class or the provider, so none of these can leak.\<close>

theorem provider_error_public:
  "er_status (handle_exc (ApiExc (provider_api_error p u m c r))) =
     (case u of None \<Rightarrow> 502
      | Some n \<Rightarrow> if n = 429 then 429 else if 400 \<le> n \<and> n < 500 \<and> n \<noteq> 401 \<and> n \<noteq> 403 then 400 else 502) \<and>
   handle_exc (ApiExc (provider_api_error p u m c r)) = handle_exc (ApiExc (provider_api_error p' u m' c' r))"
proof
  show "er_status (handle_exc (ApiExc (provider_api_error p u m c r))) =
     (case u of None \<Rightarrow> 502
      | Some n \<Rightarrow> if n = 429 then 429 else if 400 \<le> n \<and> n < 500 \<and> n \<noteq> 401 \<and> n \<noteq> 403 then 400 else 502)"
    by (simp add: handle_api_status provider_error_status provider_public_def split: option.split)
  show "handle_exc (ApiExc (provider_api_error p u m c r)) = handle_exc (ApiExc (provider_api_error p' u m' c' r))"
    by (simp add: handle_exc_def api_error_handler_def provider_api_error_def api_error_init_def split: prod.split)
qed

end
