(* ===== verification/Database.thy ===== *)
theory Database
  imports Complex_Main Prelude
begin

text \<open>
  \<open>app/db/models.py\<close>: the tables as lists of rows in insertion order, with the uniqueness constraints
  the models declare, and the few statements the program runs on them. Points in time are
  microseconds in UTC; a naive datetime is read as UTC, as \<open>_as_utc\<close> does. SQLite, the default
  database, does not enforce the foreign keys, so an insert checks primary keys and unique columns only.
\<close>

record organization =
  o_id :: string
  o_name :: string
  o_created_at :: int

record user =
  u_id :: string
  u_org_id :: string
  u_email :: string
  u_role :: string
  u_created_at :: int

record api_key =
  k_id :: string
  k_org_id :: string
  k_prefix :: string
  k_key_hash :: string
  k_name :: string
  k_scopes :: string
  k_created_by :: "string option"
  k_created_at :: int
  k_last_used_at :: "int option"
  k_revoked_at :: "int option"

record audit_log =
  a_id :: string
  a_request_id :: string
  a_ts :: int
  a_principal_hash :: "string option"
  a_org_id :: "string option"
  a_api_key_id :: "string option"
  a_provider :: "string option"
  a_model :: "string option"
  a_status_code :: int
  a_error_type :: "string option"
  a_prompt_tokens :: int
  a_completion_tokens :: int
  a_total_tokens :: int
  a_cost_usd :: rat
  a_latency_ms :: int
  a_stream :: bool

record policy_event =
  pe_id :: string
  pe_request_id :: string
  pe_ts :: int
  pe_principal_hash :: "string option"
  pe_org_id :: "string option"
  pe_api_key_id :: "string option"
  pe_event_type :: string
  pe_action :: string
  pe_rule_id :: "string option"
  pe_count :: int
  pe_severity :: string
  pe_stream :: bool

record audit_message =
  am_id :: string
  am_request_id :: string
  am_ts :: int
  am_seq :: int
  am_role :: string
  am_content :: string

record database =
  organizations :: "organization list"
  users :: "user list"
  keys :: "api_key list"
  audit_logs :: "audit_log list"
  policy_events :: "policy_event list"
  audit_messages :: "audit_message list"

definition empty_db :: database where
  "empty_db = \<lparr>organizations = [], users = [], keys = [], audit_logs = [], policy_events = [], audit_messages = []\<rparr>"

datatype db_error = IntegrityError | OperationalError

subsection \<open>Statements\<close>

text \<open>\<open>session.get(Organization, id)\<close> and \<open>session.get(APIKey, id)\<close>.\<close>

definition get_org :: "string \<Rightarrow> database \<Rightarrow> organization option" where
  "get_org i db = find (\<lambda>r. o_id r = i) (organizations db)"

definition get_key :: "string \<Rightarrow> database \<Rightarrow> api_key option" where
  "get_key i db = find (\<lambda>r. k_id r = i) (keys db)"

definition insert_org :: "organization \<Rightarrow> database \<Rightarrow> db_error + database" where
  "insert_org r db =
     (if \<exists>x \<in> set (organizations db). o_id x = o_id r \<or> o_name x = o_name r then Inl IntegrityError
      else Inr (db\<lparr>organizations := organizations db @ [r]\<rparr>))"

definition insert_key :: "api_key \<Rightarrow> database \<Rightarrow> db_error + database" where
  "insert_key r db =
     (if \<exists>x \<in> set (keys db). k_id x = k_id r \<or> k_key_hash x = k_key_hash r then Inl IntegrityError
      else Inr (db\<lparr>keys := keys db @ [r]\<rparr>))"

text \<open>An update of the row with a given primary key.\<close>

definition update_key :: "string \<Rightarrow> (api_key \<Rightarrow> api_key) \<Rightarrow> database \<Rightarrow> database" where
  "update_key i f db = db\<lparr>keys := map (\<lambda>r. if k_id r = i then f r else r) (keys db)\<rparr>"

text \<open>\<open>session.add\<close> of audit rows and the commit: all of them or none; primary keys are unique.\<close>

definition insert_audit :: "audit_log \<Rightarrow> policy_event list \<Rightarrow> audit_message list \<Rightarrow> database \<Rightarrow> db_error + database" where
  "insert_audit r pes ams db =
     (if a_id r \<in> a_id ` set (audit_logs db) \<or> \<not> distinct (map pe_id pes) \<or> \<not> distinct (map am_id ams) \<or>
         (\<exists>p \<in> set pes. pe_id p \<in> pe_id ` set (policy_events db)) \<or>
         (\<exists>m \<in> set ams. am_id m \<in> am_id ` set (audit_messages db)) then Inl IntegrityError
      else Inr (db\<lparr>audit_logs := audit_logs db @ [r], policy_events := policy_events db @ pes,
        audit_messages := audit_messages db @ ams\<rparr>))"

subsection \<open>Constraints\<close>

definition db_wf :: "database \<Rightarrow> bool" where
  "db_wf db \<longleftrightarrow> distinct (map o_id (organizations db)) \<and> distinct (map o_name (organizations db)) \<and>
     distinct (map k_id (keys db)) \<and> distinct (map k_key_hash (keys db))"

lemma empty_db_wf: "db_wf empty_db"
  by (simp add: db_wf_def empty_db_def)

lemma insert_org_wf: "db_wf db \<Longrightarrow> insert_org r db = Inr db' \<Longrightarrow> db_wf db'"
  by (force simp: db_wf_def insert_org_def split: if_splits)

lemma insert_key_wf: "db_wf db \<Longrightarrow> insert_key r db = Inr db' \<Longrightarrow> db_wf db'"
  by (force simp: db_wf_def insert_key_def split: if_splits)

lemma update_key_wf:
  assumes "db_wf db" and "\<And>r. k_id (f r) = k_id r \<and> k_key_hash (f r) = k_key_hash r"
  shows "db_wf (update_key i f db)"
proof -
  have "k_id \<circ> (\<lambda>r. if k_id r = i then f r else r) = k_id"
    and "k_key_hash \<circ> (\<lambda>r. if k_id r = i then f r else r) = k_key_hash"
    using assms(2) by (auto simp: fun_eq_iff)
  with assms(1) show ?thesis by (simp add: db_wf_def update_key_def)
qed

text \<open>A find by a unique column.\<close>

lemma find_distinct:
  "distinct (map f xs) \<Longrightarrow> r \<in> set xs \<Longrightarrow> find (\<lambda>x. f x = f r) xs = Some r"
  by (induction xs) auto

lemma filter_distinct:
  "distinct (map f xs) \<Longrightarrow> r \<in> set xs \<Longrightarrow> filter (\<lambda>x. f x = f r) xs = [r]"
proof (induction xs)
  case (Cons a xs)
  then show ?case
  proof (cases "a = r")
    case True
    with Cons.prems show ?thesis by (auto simp: filter_empty_conv) (metis imageI)
  next
    case False
    with Cons show ?thesis by force
  qed
qed simp

lemma get_key_eq: "db_wf db \<Longrightarrow> get_key i db = Some r \<longleftrightarrow> r \<in> set (keys db) \<and> k_id r = i"
  using find_distinct [of k_id "keys db" r] by (auto simp: get_key_def db_wf_def find_Some_iff)

lemma get_org_Some: "get_org i db = Some r \<Longrightarrow> r \<in> set (organizations db) \<and> o_id r = i"
  by (auto simp: get_org_def find_Some_iff)

lemma get_key_update:
  assumes "\<And>r. k_id (f r) = k_id r"
  shows "get_key j (update_key i f db) = (if i = j then map_option f (get_key j db) else get_key j db)"
proof -
  have "find (\<lambda>r. k_id r = j) (map (\<lambda>r. if k_id r = i then f r else r) xs) =
      (if i = j then map_option f (find (\<lambda>r. k_id r = j) xs) else find (\<lambda>r. k_id r = j) xs)" for xs
    using assms by (induction xs) auto
  then show ?thesis by (simp add: get_key_def update_key_def)
qed

subsection \<open>Connections\<close>

text \<open>
  What a handler can reach: \<open>None\<close> when the sessionmaker is not set; otherwise the database and
  whether reads and commits succeed during the request.
\<close>

record connection =
  conn_db :: database
  read_ok :: bool
  write_ok :: bool

type_synonym sessionmaker = "connection option"

end
