(* ===== verification/Auth.thy ===== *)
theory Auth
  imports Config Errors Database
begin

text \<open>
  \<open>app/auth.py\<close> and \<open>app/auth_jwt.py\<close>: API keys from the environment and from the database, JWT bearer
  tokens, and the scope checks. \<open>sha :: string \<Rightarrow> string\<close> (the hexadecimal SHA-256 digest) is a parameter, as is what
  PyJWT does with a token.
\<close>

record api_key_principal =
  p_hash :: string
  p_key_id :: "string option"
  p_org_id :: "string option"
  p_scopes :: "string set"

subsection \<open>Environment keys\<close>

type_synonym env_store = "string list"

definition from_plaintext :: "(string \<Rightarrow> string) \<Rightarrow> string list \<Rightarrow> env_store" where
  "from_plaintext sha raw_keys = map sha (filter (\<lambda>k. k \<noteq> []) raw_keys)"

text \<open>The loop runs over all hashes and keeps the last that matches.\<close>

fun match_hashes :: "string \<Rightarrow> string list \<Rightarrow> string option \<Rightarrow> string option" where
  "match_hashes token_hash [] matched = matched"
| "match_hashes token_hash (stored # rest) matched =
     match_hashes token_hash rest (if token_hash = stored then Some stored else matched)"

definition env_validate :: "(string \<Rightarrow> string) \<Rightarrow> env_store \<Rightarrow> string \<Rightarrow> api_key_principal option" where
  "env_validate sha store token =
     (case match_hashes (sha token) store None of
        None \<Rightarrow> None
      | Some mh \<Rightarrow> Some \<lparr>p_hash = mh, p_key_id = None, p_org_id = None,
                        p_scopes = {''chat'', ''admin'', ''super_admin''}\<rparr>)"

subsection \<open>Database keys\<close>

definition parse_scopes :: "string option \<Rightarrow> string set" where
  "parse_scopes value =
     (let scopes = set (csv_items (case value of None \<Rightarrow> ''chat'' | Some v \<Rightarrow> if v = [] then ''chat'' else v))
      in if scopes = {} then {''chat''} else scopes)"

definition should_update_last_used :: "int \<Rightarrow> int option \<Rightarrow> int \<Rightarrow> bool" where
  "should_update_last_used interval last_used now =
     (case last_used of
        None \<Rightarrow> True
      | Some t \<Rightarrow> interval = 0 \<or> t \<le> now - interval * 1000000)"

text \<open>\<open>scalar_one_or_none\<close>: the outer \<open>None\<close> is the exception for more than one row.\<close>

definition scalar_one_or_none :: "'a list \<Rightarrow> 'a option option" where
  "scalar_one_or_none rows = (case rows of [] \<Rightarrow> Some None | [r] \<Rightarrow> Some (Some r) | _ \<Rightarrow> None)"

definition key_principal :: "string \<Rightarrow> api_key \<Rightarrow> api_key_principal" where
  "key_principal token_hash r = \<lparr>p_hash = token_hash, p_key_id = Some (k_id r), p_org_id = Some (k_org_id r),
     p_scopes = parse_scopes (Some (k_scopes r))\<rparr>"

record resolver =
  env_keys :: env_store
  last_used_interval :: int

definition resolve :: "(string \<Rightarrow> string) \<Rightarrow> resolver \<Rightarrow> int \<Rightarrow> string \<Rightarrow> sessionmaker \<Rightarrow>
    api_key_principal option \<times> sessionmaker" where
  "resolve sha rs now token sm =
     (let env = env_validate sha (env_keys rs) token; token_hash = sha token in
      case sm of
        None \<Rightarrow> (env, sm)
      | Some c \<Rightarrow>
          if \<not> read_ok c then (env, sm)
          else case scalar_one_or_none
              (filter (\<lambda>r. k_key_hash r = token_hash \<and> k_revoked_at r = None) (keys (conn_db c))) of
            None \<Rightarrow> (env, sm)
          | Some None \<Rightarrow> (env, sm)
          | Some (Some r) \<Rightarrow>
              if should_update_last_used (last_used_interval rs) (k_last_used_at r) now
              then if write_ok c
                then (Some (key_principal token_hash r),
                      Some (c\<lparr>conn_db := update_key (k_id r) (k_last_used_at_update (\<lambda>_. Some now)) (conn_db c)\<rparr>))
                else (env, sm)
              else (Some (key_principal token_hash r), sm))"

subsection \<open>JWT\<close>

text \<open>
  Claim values: a string; a list, as its items (\<open>None\<close> for one that is not a string); any other JSON value,
  with its truth value. The last string of the latter two is their \<open>str\<close>. A claim that is \<open>null\<close> is left out
  of the dictionary: \<open>claims.get\<close> gives \<open>None\<close> for it either way.
\<close>

datatype claim_value = CStr string | CList "string option list" string | COther bool string

type_synonym claims = "(string, claim_value) dict"

fun claim_truthy :: "claim_value \<Rightarrow> bool" where
  "claim_truthy (CStr s) \<longleftrightarrow> s \<noteq> []"
| "claim_truthy (CList xs _) \<longleftrightarrow> xs \<noteq> []"
| "claim_truthy (COther b _) \<longleftrightarrow> b"

fun claim_str :: "claim_value \<Rightarrow> string" where
  "claim_str (CStr s) = s"
| "claim_str (CList _ s) = s"
| "claim_str (COther _ s) = s"

text \<open>\<open>JWTValidator.validate\<close>: the signing key and PyJWT's decoding are parameters; \<open>None\<close> is any exception.\<close>

definition jwt_validate :: "(string \<Rightarrow> 'key option) \<Rightarrow>
    (string \<Rightarrow> 'key \<Rightarrow> string list \<Rightarrow> string option \<Rightarrow> string option \<Rightarrow> string list \<Rightarrow> claims option) \<Rightarrow>
    settings \<Rightarrow> string \<Rightarrow> claims option" where
  "jwt_validate signing_key decode st token =
     (case signing_key token of
        None \<Rightarrow> None
      | Some key \<Rightarrow> decode token key (jwt_algorithms st) (jwt_audience st) (jwt_issuer st) [''exp'', ''iss'', ''aud''])"

definition build_jwt_validator where
  "build_jwt_validator signing_key decode st =
     (if ''jwt'' \<notin> set (auth_mode st) \<or> jwt_jwks_url st \<in> {None, Some []} then None
      else Some (jwt_validate signing_key decode st))"

definition map_groups_to_scopes :: "string list \<Rightarrow> (string, string) dict \<Rightarrow> string set" where
  "map_groups_to_scopes groups group_scope_map = set (List.map_filter (map_of group_scope_map) groups)"

text \<open>\<open>value.split()\<close>: the maximal runs of characters that are not white space.\<close>

fun py_words :: "string \<Rightarrow> string \<Rightarrow> string list" where
  "py_words [] acc = (if acc = [] then [] else [rev acc])"
| "py_words (c # cs) acc =
     (if py_isspace c then (if acc = [] then py_words cs [] else rev acc # py_words cs [])
      else py_words cs (c # acc))"

definition groups_from_claim :: "claim_value option \<Rightarrow> bool \<Rightarrow> string list" where
  "groups_from_claim value split_string =
     (case value of
        None \<Rightarrow> []
      | Some (CStr s) \<Rightarrow> if split_string then filter (\<lambda>x. x \<noteq> []) (py_words s []) else [s]
      | Some (CList xs _) \<Rightarrow> List.map_filter id xs
      | Some (COther _ _) \<Rightarrow> [])"

definition invalid_credentials :: exc where
  "invalid_credentials = ApiExc (plain_error AuthenticationError ''Invalid credentials'')"

definition build_jwt_principal :: "(string \<Rightarrow> string) \<Rightarrow> settings \<Rightarrow> claims \<Rightarrow> sessionmaker \<Rightarrow> exc + api_key_principal" where
  "build_jwt_principal sha st claims sm =
     (case (map_of claims ''iss'', map_of claims ''sub'') of
        (Some iss, Some sub) \<Rightarrow>
          if \<not> claim_truthy iss \<or> \<not> claim_truthy sub then Inl invalid_credentials
          else (case map_of claims (jwt_org_claim st) of
            None \<Rightarrow> Inl invalid_credentials
          | Some org_value \<Rightarrow>
              (case sm of
                 None \<Rightarrow> Inl invalid_credentials
               | Some c \<Rightarrow>
                   if \<not> read_ok c then Inl OtherExc
                   else (case get_org (claim_str org_value) (conn_db c) of
                     None \<Rightarrow> Inl invalid_credentials
                   | Some org \<Rightarrow>
                       let group_scope_map = parse_jwt_group_scope_map (jwt_group_scope_map st) [];
                           groups = groups_from_claim (map_of claims (jwt_scope_claim st))
                             (jwt_scope_claim st \<in> {''scope'', ''scp''});
                           scopes = map_groups_to_scopes groups group_scope_map
                       in if scopes = {} then Inl invalid_credentials
                          else Inr \<lparr>p_hash = sha (''jwt:'' @ claim_str iss @ '':'' @ claim_str sub),
                                   p_key_id = None, p_org_id = Some (o_id org), p_scopes = scopes\<rparr>)))
      | _ \<Rightarrow> Inl invalid_credentials)"

subsection \<open>Dependencies\<close>

text \<open>The credentials that FastAPI's bearer scheme extracts: scheme and token, if there is a header.\<close>

definition require_api_key :: "(string \<Rightarrow> string) \<Rightarrow> resolver \<Rightarrow> (string \<Rightarrow> claims option) option \<Rightarrow> settings \<Rightarrow> int \<Rightarrow>
    (string \<times> string) option \<Rightarrow> sessionmaker \<Rightarrow> (exc + api_key_principal) \<times> sessionmaker" where
  "require_api_key sha rs validator st now credentials sm =
     (case credentials of
        None \<Rightarrow> (Inl (ApiExc (plain_error AuthenticationError ''Missing bearer token'')), sm)
      | Some (scheme, token) \<Rightarrow>
          if py_lower scheme \<noteq> ''bearer''
          then (Inl (ApiExc (plain_error AuthenticationError ''Missing bearer token'')), sm)
          else
            let (by_key, sm') = (if ''api_key'' \<in> set (auth_mode st) then resolve sha rs now token sm else (None, sm)) in
            case by_key of
              Some p \<Rightarrow> (Inr p, sm')
            | None \<Rightarrow>
                if ''jwt'' \<in> set (auth_mode st) then
                  (case validator of
                     None \<Rightarrow> (Inl invalid_credentials, sm')
                   | Some validate \<Rightarrow>
                       (case validate token of
                          None \<Rightarrow> (Inl invalid_credentials, sm')
                        | Some claims \<Rightarrow> (build_jwt_principal sha st claims sm', sm')))
                else (Inl invalid_credentials, sm'))"

definition require_scope :: "string \<Rightarrow> api_key_principal \<Rightarrow> exc + api_key_principal" where
  "require_scope scope p =
     (if scope \<notin> p_scopes p then Inl (ApiExc (plain_error AuthenticationError ''Missing required scope'')) else Inr p)"

definition require_admin_principal :: "api_key_principal \<Rightarrow> exc + api_key_principal" where
  "require_admin_principal p =
     (if ''admin'' \<notin> p_scopes p then Inl (ApiExc (plain_error AuthenticationError ''Missing required scope'')) else Inr p)"

definition is_super_admin :: "api_key_principal \<Rightarrow> bool" where
  "is_super_admin p \<longleftrightarrow> ''super_admin'' \<in> p_scopes p"

subsection \<open>Facts\<close>

lemma match_hashes_eq: "match_hashes h xs m = (if h \<in> set xs then Some h else m)"
  by (induction xs arbitrary: m) auto

definition env_principal :: "string \<Rightarrow> api_key_principal" where
  "env_principal h = \<lparr>p_hash = h, p_key_id = None, p_org_id = None, p_scopes = {''chat'', ''admin'', ''super_admin''}\<rparr>"

lemma env_validate_eq: "env_validate sha s tok = (if sha tok \<in> set s then Some (env_principal (sha tok)) else None)"
  by (simp add: env_validate_def match_hashes_eq env_principal_def)

text \<open>The unrevoked row with a given hash.\<close>

definition active_key :: "string \<Rightarrow> database \<Rightarrow> api_key option" where
  "active_key h db = find (\<lambda>r. k_key_hash r = h \<and> k_revoked_at r = None) (keys db)"

lemma active_key_Some: "active_key h db = Some r \<Longrightarrow> r \<in> set (keys db) \<and> k_key_hash r = h \<and> k_revoked_at r = None"
  by (auto simp: active_key_def find_Some_iff)

lemma filter_find_unique:
  "distinct (map f xs) \<Longrightarrow> filter (\<lambda>r. f r = h \<and> P r) xs = (case find (\<lambda>r. f r = h \<and> P r) xs of None \<Rightarrow> [] | Some r \<Rightarrow> [r])"
proof (cases "find (\<lambda>r. f r = h \<and> P r) xs")
  case None
  then have "filter (\<lambda>r. f r = h \<and> P r) xs = []" by (auto simp: find_None_iff filter_empty_conv)
  with None show ?thesis by simp
next
  case (Some r)
  then have r: "r \<in> set xs" "f r = h" "P r" by (auto simp: find_Some_iff)
  assume "distinct (map f xs)"
  then have "filter P (filter (\<lambda>x. f x = h) xs) = [r]" using r filter_distinct [of f xs r] by simp
  then show ?thesis using Some by (simp add: conj_commute)
qed

lemma lookup_active:
  "db_wf db \<Longrightarrow> scalar_one_or_none (filter (\<lambda>r. k_key_hash r = h \<and> k_revoked_at r = None) (keys db)) = Some (active_key h db)"
  by (simp add: db_wf_def filter_find_unique active_key_def scalar_one_or_none_def split: option.split)

lemma resolve_db:
  assumes "db_wf (conn_db c)" and "read_ok c"
  shows "resolve sha rs now tok (Some c) =
    (case active_key (sha tok) (conn_db c) of
       None \<Rightarrow> (env_validate sha (env_keys rs) tok, Some c)
     | Some r \<Rightarrow>
         if \<not> should_update_last_used (last_used_interval rs) (k_last_used_at r) now
         then (Some (key_principal (sha tok) r), Some c)
         else if write_ok c
         then (Some (key_principal (sha tok) r),
               Some (c\<lparr>conn_db := update_key (k_id r) (k_last_used_at_update (\<lambda>_. Some now)) (conn_db c)\<rparr>))
         else (env_validate sha (env_keys rs) tok, Some c))"
  using assms by (simp add: resolve_def lookup_active Let_def split: option.split)

lemma active_key_unique:
  assumes "db_wf db" and "r \<in> set (keys db)" and "k_key_hash r = h" and "k_revoked_at r = None"
  shows "active_key h db = Some r"
proof (cases "active_key h db")
  case None
  with assms show ?thesis by (auto simp: active_key_def find_None_iff)
next
  case (Some x)
  with assms show ?thesis using active_key_Some [OF Some] by (auto simp: db_wf_def distinct_map dest: inj_onD)
qed

text \<open>A principal that \<open>resolve\<close> returns belongs to an environment key or to an unrevoked row.\<close>

lemma resolve_sound:
  assumes "resolve sha rs now tok sm = (Some p, sm')"
  shows "(sha tok \<in> set (env_keys rs) \<and> p = env_principal (sha tok)) \<or>
    (\<exists>c r. sm = Some c \<and> r \<in> set (keys (conn_db c)) \<and> k_key_hash r = sha tok \<and> k_revoked_at r = None \<and>
       p = key_principal (sha tok) r)"
proof (cases "env_validate sha (env_keys rs) tok = Some p")
  case True
  then show ?thesis by (simp add: env_validate_eq split: if_splits)
next
  case False
  with assms obtain c where c: "sm = Some c" by (auto simp: resolve_def Let_def split: option.splits)
  let ?rows = "filter (\<lambda>r. k_key_hash r = sha tok \<and> k_revoked_at r = None) (keys (conn_db c))"
  from assms False c obtain r where r: "scalar_one_or_none ?rows = Some (Some r)" and p: "p = key_principal (sha tok) r"
    by (auto simp: resolve_def Let_def split: option.splits if_splits)
  from r have "?rows = [r]" by (simp add: scalar_one_or_none_def split: list.splits)
  then have "r \<in> set ?rows" by (metis list.set_intros(1))
  with c p show ?thesis by auto
qed

text \<open>The configured scopes, the only ones a JWT can carry.\<close>

lemma map_groups_ran: "map_groups_to_scopes groups m \<subseteq> ran (map_of m)"
  by (auto simp: map_groups_to_scopes_def List.map_filter_def intro: ranI)

lemma jwt_principal_sound:
  assumes "build_jwt_principal sha st claims sm = Inr p"
  shows "\<exists>c org. sm = Some c \<and> org \<in> set (organizations (conn_db c)) \<and> p_org_id p = Some (o_id org) \<and> p_key_id p = None \<and>
    map_option claim_str (map_of claims (jwt_org_claim st)) = Some (o_id org) \<and>
    p_scopes p \<noteq> {} \<and> p_scopes p \<subseteq> ran (map_of (parse_jwt_group_scope_map (jwt_group_scope_map st) []))"
proof -
  obtain iss sub org_value c org where e: "map_of claims ''iss'' = Some iss" "map_of claims ''sub'' = Some sub"
    "map_of claims (jwt_org_claim st) = Some org_value" "sm = Some c" "get_org (claim_str org_value) (conn_db c) = Some org"
    using assms by (auto simp: build_jwt_principal_def split: option.splits if_splits)
  show ?thesis
    by (rule exI [of _ c], rule exI [of _ org])
      (use assms e get_org_Some [OF e(5)] in
        \<open>auto simp: build_jwt_principal_def Let_def intro: subsetD [OF map_groups_ran] split: if_splits\<close>)
qed

lemma require_api_key_bearer:
  assumes "py_lower scheme = ''bearer''"
  shows "require_api_key sha rs v st now (Some (scheme, tok)) sm =
    (let (by_key, sm') = (if ''api_key'' \<in> set (auth_mode st) then resolve sha rs now tok sm else (None, sm)) in
     case by_key of Some p \<Rightarrow> (Inr p, sm')
     | None \<Rightarrow> (if ''jwt'' \<in> set (auth_mode st)
         then case Option.bind v (\<lambda>validate. validate tok) of
             None \<Rightarrow> Inl invalid_credentials | Some cl \<Rightarrow> build_jwt_principal sha st cl sm'
         else Inl invalid_credentials, sm'))"
  using assms by (cases v) (simp_all add: require_api_key_def split: option.split prod.split)

text \<open>What authentication does to the database, if anything, \<open>resolve\<close> does.\<close>

lemma require_api_key_state:
  "snd (require_api_key sha rs v st now cred sm) = sm \<or> (\<exists>tok. snd (require_api_key sha rs v st now cred sm) = snd (resolve sha rs now tok sm))"
proof (cases "\<exists>scheme tok. cred = Some (scheme, tok) \<and> py_lower scheme = ''bearer''")
  case True
  then obtain scheme tok where c: "cred = Some (scheme, tok)" and b: "py_lower scheme = ''bearer''" by blast
  obtain x sm1 where e: "(if ''api_key'' \<in> set (auth_mode st) then resolve sha rs now tok sm else (None, sm)) = (x, sm1)"
    by fastforce
  have "snd (require_api_key sha rs v st now cred sm) = sm1"
    unfolding c require_api_key_bearer [OF b] e by (simp split: option.split)
  moreover have "sm1 = sm \<or> sm1 = snd (resolve sha rs now tok sm)" using e by (auto split: if_splits)
  ultimately show ?thesis by blast
qed (auto simp: require_api_key_def split: option.split)

text \<open>A revoked row lets nobody in, whatever the state of the connection.\<close>

lemma revoked_refused:
  assumes "db_wf (conn_db c)" and "k \<in> set (keys (conn_db c))" and "k_revoked_at k \<noteq> None" and "sha tok = k_key_hash k"
    and "sha tok \<notin> set (env_keys rs)" and "''jwt'' \<notin> set (auth_mode st)" and "py_lower scheme = ''bearer''"
  shows "fst (require_api_key sha rs v st now (Some (scheme, tok)) (Some c)) = Inl invalid_credentials"
proof -
  have "filter (\<lambda>r. k_key_hash r = sha tok \<and> k_revoked_at r = None) (keys (conn_db c)) = []"
    using assms(1-4) by (auto simp: db_wf_def distinct_map filter_empty_conv dest: inj_onD)
  then have "fst (resolve sha rs now tok (Some c)) = None"
    using assms(5) by (simp add: resolve_def env_validate_eq scalar_one_or_none_def Let_def)
  then show ?thesis using assms(6,7) by (auto simp: require_api_key_bearer split: prod.split option.split)
qed

subsection \<open>Properties\<close>

text \<open>C8: whoever gets in presented a bearer token that is an environment key, or the key of an unrevoked
  database row (then with that row's identity, organization and scopes), or a JWT that the validator
  accepted, for an organization of the database and with scopes of the configured group map only.\<close>

theorem authentication_sound:
  assumes "require_api_key sha rs v st now credentials sm = (Inr p, sm')"
  shows "\<exists>scheme tok. credentials = Some (scheme, tok) \<and> py_lower scheme = ''bearer'' \<and>
    (''api_key'' \<in> set (auth_mode st) \<and> sha tok \<in> set (env_keys rs) \<and> p = env_principal (sha tok) \<or>
     ''api_key'' \<in> set (auth_mode st) \<and> (\<exists>c r. sm = Some c \<and> r \<in> set (keys (conn_db c)) \<and> k_key_hash r = sha tok \<and>
        k_revoked_at r = None \<and> p = key_principal (sha tok) r) \<or>
     ''jwt'' \<in> set (auth_mode st) \<and> (\<exists>validate cl c org. v = Some validate \<and> validate tok = Some cl \<and> sm' = Some c \<and>
        org \<in> set (organizations (conn_db c)) \<and> p_org_id p = Some (o_id org) \<and> p_key_id p = None \<and> p_scopes p \<noteq> {} \<and>
        p_scopes p \<subseteq> ran (map_of (parse_jwt_group_scope_map (jwt_group_scope_map st) []))))"
proof -
  from assms obtain scheme tok where c: "credentials = Some (scheme, tok)" and b: "py_lower scheme = ''bearer''"
    by (auto simp: require_api_key_def split: option.splits if_splits)
  note q = assms [unfolded c require_api_key_bearer [OF b]]
  show ?thesis
  proof (cases "''api_key'' \<in> set (auth_mode st) \<and> fst (resolve sha rs now tok sm) \<noteq> None")
    case True
    then obtain p1 sm1 where r: "resolve sha rs now tok sm = (Some p1, sm1)" by (cases "resolve sha rs now tok sm") auto
    with q True have "p1 = p" by simp
    note s = resolve_sound [OF r, unfolded this]
    show ?thesis by (rule exI [of _ scheme], rule exI [of _ tok]) (use s True c b in satx)
  next
    case False
    then have "fst (if ''api_key'' \<in> set (auth_mode st) then resolve sha rs now tok sm else (None, sm)) = None" by auto
    moreover obtain x sm1 where e: "(if ''api_key'' \<in> set (auth_mode st) then resolve sha rs now tok sm else (None, sm)) = (x, sm1)"
      by fastforce
    ultimately have "(if ''api_key'' \<in> set (auth_mode st) then resolve sha rs now tok sm else (None, sm)) = (None, sm1)" by simp
    with q obtain cl where "''jwt'' \<in> set (auth_mode st)" and v: "Option.bind v (\<lambda>validate. validate tok) = Some cl"
      and "build_jwt_principal sha st cl sm' = Inr p"
      by (auto split: option.splits if_splits)
    moreover from v obtain validate where "v = Some validate" "validate tok = Some cl" by (cases v) auto
    ultimately show ?thesis using jwt_principal_sound [of sha st cl sm' p] c b by blast
  qed
qed

text \<open>A database with one organization, one active key and one revoked key; the hash is string reversal.\<close>

definition sample_key :: api_key where
  "sample_key = \<lparr>k_id = ''k1'', k_org_id = ''o1'', k_prefix = ''sk-'', k_key_hash = ''1-ks'', k_name = ''n'',
     k_scopes = ''chat,admin'', k_created_by = None, k_created_at = 0, k_last_used_at = Some 5, k_revoked_at = None\<rparr>"

definition sample_db :: database where
  "sample_db = empty_db\<lparr>organizations := [\<lparr>o_id = ''o1'', o_name = ''acme'', o_created_at = 0\<rparr>],
     keys := [sample_key, sample_key\<lparr>k_id := ''k2'', k_key_hash := ''2-ks'', k_revoked_at := Some 9\<rparr>]\<rparr>"

definition sample_conn :: connection where
  "sample_conn = \<lparr>conn_db = sample_db, read_ok = True, write_ok = True\<rparr>"

definition sample_resolver :: resolver where
  "sample_resolver = \<lparr>env_keys = [''vne''], last_used_interval = 60\<rparr>"

theorem authentication_sound_witness:
  "\<exists>c r. Some sample_conn = Some c \<and> r \<in> set (keys (conn_db c)) \<and> k_key_hash r = rev ''sk-1'' \<and> k_revoked_at r = None"
proof -
  have "require_api_key rev sample_resolver None default_settings 9 (Some (''Bearer'', ''sk-1'')) (Some sample_conn) =
      (Inr (key_principal ''1-ks'' sample_key), Some sample_conn)" by code_simp
  from authentication_sound [OF this] show ?thesis by (auto simp: sample_resolver_def)
qed

text \<open>An unrevoked key gets its row's principal, and the request changes nothing in the database but that row's
  time of last use, which it writes only when the configured interval has passed since the last write.\<close>

theorem active_key_accepted:
  assumes "db_wf (conn_db c)" and "read_ok c" and "write_ok c" and "''api_key'' \<in> set (auth_mode st)"
    and "py_lower scheme = ''bearer''" and "r \<in> set (keys (conn_db c))" and "k_key_hash r = sha tok"
    and "k_revoked_at r = None"
  shows "require_api_key sha rs v st now (Some (scheme, tok)) (Some c) =
    (Inr \<lparr>p_hash = sha tok, p_key_id = Some (k_id r), p_org_id = Some (k_org_id r), p_scopes = parse_scopes (Some (k_scopes r))\<rparr>,
     Some (if last_used_interval rs = 0 \<or> k_last_used_at r = None \<or> the (k_last_used_at r) \<le> now - last_used_interval rs * 1000000
           then c\<lparr>conn_db := (conn_db c)\<lparr>keys := map (\<lambda>x. if x = r then r\<lparr>k_last_used_at := Some now\<rparr> else x) (keys (conn_db c))\<rparr>\<rparr>
           else c))"
proof -
  have same: "k_id x = k_id r \<longleftrightarrow> x = r" if "x \<in> set (keys (conn_db c))" for x
    using assms(1,6) that by (auto simp: db_wf_def distinct_map dest: inj_onD)
  have "active_key (sha tok) (conn_db c) = Some r" using assms(1,6-8) by (rule active_key_unique)
  moreover have "update_key (k_id r) (k_last_used_at_update (\<lambda>_. Some now)) (conn_db c) =
      (conn_db c)\<lparr>keys := map (\<lambda>x. if x = r then r\<lparr>k_last_used_at := Some now\<rparr> else x) (keys (conn_db c))\<rparr>"
    using same by (simp add: update_key_def cong: map_cong)
  moreover have "should_update_last_used (last_used_interval rs) (k_last_used_at r) now \<longleftrightarrow>
      last_used_interval rs = 0 \<or> k_last_used_at r = None \<or> the (k_last_used_at r) \<le> now - last_used_interval rs * 1000000"
    by (auto simp: should_update_last_used_def split: option.split)
  ultimately show ?thesis
    using assms(2-5) resolve_db [OF assms(1,2)] by (simp add: require_api_key_bearer key_principal_def)
qed

theorem active_key_accepted_witness:
  "fst (require_api_key rev sample_resolver None default_settings 9 (Some (''Bearer'', ''sk-1'')) (Some sample_conn)) =
   Inr \<lparr>p_hash = ''1-ks'', p_key_id = Some ''k1'', p_org_id = Some ''o1'', p_scopes = parse_scopes (Some ''chat,admin'')\<rparr>"
proof -
  have "db_wf (conn_db sample_conn)" "read_ok sample_conn" "write_ok sample_conn" "''api_key'' \<in> set (auth_mode default_settings)"
    "py_lower ''Bearer'' = ''bearer''" "sample_key \<in> set (keys (conn_db sample_conn))" "k_key_hash sample_key = rev ''sk-1''"
    "k_revoked_at sample_key = None" by code_simp+
  from active_key_accepted [where sha = rev and rs = sample_resolver and v = None and now = 9, OF this] show ?thesis by (simp add: sample_key_def)
qed

text \<open>A request that is not authenticated is answered with 401; only a JWT request whose database lookup fails
  gets an internal error instead.\<close>

theorem auth_failure_status:
  assumes "require_api_key sha rs v st now credentials sm = (Inl e, sm')"
  shows "er_status (handle_exc e) = 401 \<or> e = OtherExc \<and> ''jwt'' \<in> set (auth_mode st) \<and> (\<exists>c. sm' = Some c \<and> \<not> read_ok c)"
proof (cases "\<exists>scheme tok. credentials = Some (scheme, tok) \<and> py_lower scheme = ''bearer''")
  case False
  with assms have "e = ApiExc (plain_error AuthenticationError ''Missing bearer token'')"
    by (auto simp: require_api_key_def split: option.splits if_splits)
  then show ?thesis by (simp add: handle_api_status)
next
  case True
  then obtain scheme tok where c: "credentials = Some (scheme, tok)" and b: "py_lower scheme = ''bearer''" by blast
  obtain x sm1 where "(if ''api_key'' \<in> set (auth_mode st) then resolve sha rs now tok sm else (None, sm)) = (x, sm1)"
    by fastforce
  with assms have "e = invalid_credentials \<or> ''jwt'' \<in> set (auth_mode st) \<and> (\<exists>cl. build_jwt_principal sha st cl sm' = Inl e)"
    unfolding c require_api_key_bearer [OF b] by (auto split: option.splits if_splits)
  moreover have "e = invalid_credentials \<or> e = OtherExc \<and> (\<exists>c. sm' = Some c \<and> \<not> read_ok c)"
    if "build_jwt_principal sha st cl sm' = Inl e" for cl
    using that by (auto simp: build_jwt_principal_def Let_def split: option.splits if_splits)
  moreover have "er_status (handle_exc invalid_credentials) = 401" by (simp add: invalid_credentials_def handle_api_status)
  ultimately show ?thesis by metis
qed

theorem auth_failure_status_witness:
  "er_status (handle_exc invalid_credentials) = 401"
proof -
  have "require_api_key rev sample_resolver None default_settings 9 (Some (''Bearer'', ''sk-2'')) (Some sample_conn) =
      (Inl invalid_credentials, Some sample_conn)" by code_simp
  from auth_failure_status [OF this] show ?thesis by (simp add: sample_conn_def)
qed

end
