(* ===== verification/Pricing.thy ===== *)
theory Pricing
  imports Complex_Main Prelude
begin

text \<open>
  \<open>app/pricing.py\<close> over the arithmetic of \<open>decimal\<close>: a number is a coefficient and a power of ten, the results of
  the operations are rounded half-even to the 28 digits of the default context, and a division that comes out
  even keeps as few digits as its ideal exponent allows. The exponent limits of the context (a million) are not
  reached and not modelled; nor are the special values.
\<close>

subsection \<open>Decimal arithmetic\<close>

datatype decimal = Dec int int   \<comment> \<open>coefficient and exponent\<close>

definition dec_prec :: nat where
  "dec_prec = 28"

definition pow10 :: "int \<Rightarrow> rat" where
  "pow10 e = (if 0 \<le> e then 10 ^ nat e else 1 / 10 ^ nat (- e))"

fun dec_val :: "decimal \<Rightarrow> rat" where
  "dec_val (Dec c e) = of_int c * pow10 e"

definition dec_digits :: "int \<Rightarrow> nat" where
  "dec_digits c = length (dec_str \<bar>c\<bar>)"

text \<open>Half-even rounding of \<open>n / 10 ^ k\<close> for a non-negative \<open>n\<close>.\<close>

definition round_digits :: "nat \<Rightarrow> int \<Rightarrow> int" where
  "round_digits k n =
     (let q = n div 10 ^ k; r = 2 * (n mod 10 ^ k) in
      if r > 10 ^ k \<or> (r = 10 ^ k \<and> odd q) then q + 1 else q)"

definition dec_fix :: "decimal \<Rightarrow> decimal" where
  "dec_fix d =
     (case d of Dec c e \<Rightarrow>
        if \<bar>c\<bar> < 10 ^ dec_prec then d
        else let k = dec_digits c - dec_prec; m = round_digits k \<bar>c\<bar> in
          if m = 10 ^ dec_prec then Dec (sgn c * 10 ^ (dec_prec - 1)) (e + int k + 1)
          else Dec (sgn c * m) (e + int k))"

fun dec_mult :: "decimal \<Rightarrow> decimal \<Rightarrow> decimal" where
  "dec_mult (Dec a e) (Dec b f) = dec_fix (Dec (a * b) (e + f))"

fun dec_add :: "decimal \<Rightarrow> decimal \<Rightarrow> decimal" where
  "dec_add (Dec a e) (Dec b f) =
     dec_fix (Dec (a * 10 ^ nat (e - min e f) + b * 10 ^ nat (f - min e f)) (min e f))"

text \<open>The loop that drops trailing zeros towards the ideal exponent.\<close>

function strip_zeros :: "int \<Rightarrow> int \<Rightarrow> int \<Rightarrow> int \<times> int" where
  "strip_zeros c e ideal =
     (if e < ideal \<and> c mod 10 = 0 then strip_zeros (c div 10) (e + 1) ideal else (c, e))"
  by pat_completeness auto
termination by (relation "measure (\<lambda>(c, e, ideal). nat (ideal - e))") auto

declare strip_zeros.simps [simp del]

fun dec_div :: "decimal \<Rightarrow> decimal \<Rightarrow> py_error + decimal" where
  "dec_div (Dec a e) (Dec b f) =
     (if b = 0 then Inl ZeroDivisionError
      else if a = 0 then Inr (dec_fix (Dec 0 (e - f)))
      else
        let shift = int (dec_digits b) - int (dec_digits a) + int dec_prec + 1;
            num = \<bar>a\<bar> * 10 ^ nat shift; den = \<bar>b\<bar> * 10 ^ nat (- shift);
            q = num div den; x = e - f - shift;
            (c, y) = (if num mod den \<noteq> 0 then (if q mod 5 = 0 then q + 1 else q, x) else strip_zeros q x (e - f))
        in Inr (dec_fix (Dec (sgn a * sgn b * c) y)))"

text \<open>\<open>quantize\<close> and the built-in \<open>round\<close> take halves to even.\<close>

definition round_half_even :: "rat \<Rightarrow> int" where
  "round_half_even x =
     (let f = \<lfloor>x\<rfloor>; d = x - of_int f in
      if d < 1 / 2 then f else if d > 1 / 2 then f + 1 else if even f then f else f + 1)"

subsection \<open>The price list\<close>

definition MODEL_PRICING_USD_PER_1M :: "(string, decimal \<times> decimal) dict" where
  "MODEL_PRICING_USD_PER_1M = [
     (''gpt-4o'', (Dec 250 (-2), Dec 1000 (-2))),
     (''gpt-4o-mini'', (Dec 15 (-2), Dec 60 (-2))),
     (''claude-sonnet-4-6'', (Dec 300 (-2), Dec 1500 (-2))),
     (''claude-3-5-haiku-latest'', (Dec 80 (-2), Dec 400 (-2)))]"

definition model_price :: "string option \<Rightarrow> (decimal \<times> decimal) option" where
  "model_price model =
     (case model of None \<Rightarrow> None | Some m \<Rightarrow> if m = [] then None else map_of MODEL_PRICING_USD_PER_1M m)"

text \<open>\<open>calculate_cost\<close>, with the module's set of models already warned about.\<close>

definition calculate_cost :: "string option \<Rightarrow> int \<Rightarrow> int \<Rightarrow> string option set \<Rightarrow> (py_error + decimal) \<times> string option set" where
  "calculate_cost model prompt_tokens completion_tokens warned =
     (case model_price model of
        None \<Rightarrow> (Inr (Dec 0 0), if model \<in> warned then warned else insert model warned)
      | Some (input_price, output_price) \<Rightarrow>
          (dec_div (dec_add (dec_mult (Dec prompt_tokens 0) input_price) (dec_mult (Dec completion_tokens 0) output_price))
             (Dec 1000000 0), warned))"

subsection \<open>Text form\<close>

text \<open>\<open>str(Decimal)\<close>.\<close>

definition signed_str :: "int \<Rightarrow> string" where
  "signed_str n = (if n < 0 then ''-'' else ''+'') @ dec_str \<bar>n\<bar>"

fun dec_to_str :: "decimal \<Rightarrow> string" where
  "dec_to_str (Dec c e) =
     (let ds = dec_str \<bar>c\<bar>; leftdigits = e + int (length ds);
          dotplace = (if e \<le> 0 \<and> leftdigits > -6 then leftdigits else 1);
          (intpart, fracpart) =
            (if dotplace \<le> 0 then (''0'', ''.'' @ replicate (nat (- dotplace)) (CHR ''0'') @ ds)
             else if int (length ds) \<le> dotplace then (ds @ replicate (nat (dotplace - int (length ds))) (CHR ''0''), [])
             else (take (nat dotplace) ds, ''.'' @ drop (nat dotplace) ds));
          expo = (if leftdigits = dotplace then [] else ''E'' @ signed_str (leftdigits - dotplace))
      in (if c < 0 then ''-'' else []) @ intpart @ fracpart @ expo)"

text \<open>\<open>Decimal(str)\<close>: \<open>None\<close> is \<open>InvalidOperation\<close>.\<close>

definition split_sign :: "string \<Rightarrow> bool \<times> string" where
  "split_sign s = (case s of c # cs \<Rightarrow> if c = CHR ''-'' then (True, cs) else if c = CHR ''+'' then (False, cs) else (False, s) | [] \<Rightarrow> (False, []))"

definition signed_int :: "string \<Rightarrow> int option" where
  "signed_int s = (let (neg, ds) = split_sign s in map_option (\<lambda>n. if neg then - int n else int n) (py_int_digits ds))"

definition split_point :: "string \<Rightarrow> string \<times> string" where
  "split_point s = (case s of c # cs \<Rightarrow> if c = CHR ''.'' then (takeWhile py_isdecimal cs, dropWhile py_isdecimal cs) else ([], s) | [] \<Rightarrow> ([], []))"

definition dec_exponent :: "string \<Rightarrow> int option" where
  "dec_exponent s = (case s of [] \<Rightarrow> Some 0 | c # cs \<Rightarrow> if c = CHR ''e'' \<or> c = CHR ''E'' then signed_int cs else None)"

definition decimal_from_string :: "string \<Rightarrow> decimal option" where
  "decimal_from_string value =
     (let s = filter (\<lambda>c. c \<noteq> CHR ''_'') (py_strip value);
          (neg, body) = split_sign s;
          ip = takeWhile py_isdecimal body;
          (fp, rest) = split_point (dropWhile py_isdecimal body)
      in if ip = [] \<and> fp = [] then None
         else case dec_exponent rest of
           None \<Rightarrow> None
         | Some x \<Rightarrow> let n = int (digits_val (ip @ fp)) in Some (Dec (if neg then - n else n) (x - int (length fp))))"

subsection \<open>Reading undoes printing\<close>

declare dec_to_str.simps [simp del]

lemma takeWhile_digits: "list_all py_isdecimal a \<Longrightarrow> b = [] \<or> \<not> py_isdecimal (hd b) \<Longrightarrow>
    takeWhile py_isdecimal (a @ b) = a \<and> dropWhile py_isdecimal (a @ b) = b"
  by (induction a) (cases b; auto)+

lemma signed_int_str: "signed_int (signed_str n) = Some n"
  by (auto simp: signed_int_def signed_str_def split_sign_def dec_str_nonneg py_int_nat_str)

text \<open>What the scanner makes of a mantissa and an exponent that are written out.\<close>

lemma decimal_scan:
  assumes "list_all py_isdecimal ip" "list_all py_isdecimal fp" "ip \<noteq> []"
    and "expo = [] \<and> x = 0 \<or> (\<exists>t. expo = CHR ''E'' # t \<and> signed_int t = Some x)"
    and "\<not> py_isspace (last (ip @ (if fp = [] then [] else CHR ''.'' # fp) @ expo))" and "CHR ''_'' \<notin> set expo"
  shows "decimal_from_string ((if neg then ''-'' else []) @ ip @ (if fp = [] then [] else CHR ''.'' # fp) @ expo) =
    Some (Dec (if neg then - int (digits_val (ip @ fp)) else int (digits_val (ip @ fp))) (x - int (length fp)))"
proof -
  let ?b = "ip @ (if fp = [] then [] else CHR ''.'' # fp) @ expo" and ?m = "if neg then ''-'' else []"
  have d: "py_isdecimal c \<Longrightarrow> \<not> py_isspace c \<and> c \<noteq> CHR ''_'' \<and> c \<noteq> CHR ''-'' \<and> c \<noteq> CHR ''+''" for c
    by (auto simp: py_isdecimal_def py_isspace_def)
  obtain i ip' where ip: "ip = i # ip'" using assms(3) by (cases ip) auto
  have "py_strip (?m @ ?b) = ?m @ ?b"
    by (rule py_strip_id) (use assms(1,3,5) d ip in \<open>auto simp: py_isspace_def\<close>)
  moreover have "filter (\<lambda>c. c \<noteq> CHR ''_'') (?m @ ?b) = ?m @ ?b"
    using assms(1,2,6) d by (intro filter_True) (auto simp: list_all_iff split: if_splits)
  ultimately have s: "filter (\<lambda>c. c \<noteq> CHR ''_'') (py_strip (?m @ ?b)) = ?m @ ?b" by simp
  have g: "split_sign (?m @ ?b) = (neg, ?b)" using ip assms(1) d [of i] by (auto simp: split_sign_def)
  have e: "expo = [] \<or> \<not> py_isdecimal (hd expo)" and e': "expo = [] \<or> hd expo \<noteq> CHR ''.''"
    using assms(4) by (auto simp: py_isdecimal_def)
  have t: "takeWhile py_isdecimal ?b = ip" "dropWhile py_isdecimal ?b = (if fp = [] then [] else CHR ''.'' # fp) @ expo"
    using takeWhile_digits [OF assms(1), of "(if fp = [] then [] else CHR ''.'' # fp) @ expo"] e by (auto simp: py_isdecimal_def)
  have p: "split_point ((if fp = [] then [] else CHR ''.'' # fp) @ expo) = (fp, expo)"
    using takeWhile_digits [OF assms(2) e] e' by (auto simp: split_point_def split: list.splits)
  have "dec_exponent expo = Some x" using assms(4) by (auto simp: dec_exponent_def)
  then show ?thesis unfolding decimal_from_string_def Let_def s g prod.case t p using ip by simp
qed

lemma digits_last: "list_all py_isdecimal a \<Longrightarrow> a \<noteq> [] \<Longrightarrow> \<not> py_isspace (last (b @ a))"
  by (auto simp: list_all_iff py_isdecimal_def py_isspace_def dest!: last_in_set)

lemma dec_str_digits: "list_all py_isdecimal (dec_str \<bar>c\<bar>)"
  by (auto simp: dec_str_nonneg list_all_iff intro: nat_str_decimal)

text \<open>The scientific form.\<close>

lemma decimal_roundtrip_sci:
  assumes "ds = dec_str \<bar>c\<bar>" and "left = e + int (length ds)" and "\<not> (e \<le> 0 \<and> left > -6)"
  shows "decimal_from_string (dec_to_str (Dec c e)) = Some (Dec c e)"
proof -
  have ds: "list_all py_isdecimal ds" "ds \<noteq> []" "digits_val ds = nat \<bar>c\<bar>"
    using dec_str_digits by (simp_all add: assms(1) dec_str_nonneg)
  have tk: "list_all py_isdecimal (take n ds)" "list_all py_isdecimal (drop n ds)" for n
    using ds(1) by (auto simp: list_all_iff dest: in_set_takeD in_set_dropD)
  have l: "1 \<le> length ds" using ds(2) by (simp add: Suc_leI)
  then have n1: "left \<noteq> 1" using assms(2,3) by auto
  let ?x = "CHR ''E'' # signed_str (left - 1)"
  have sx: "CHR ''_'' \<notin> set ?x" "\<not> py_isspace (last (b @ ?x))" for b
    using digits_last [OF dec_str_digits [of "left - 1"]] dec_str_digits [of "left - 1"]
    by (auto simp: signed_str_def list_all_iff dec_str_nonneg) (auto simp: py_isdecimal_def)
  have "dec_to_str (Dec c e) = (if c < 0 then ''-'' else []) @ take 1 ds @ (if drop 1 ds = [] then [] else CHR ''.'' # drop 1 ds) @ ?x"
    unfolding dec_to_str.simps Let_def assms(1) [symmetric] assms(2) [symmetric] using assms(3) n1 l by (cases ds) auto
  moreover have "take 1 ds \<noteq> []" using ds(2) by simp
  moreover have "int (length (drop 1 ds)) = int (length ds) - 1" using l by simp
  ultimately show ?thesis
    using decimal_scan [of "take 1 ds" "drop 1 ds" ?x "left - 1" "c < 0"] tk sx signed_int_str ds(3) assms(2) by simp
qed

lemma decimal_roundtrip: "decimal_from_string (dec_to_str d) = Some d"
proof (cases d)
  case (Dec c e)
  define ds where "ds = dec_str \<bar>c\<bar>"
  have ds: "list_all py_isdecimal ds" "ds \<noteq> []" "digits_val ds = nat \<bar>c\<bar>"
    using dec_str_digits by (simp_all add: ds_def dec_str_nonneg)
  have tk: "list_all py_isdecimal (take n ds)" "list_all py_isdecimal (drop n ds)" for n
    using ds(1) by (auto simp: list_all_iff dest: in_set_takeD in_set_dropD)
  have z: "py_isdecimal (CHR ''0'')" by (simp add: py_isdecimal_def)
  define left where "left = e + int (length ds)"
  consider (frac) "e \<le> 0" "left > -6" "left \<le> 0" | (mid) "e \<le> 0" "0 < left" | (sci) "\<not> (e \<le> 0 \<and> left > -6)" by linarith
  then show ?thesis
  proof cases
    case frac
    let ?fp = "replicate (nat (- left)) (CHR ''0'') @ ds"
    have "dec_to_str d = (if c < 0 then ''-'' else []) @ ''0'' @ (CHR ''.'' # ?fp) @ []"
      unfolding Dec dec_to_str.simps Let_def ds_def [symmetric] left_def [symmetric] using frac by simp
    moreover have dv: "digits_val (''0'' @ ?fp) = nat \<bar>c\<bar>"
      using digits_val_zeros [of "Suc (nat (- left))" ds] ds(3) by simp
    moreover have "list_all py_isdecimal ?fp" "?fp \<noteq> []" using ds z by (auto simp: list_all_iff)
    moreover from this have "\<not> py_isspace (last (''0'' @ (CHR ''.'' # ?fp) @ []))" using digits_last [of ?fp "''0.''"] by simp
    ultimately show ?thesis
      using decimal_scan [of "''0''" ?fp "[]" 0 "c < 0"] z Dec frac ds(2) by (simp only: dv) (simp add: left_def)
  next
    case mid
    show ?thesis
    proof (cases "e = 0")
      case True
      then have "dec_to_str d = (if c < 0 then ''-'' else []) @ ds @ [] @ []"
        unfolding Dec dec_to_str.simps Let_def ds_def [symmetric] left_def [symmetric] using mid by (simp add: left_def)
      then show ?thesis using decimal_scan [of ds "[]" "[]" 0 "c < 0"] digits_last [of ds "[]"] ds Dec True by simp
    next
      case False
      let ?k = "nat left"
      have k: "0 < ?k" "?k < length ds" "int (length (drop ?k ds)) = - e" using mid False by (auto simp: left_def)
      then have "drop ?k ds \<noteq> []" "take ?k ds \<noteq> []" by auto
      moreover have "dec_to_str d = (if c < 0 then ''-'' else []) @ take ?k ds @ (CHR ''.'' # drop ?k ds) @ []"
        unfolding Dec dec_to_str.simps Let_def ds_def [symmetric] left_def [symmetric]
        using mid(1,2) k(2) by (simp add: nat_less_iff)
      ultimately show ?thesis
        using decimal_scan [of "take ?k ds" "drop ?k ds" "[]" 0 "c < 0"] digits_last [of "drop ?k ds" "take ?k ds @ ''.''"] tk ds(3) k Dec by simp
    qed
  next
    case sci
    then show ?thesis using decimal_roundtrip_sci [OF ds_def left_def] Dec by simp
  qed
qed

subsection \<open>Exactness\<close>

lemma pow10_powi: "pow10 e = 10 powi e"
  by (cases e rule: int_cases2) (simp_all add: pow10_def power_int_minus inverse_eq_divide flip: power_one_over)

lemma pow10_add: "pow10 (a + b) = pow10 a * pow10 b"
  by (simp add: pow10_powi power_int_add)

lemma pow10_nat: "pow10 (int n) = 10 ^ n"
  by (simp add: pow10_def)

lemma dec_digits_le: "dec_digits c \<le> n \<longleftrightarrow> \<bar>c\<bar> < 10 ^ n \<and> 0 < n"
proof -
  have "nat \<bar>c\<bar> < 10 ^ n \<longleftrightarrow> \<bar>c\<bar> < 10 ^ n" by (simp add: nat_less_iff)
  then show ?thesis by (simp add: dec_digits_def dec_str_nonneg nat_str_length)
qed

lemma dec_fix_id: "\<bar>c\<bar> < 10 ^ 28 \<Longrightarrow> dec_fix (Dec c e) = Dec c e"
  by (simp add: dec_fix_def dec_prec_def)

lemma strip_zeros_val: "of_int (fst (strip_zeros c e i)) * pow10 (snd (strip_zeros c e i)) = of_int c * pow10 e"
proof (induction c e i rule: strip_zeros.induct)
  case (1 c e i)
  show ?case
  proof (cases "e < i \<and> c mod 10 = 0")
    case True
    then have "of_int c = (10 :: rat) * of_int (c div 10)"
      by (metis dvd_div_mult_self mod_eq_0_iff_dvd mult.commute of_int_mult of_int_numeral)
    then have "of_int c * pow10 e = of_int (c div 10) * pow10 (e + 1)"
      using pow10_nat [of 1] by (simp add: pow10_add)
    with 1 True show ?thesis by (simp add: strip_zeros.simps [of c])
  next
    case False
    then show ?thesis by (subst (1 2) strip_zeros.simps) auto
  qed
qed

lemma strip_zeros_le: "0 \<le> c \<Longrightarrow> 0 \<le> fst (strip_zeros c e i) \<and> fst (strip_zeros c e i) \<le> c"
proof (induction c e i rule: strip_zeros.induct)
  case (1 c e i)
  show ?case
  proof (cases "e < i \<and> c mod 10 = 0")
    case True
    have "0 \<le> c div 10" "c div 10 \<le> c" using 1(2) by auto
    with 1(1) True show ?thesis by (auto simp: strip_zeros.simps [of c])
  next
    case False
    then show ?thesis using 1 by (subst (1 2) strip_zeros.simps) auto
  qed
qed

lemma strip_zeros_bound: "0 \<le> m \<Longrightarrow> e + int k \<le> i \<Longrightarrow> fst (strip_zeros (m * 10 ^ k) e i) \<le> m"
proof (induction k arbitrary: e)
  case 0 then show ?case using strip_zeros_le by simp
next
  case (Suc k)
  have "strip_zeros (m * 10 ^ Suc k) e i = strip_zeros (m * 10 ^ k) (e + 1) i"
    using Suc.prems by (subst strip_zeros.simps) (simp add: algebra_simps)
  with Suc show ?case by simp
qed

lemma dec_div_million:
  assumes "0 \<le> a" and "a < 10 ^ 23"
  shows "\<exists>d. dec_div (Dec a e) (Dec 1000000 0) = Inr d \<and> dec_val d = of_int a * pow10 e / 1000000"
proof (cases "a = 0")
  case True
  then show ?thesis by (simp add: dec_fix_id)
next
  case False
  define L where "L = dec_digits a"
  have L: "L \<le> 23" using assms by (simp add: L_def dec_digits_le)
  have m: "dec_digits 1000000 = 7" by code_simp
  let ?c = "fst (strip_zeros (a * 10 ^ (30 - L)) (e - int (36 - L)) e)"
  let ?y = "snd (strip_zeros (a * 10 ^ (30 - L)) (e - int (36 - L)) e)"
  have sh: "int (dec_digits 1000000) - int (dec_digits a) + int dec_prec + 1 = int (36 - L)"
    using L m by (simp add: L_def dec_prec_def)
  have "(10::int) ^ (36 - L) = 10 ^ (30 - L) * 10 ^ 6" using L by (subst power_add [symmetric]) simp
  then have q: "a * 10 ^ (36 - L) = a * 10 ^ (30 - L) * 1000000" by simp
  have c: "0 \<le> ?c" "?c \<le> a" using strip_zeros_le [of "a * 10 ^ (30 - L)"] strip_zeros_bound [of a "e - int (36 - L)" "30 - L" e] assms L by auto
  then have "\<bar>?c\<bar> < 10 ^ 28" using assms(2) by simp
  then have "dec_div (Dec a e) (Dec 1000000 0) = Inr (Dec ?c ?y)"
    using False assms(1) unfolding dec_div.simps sh
    by (auto simp: q dec_fix_id sgn_if split: prod.splits)
  moreover have "dec_val (Dec ?c ?y) = of_int a * pow10 e / 1000000"
  proof -
    have "dec_val (Dec ?c ?y) = of_int a * (10 ^ (30 - L) * pow10 (e - int (36 - L)))"
      by (simp add: strip_zeros_val)
    also have "10 ^ (30 - L) * pow10 (e - int (36 - L)) = pow10 (int (30 - L) + (e - int (36 - L)))"
      by (simp only: pow10_add pow10_nat)
    also have "int (30 - L) + (e - int (36 - L)) = e + (- 6)" using L by simp
    finally show ?thesis by (simp only: pow10_add) (simp add: pow10_def)
  qed
  ultimately show ?thesis by blast
qed

lemma model_price_bounds:
  "model_price model = Some (i, k) \<Longrightarrow> \<exists>a b. i = Dec a (-2) \<and> k = Dec b (-2) \<and> 0 < a \<and> a \<le> b \<and> b \<le> 1500"
  by (auto simp: model_price_def MODEL_PRICING_USD_PER_1M_def split: option.splits if_splits)

text \<open>C31: the cost of a request is exactly its tokens times the listed prices per million, with no rounding at all, for
  token counts below \<open>10 ^ 18\<close>; a model without a price costs nothing.\<close>

theorem calculate_cost_exact:
  assumes "0 \<le> p" and "p < 10 ^ 18" and "0 \<le> c" and "c < 10 ^ 18"
  shows "\<exists>d. fst (calculate_cost model p c warned) = Inr d \<and>
    dec_val d = (case model_price model of None \<Rightarrow> 0 | Some (i, k) \<Rightarrow> (of_int p * dec_val i + of_int c * dec_val k) / 1000000)"
proof (cases "model_price model")
  case None
  then show ?thesis by (simp add: calculate_cost_def)
next
  case (Some x)
  then obtain a b where x: "x = (Dec a (-2), Dec b (-2))" and ab: "0 < a" "a \<le> b" "b \<le> 1500"
    using model_price_bounds by (cases x) blast
  have pa: "0 \<le> p * a" "p * a \<le> 10 ^ 18 * 1500" using assms ab mult_mono [of p "10 ^ 18" a 1500] by auto
  have cb: "0 \<le> c * b" "c * b \<le> 10 ^ 18 * 1500" using assms ab mult_mono [of c "10 ^ 18" b 1500] by auto
  have "dec_add (dec_mult (Dec p 0) (Dec a (-2))) (dec_mult (Dec c 0) (Dec b (-2))) = Dec (p * a + c * b) (-2)"
    using pa cb by (simp add: dec_fix_id)
  moreover obtain d where "dec_div (Dec (p * a + c * b) (-2)) (Dec 1000000 0) = Inr d" "dec_val d = of_int (p * a + c * b) * pow10 (-2) / 1000000"
    using dec_div_million [of "p * a + c * b" "-2"] pa cb by auto
  ultimately show ?thesis using Some x by (simp add: calculate_cost_def algebra_simps add_divide_distrib)
qed

theorem calculate_cost_exact_witness:
  "\<exists>d. fst (calculate_cost (Some ''gpt-4o'') 1000 500 {}) = Inr d \<and> dec_val d = 75 / 10000"
  using calculate_cost_exact [of 1000 500 "Some ''gpt-4o''" "{}"]
  by (simp add: model_price_def MODEL_PRICING_USD_PER_1M_def pow10_def)

text \<open>An unknown model is warned about once.\<close>

lemma warned_once:
  "model_price model = None \<Longrightarrow> model \<in> snd (calculate_cost model p c warned)"
  "model \<in> warned \<or> model_price model \<noteq> None \<Longrightarrow> snd (calculate_cost model p c warned) = warned"
  by (auto simp: calculate_cost_def split: option.splits)

end
