(* ===== verification/Admin.thy ===== *)
theory Admin
  imports Auth Pricing "HOL-Library.List_Lexorder" "HOL-Library.Char_ord"
begin

text \<open>
  \<open>app/routers/admin.py\<close>: usage reports, the audit log, organizations and API keys, with the separation of
  tenants. Random identifiers and tokens and the current time are arguments; rows with equal sort keys come
  in insertion order. FastAPI has checked the bounds of \<open>limit\<close> (1 to 500) and \<open>offset\<close> (from 0).
\<close>

subsection \<open>Dates and amounts\<close>

text \<open>A datetime as it comes in: local microseconds, with the offset from UTC when it has one.\<close>

datatype py_datetime = Naive int | Aware int int

fun as_utc :: "py_datetime \<Rightarrow> int" where
  "as_utc (Naive t) = t"
| "as_utc (Aware t offset) = t - offset"

definition pad6 :: "int \<Rightarrow> string" where
  "pad6 n = replicate (6 - length (dec_str n)) (CHR ''0'') @ dec_str n"

definition format_cost :: "rat \<Rightarrow> string" where
  "format_cost value =
     (let m = round_half_even (value * 1000000); a = \<bar>m\<bar>
      in (if m < 0 then ''-'' else []) @ dec_str (a div 1000000) @ ''.'' @ pad6 (a mod 1000000))"

subsection \<open>Requests\<close>

definition strip_name :: "string \<Rightarrow> py_error + string" where
  "strip_name value = (let v = py_strip value in if v = [] then Inl ValueError else Inr v)"

text \<open>A name field: 1 to 120 characters before it is stripped.\<close>

definition validate_name :: "string \<Rightarrow> py_error + string" where
  "validate_name value = (if 1 \<le> length value \<and> length value \<le> 120 then strip_name value else Inl ValueError)"

text \<open>The inner and the outer loop of \<open>normalize_scopes\<close>; \<open>seen\<close> is the set of the list built so far.\<close>

fun add_scopes :: "string list \<Rightarrow> string list \<Rightarrow> string list" where
  "add_scopes [] scopes = scopes"
| "add_scopes (raw # raws) scopes =
     (let scope = py_strip raw in
      add_scopes raws (if scope \<noteq> [] \<and> scope \<notin> set scopes then scopes @ [scope] else scopes))"

fun collect_scopes :: "string list \<Rightarrow> string list \<Rightarrow> string list" where
  "collect_scopes [] scopes = scopes"
| "collect_scopes (item # items) scopes = collect_scopes items (add_scopes (py_split (CHR '','') item) scopes)"

definition normalize_scopes :: "string list \<Rightarrow> py_error + string list" where
  "normalize_scopes value =
     (if value = [] then Inl ValueError
      else let scopes = collect_scopes value [] in if scopes = [] then Inl ValueError else Inr scopes)"

record key_request =
  kr_name :: string
  kr_scopes :: "string list"
  kr_org_id :: string

text \<open>\<open>APIKeyCreateRequest\<close>: the validated body.\<close>

definition validate_key_request :: "key_request \<Rightarrow> py_error + key_request" where
  "validate_key_request body =
     bind_res (validate_name (kr_name body)) (\<lambda>name.
     bind_res (normalize_scopes (kr_scopes body)) (\<lambda>scopes.
     Inr (body\<lparr>kr_name := name, kr_scopes := scopes\<rparr>)))"

subsection \<open>Guards\<close>

definition require_sessionmaker :: "sessionmaker \<Rightarrow> exc + connection" where
  "require_sessionmaker sm =
     (case sm of None \<Rightarrow> Inl (HttpExc 503 (Some ''Database is not initialized'') []) | Some c \<Rightarrow> Inr c)"

definition require_super_admin :: "api_key_principal \<Rightarrow> exc + unit" where
  "require_super_admin p =
     (if is_super_admin p then Inr () else Inl (HttpExc 403 (Some ''super_admin scope is required'') []))"

definition principal_org_id :: "api_key_principal \<Rightarrow> exc + string" where
  "principal_org_id p =
     (case p_org_id p of None \<Rightarrow> Inl (HttpExc 403 (Some ''Admin principal is not org-scoped'') []) | Some i \<Rightarrow> Inr i)"

text \<open>The organization a query is restricted to, \<open>None\<close> for a super admin.\<close>

definition org_scope :: "api_key_principal \<Rightarrow> exc + string option" where
  "org_scope p = (if is_super_admin p then Inr None else bind_res (principal_org_id p) (\<lambda>i. Inr (Some i)))"

definition read_rows :: "connection \<Rightarrow> (database \<Rightarrow> 'a) \<Rightarrow> exc + 'a" where
  "read_rows c q = (if read_ok c then Inr (q (conn_db c)) else Inl OtherExc)"

definition split_scopes :: "string option \<Rightarrow> string list" where
  "split_scopes value = csv_items (case value of None \<Rightarrow> [] | Some v \<Rightarrow> v)"

subsection \<open>Usage\<close>

datatype group_by = ByKey | ByModel | ByOrg

record usage_group =
  ug_key :: string
  ug_total_tokens :: int
  ug_prompt_tokens :: int
  ug_completion_tokens :: int
  ug_cost_usd :: string
  ug_request_count :: int
  ug_error_count :: int

record usage_response =
  ur_groups :: "usage_group list"
  ur_since :: int
  ur_until :: int
  ur_group_by :: group_by

definition coalesce :: "string option list \<Rightarrow> string" where
  "coalesce xs = (case List.map_filter id xs of [] \<Rightarrow> ''unknown'' | x # _ \<Rightarrow> x)"

definition group_expr :: "group_by \<Rightarrow> audit_log \<Rightarrow> string" where
  "group_expr g r =
     (case g of
        ByKey \<Rightarrow> coalesce [a_api_key_id r, a_principal_hash r]
      | ByModel \<Rightarrow> coalesce [a_model r]
      | ByOrg \<Rightarrow> coalesce [a_org_id r])"

definition usage_group_of :: "string \<Rightarrow> audit_log list \<Rightarrow> usage_group" where
  "usage_group_of k rows = \<lparr>ug_key = k,
     ug_total_tokens = sum_list (map a_total_tokens rows),
     ug_prompt_tokens = sum_list (map a_prompt_tokens rows),
     ug_completion_tokens = sum_list (map a_completion_tokens rows),
     ug_cost_usd = format_cost (sum_list (map a_cost_usd rows)),
     ug_request_count = int (length rows),
     ug_error_count = sum_list (map (\<lambda>r. if a_status_code r \<ge> 400 then 1 else 0) rows)\<rparr>"

text \<open>The \<open>GROUP BY\<close> query with its \<open>ORDER BY\<close>.\<close>

definition usage_groups :: "group_by \<Rightarrow> audit_log list \<Rightarrow> usage_group list" where
  "usage_groups g rows =
     map (\<lambda>k. usage_group_of k (filter (\<lambda>r. group_expr g r = k) rows)) (sort (remdups (map (group_expr g) rows)))"

definition in_scope :: "string option \<Rightarrow> string option \<Rightarrow> bool" where
  "in_scope scope org = (case scope of None \<Rightarrow> True | Some i \<Rightarrow> org = Some i)"

definition usage_rows :: "int \<Rightarrow> int \<Rightarrow> string option \<Rightarrow> database \<Rightarrow> audit_log list" where
  "usage_rows since until scope db =
     filter (\<lambda>r. a_ts r \<ge> since \<and> a_ts r \<le> until \<and> in_scope scope (a_org_id r)) (audit_logs db)"

definition get_usage :: "int \<Rightarrow> py_datetime option \<Rightarrow> py_datetime option \<Rightarrow> group_by \<Rightarrow> api_key_principal \<Rightarrow>
    sessionmaker \<Rightarrow> exc + usage_response" where
  "get_usage now since until g p sm =
     (let since' = (case since of None \<Rightarrow> now - 24 * 3600 * 1000000 | Some d \<Rightarrow> as_utc d);
          until' = (case until of None \<Rightarrow> now | Some d \<Rightarrow> as_utc d)
      in if since' > until' then Inl (HttpExc 400 (Some ''since must be before or equal to until'') [])
         else bind_res (require_sessionmaker sm) (\<lambda>c.
              bind_res (org_scope p) (\<lambda>scope.
              bind_res (read_rows c (usage_rows since' until' scope)) (\<lambda>rows.
              Inr \<lparr>ur_groups = usage_groups g rows, ur_since = since', ur_until = until', ur_group_by = g\<rparr>))))"

subsection \<open>Audit log\<close>

text \<open>\<open>AuditLogItem\<close> has the fields of the row, with the cost as text.\<close>

record audit_item =
  ai_row :: audit_log
  ai_cost_usd :: string

record audit_response =
  items :: "audit_item list"
  next_offset :: "nat option"

definition audit_rows :: "string option \<Rightarrow> py_datetime option \<Rightarrow> py_datetime option \<Rightarrow> string option \<Rightarrow> string option \<Rightarrow>
    database \<Rightarrow> audit_log list" where
  "audit_rows scope since until model key_id db =
     sort_key (\<lambda>r. - a_ts r) (filter (\<lambda>r. in_scope scope (a_org_id r) \<and>
       (case since of None \<Rightarrow> True | Some d \<Rightarrow> a_ts r \<ge> as_utc d) \<and>
       (case until of None \<Rightarrow> True | Some d \<Rightarrow> a_ts r \<le> as_utc d) \<and>
       (case model of None \<Rightarrow> True | Some m \<Rightarrow> a_model r = Some m) \<and>
       (case key_id of None \<Rightarrow> True | Some i \<Rightarrow> a_api_key_id r = Some i)) (audit_logs db))"

text \<open>Whether the key that a tenant asks about is missing or another tenant's.\<close>

definition foreign_key :: "string option \<Rightarrow> string option \<Rightarrow> database \<Rightarrow> bool" where
  "foreign_key scope key_id db =
     (case (key_id, scope) of
        (Some i, Some org) \<Rightarrow> (case get_key i db of None \<Rightarrow> True | Some k \<Rightarrow> k_org_id k \<noteq> org)
      | _ \<Rightarrow> False)"

definition list_audit_logs :: "nat \<Rightarrow> nat \<Rightarrow> py_datetime option \<Rightarrow> py_datetime option \<Rightarrow> string option \<Rightarrow> string option \<Rightarrow>
    api_key_principal \<Rightarrow> sessionmaker \<Rightarrow> exc + audit_response" where
  "list_audit_logs lmt offset since until model key_id p sm =
     bind_res (require_sessionmaker sm) (\<lambda>c.
     bind_res (org_scope p) (\<lambda>scope.
     bind_res (read_rows c (\<lambda>db. (foreign_key scope key_id db,
         take (lmt + 1) (drop offset (audit_rows scope since until model key_id db))))) (\<lambda>(missing, rows).
     if missing then Inl (HttpExc 404 (Some ''API key not found'') [])
     else Inr \<lparr>items = map (\<lambda>r. \<lparr>ai_row = r, ai_cost_usd = format_cost (a_cost_usd r)\<rparr>) (take lmt rows),
               next_offset = (if length rows > lmt then Some (offset + lmt) else None)\<rparr>)))"

subsection \<open>Organizations and keys\<close>

definition create_organization :: "string \<Rightarrow> int \<Rightarrow> string \<Rightarrow> api_key_principal \<Rightarrow> sessionmaker \<Rightarrow>
    (exc + organization) \<times> sessionmaker" where
  "create_organization new_id now name p sm =
     (case bind_res (require_super_admin p) (\<lambda>_. require_sessionmaker sm) of
        Inl e \<Rightarrow> (Inl e, sm)
      | Inr c \<Rightarrow>
          if \<not> write_ok c then (Inl OtherExc, sm)
          else let org = \<lparr>o_id = new_id, o_name = name, o_created_at = now\<rparr> in
            case insert_org org (conn_db c) of
              Inl _ \<Rightarrow> (Inl (HttpExc 409 (Some ''Organization already exists'') []), sm)
            | Inr db' \<Rightarrow> (Inr org, Some (c\<lparr>conn_db := db'\<rparr>)))"

record key_response =
  kc_row :: api_key
  kc_scopes :: "string list"
  kc_api_key :: string

text \<open>The organization and the scopes of the new key.\<close>

definition key_grant :: "key_request \<Rightarrow> api_key_principal \<Rightarrow> exc + (string \<times> string list)" where
  "key_grant body p =
     (if is_super_admin p then Inr (kr_org_id body, kr_scopes body)
      else bind_res (principal_org_id p) (\<lambda>org_id.
        if kr_org_id body \<noteq> org_id then Inl (HttpExc 403 (Some ''Cannot create API key for another org'') [])
        else let scopes = filter (\<lambda>s. s \<noteq> ''super_admin'') (kr_scopes body) in
          if scopes = [] then Inl (HttpExc 400 (Some ''At least one non-super_admin scope is required'') [])
          else Inr (org_id, scopes)))"

definition create_api_key :: "(string \<Rightarrow> string) \<Rightarrow> string \<Rightarrow> string \<Rightarrow> int \<Rightarrow> key_request \<Rightarrow> api_key_principal \<Rightarrow>
    sessionmaker \<Rightarrow> (exc + key_response) \<times> sessionmaker" where
  "create_api_key sha rnd new_id now body p sm =
     (let token = ''sk-'' @ rnd in
      case bind_res (require_sessionmaker sm) (\<lambda>c. bind_res (key_grant body p) (\<lambda>g.
             bind_res (read_rows c (get_org (fst g))) (\<lambda>org. Inr (c, g, org)))) of
        Inl e \<Rightarrow> (Inl e, sm)
      | Inr (c, (org_id, scopes), org) \<Rightarrow>
          if org = None then (Inl (HttpExc 404 (Some ''Organization not found'') []), sm)
          else if \<not> write_ok c then (Inl OtherExc, sm)
          else let row = \<lparr>k_id = new_id, k_org_id = org_id, k_prefix = take 12 token, k_key_hash = sha token,
                 k_name = kr_name body, k_scopes = py_join '','' scopes, k_created_by = None, k_created_at = now,
                 k_last_used_at = None, k_revoked_at = None\<rparr> in
            case insert_key row (conn_db c) of
              Inl _ \<Rightarrow> (Inl (HttpExc 409 (Some ''API key already exists'') []), sm)
            | Inr db' \<Rightarrow> (Inr \<lparr>kc_row = row, kc_scopes = scopes, kc_api_key = token\<rparr>, Some (c\<lparr>conn_db := db'\<rparr>)))"

definition revoke_api_key :: "int \<Rightarrow> string \<Rightarrow> api_key_principal \<Rightarrow> sessionmaker \<Rightarrow> (exc + (string \<times> int)) \<times> sessionmaker" where
  "revoke_api_key now key_id p sm =
     (case bind_res (require_sessionmaker sm) (\<lambda>c. bind_res (read_rows c (get_key key_id)) (\<lambda>k.
             case k of
               None \<Rightarrow> Inl (HttpExc 404 (Some ''API key not found'') [])
             | Some row \<Rightarrow>
                 if is_super_admin p then Inr c
                 else bind_res (principal_org_id p) (\<lambda>i.
                   if k_org_id row \<noteq> i then Inl (HttpExc 404 (Some ''API key not found'') []) else Inr c))) of
        Inl e \<Rightarrow> (Inl e, sm)
      | Inr c \<Rightarrow>
          if \<not> write_ok c then (Inl OtherExc, sm)
          else (Inr (key_id, now),
                Some (c\<lparr>conn_db := update_key key_id (k_revoked_at_update (\<lambda>_. Some now)) (conn_db c)\<rparr>)))"

text \<open>\<open>_key_item\<close>: the row without its hash, the scopes as a list.\<close>

record key_item =
  ki_id :: string
  ki_prefix :: string
  ki_name :: string
  ki_scopes :: "string list"
  ki_org_id :: string
  ki_created_at :: int
  ki_last_used_at :: "int option"
  ki_revoked_at :: "int option"

definition key_item :: "api_key \<Rightarrow> key_item" where
  "key_item k = \<lparr>ki_id = k_id k, ki_prefix = k_prefix k, ki_name = k_name k, ki_scopes = split_scopes (Some (k_scopes k)),
     ki_org_id = k_org_id k, ki_created_at = k_created_at k, ki_last_used_at = k_last_used_at k, ki_revoked_at = k_revoked_at k\<rparr>"

definition key_rows :: "string option \<Rightarrow> bool \<Rightarrow> database \<Rightarrow> api_key list" where
  "key_rows org include_revoked db =
     sort_key (\<lambda>k. - k_created_at k) (filter (\<lambda>k. (case org of None \<Rightarrow> True | Some i \<Rightarrow> k_org_id k = i) \<and>
       (include_revoked \<or> k_revoked_at k = None)) (keys db))"

definition list_api_keys :: "string option \<Rightarrow> bool \<Rightarrow> api_key_principal \<Rightarrow> sessionmaker \<Rightarrow> exc + key_item list" where
  "list_api_keys org_id include_revoked p sm =
     bind_res (require_sessionmaker sm) (\<lambda>c.
     bind_res (if is_super_admin p then Inr org_id else bind_res (principal_org_id p) (\<lambda>i. Inr (Some i))) (\<lambda>effective.
     bind_res (read_rows c (key_rows effective include_revoked)) (\<lambda>rows. Inr (map key_item rows))))"

subsection \<open>Facts\<close>

lemma require_sessionmaker_simps [simp]: "require_sessionmaker (Some c) = Inr c"
  by (simp add: require_sessionmaker_def)

lemma add_scopes_clean:
  "\<forall>s \<in> set scopes. csv_clean s \<Longrightarrow> \<forall>r \<in> set raws. CHR '','' \<notin> set r \<Longrightarrow> \<forall>s \<in> set (add_scopes raws scopes). csv_clean s"
proof (induction raws arbitrary: scopes)
  case (Cons raw raws)
  have "CHR '','' \<notin> set (py_strip raw)" using Cons.prems(2) set_py_strip [of raw] by auto
  then have "py_strip raw \<noteq> [] \<longrightarrow> csv_clean (py_strip raw)" by (simp add: csv_clean_def)
  with Cons.prems(1) have "\<forall>s \<in> set (if py_strip raw \<noteq> [] \<and> py_strip raw \<notin> set scopes then scopes @ [py_strip raw] else scopes). csv_clean s"
    by simp
  with Cons.IH Cons.prems(2) show ?case by (simp add: Let_def)
qed simp

lemma collect_scopes_clean: "\<forall>s \<in> set scopes. csv_clean s \<Longrightarrow> \<forall>s \<in> set (collect_scopes its scopes). csv_clean s"
proof (induction its arbitrary: scopes)
  case (Cons i its)
  have "\<forall>r \<in> set (py_split (CHR '','') i). CHR '','' \<notin> set r" using py_split_no_sep by blast
  with Cons.IH Cons.prems add_scopes_clean [of scopes "py_split (CHR '','') i"] show ?case by simp
qed simp

text \<open>The scopes of a validated request can be stored as one comma-separated string.\<close>

lemma key_request_scopes:
  assumes "validate_key_request raw = Inr body"
  shows "kr_scopes body \<noteq> []" and "\<forall>s \<in> set (kr_scopes body). csv_clean s"
  using assms collect_scopes_clean [of "[]" "kr_scopes raw"]
  by (auto simp: validate_key_request_def bind_res_Inr normalize_scopes_def Let_def split: if_splits)

lemma parse_scopes_join:
  assumes "scopes \<noteq> []" and "\<forall>s \<in> set scopes. csv_clean s"
  shows "parse_scopes (Some (py_join '','' scopes)) = set scopes"
proof -
  have "csv_items (py_join '','' scopes) = scopes" using assms(2) by (rule csv_items_join)
  moreover from this assms(1) have "py_join '','' scopes \<noteq> []" by (auto simp: csv_items_def py_strip_def)
  ultimately show ?thesis using assms(1) by (simp add: parse_scopes_def Let_def)
qed

lemma key_grant_Inr:
  assumes "key_grant body p = Inr (org_id, scopes)"
  shows "org_id = kr_org_id body" and "set scopes \<subseteq> set (kr_scopes body)"
    and "\<not> is_super_admin p \<Longrightarrow> p_org_id p = Some org_id \<and> ''super_admin'' \<notin> set scopes \<and> scopes \<noteq> []"
    and "kr_scopes body \<noteq> [] \<Longrightarrow> scopes \<noteq> []"
  using assms by (auto simp: key_grant_def bind_res_Inr principal_org_id_def Let_def split: if_splits option.splits)

lemma insert_key_Inr: "insert_key r db = Inr db' \<Longrightarrow> db' = db\<lparr>keys := keys db @ [r]\<rparr>"
  by (simp add: insert_key_def split: if_splits)

text \<open>The successful cases of the two operations on keys.\<close>

lemma create_api_key_Inr:
  assumes "create_api_key sha rnd i now body p (Some c) = (Inr resp, sm')"
  obtains org_id scopes where "key_grant body p = Inr (org_id, scopes)"
    and "get_org org_id (conn_db c) \<noteq> None" and "write_ok c" and "read_ok c"
    and "insert_key (kc_row resp) (conn_db c) = Inr ((conn_db c)\<lparr>keys := keys (conn_db c) @ [kc_row resp]\<rparr>)"
    and "sm' = Some (c\<lparr>conn_db := (conn_db c)\<lparr>keys := keys (conn_db c) @ [kc_row resp]\<rparr>\<rparr>)"
    and "kc_scopes resp = scopes" and "k_scopes (kc_row resp) = py_join '','' scopes" and "k_org_id (kc_row resp) = org_id"
    and "k_key_hash (kc_row resp) = sha (kc_api_key resp)" and "k_revoked_at (kc_row resp) = None"
proof -
  obtain g where g: "key_grant body p = Inr g" using assms by (cases "key_grant body p") (auto simp: create_api_key_def)
  obtain org_id scopes where gg: "g = (org_id, scopes)" by (cases g)
  have ok: "read_ok c" using assms g by (auto simp: create_api_key_def read_rows_def Let_def split: if_splits)
  show thesis
    by (rule that [of org_id scopes])
      (use assms g gg ok in \<open>auto simp: create_api_key_def read_rows_def Let_def dest: insert_key_Inr split: if_splits sum.splits\<close>)
qed

lemma create_api_key_conn: "create_api_key sha rnd i now body p sm = (Inr resp, sm') \<Longrightarrow> \<exists>c. sm = Some c"
  by (cases sm) (auto simp: create_api_key_def require_sessionmaker_def)

lemma revoke_api_key_Inr:
  assumes "revoke_api_key now key_id p (Some c) = (Inr r, sm')"
  obtains row where "get_key key_id (conn_db c) = Some row" and "read_ok c" and "write_ok c"
    and "is_super_admin p \<or> p_org_id p = Some (k_org_id row)"
    and "sm' = Some (c\<lparr>conn_db := update_key key_id (k_revoked_at_update (\<lambda>_. Some now)) (conn_db c)\<rparr>)"
  using assms
  by (auto simp: revoke_api_key_def read_rows_def principal_org_id_def split: if_splits option.splits)

lemma revoke_api_key_conn: "revoke_api_key now key_id p sm = (Inr r, sm') \<Longrightarrow> \<exists>c. sm = Some c"
  by (cases sm) (auto simp: revoke_api_key_def require_sessionmaker_def)

text \<open>A failed operation changes nothing.\<close>

lemma create_api_key_Inl: "create_api_key sha rnd i now body p sm = (Inl e, sm') \<Longrightarrow> sm' = sm"
  by (auto simp: create_api_key_def Let_def split: sum.splits prod.splits if_splits)

lemma revoke_api_key_Inl: "revoke_api_key now key_id p sm = (Inl e, sm') \<Longrightarrow> sm' = sm"
  by (auto simp: revoke_api_key_def split: sum.splits if_splits)

lemma create_api_key_cases:
  "sm' = snd (create_api_key sha rnd i now body p sm) \<Longrightarrow> sm' = sm \<or> (\<exists>r. create_api_key sha rnd i now body p sm = (Inr r, sm'))"
  by (metis create_api_key_Inl prod.collapse sum.exhaust)

lemma revoke_api_key_cases:
  "sm' = snd (revoke_api_key now key_id p sm) \<Longrightarrow> sm' = sm \<or> (\<exists>r. revoke_api_key now key_id p sm = (Inr r, sm'))"
  by (metis revoke_api_key_Inl prod.collapse sum.exhaust)

lemma create_organization_Inl: "create_organization i now name p sm = (Inl e, sm') \<Longrightarrow> sm' = sm"
  by (auto simp: create_organization_def Let_def split: sum.splits if_splits)

subsection \<open>Tenants\<close>

text \<open>Two databases that agree on what belongs to an organization.\<close>

definition same_tenant :: "string \<Rightarrow> database \<Rightarrow> database \<Rightarrow> bool" where
  "same_tenant org a b \<longleftrightarrow>
     filter (\<lambda>r. a_org_id r = Some org) (audit_logs a) = filter (\<lambda>r. a_org_id r = Some org) (audit_logs b) \<and>
     filter (\<lambda>k. k_org_id k = org) (keys a) = filter (\<lambda>k. k_org_id k = org) (keys b)"

lemma filter_refine:
  assumes "filter Q xs = filter Q ys" and "\<And>x. P x \<Longrightarrow> Q x"
  shows "filter P xs = filter P ys"
proof -
  have "filter P zs = filter P (filter Q zs)" for zs using assms(2) by (induction zs) auto
  with assms(1) show ?thesis by metis
qed

lemma usage_rows_tenant: "same_tenant org a b \<Longrightarrow> usage_rows s u (Some org) a = usage_rows s u (Some org) b"
  unfolding usage_rows_def same_tenant_def in_scope_def by (rule filter_refine [where Q = "\<lambda>r. a_org_id r = Some org"]) auto

lemma audit_rows_tenant: "same_tenant org a b \<Longrightarrow> audit_rows (Some org) s u m k a = audit_rows (Some org) s u m k b"
  unfolding audit_rows_def same_tenant_def in_scope_def
  by (rule arg_cong [where f = "sort_key _"], rule filter_refine [where Q = "\<lambda>r. a_org_id r = Some org"]) auto

lemma key_rows_tenant: "same_tenant org a b \<Longrightarrow> key_rows (Some org) r a = key_rows (Some org) r b"
  unfolding key_rows_def same_tenant_def
  by (rule arg_cong [where f = "sort_key _"], rule filter_refine [where Q = "\<lambda>k. k_org_id k = org"]) auto

lemma foreign_key_iff:
  assumes "db_wf db"
  shows "foreign_key (Some org) (Some i) db \<longleftrightarrow> i \<notin> k_id ` set (filter (\<lambda>x. k_org_id x = org) (keys db))"
proof (cases "get_key i db")
  case None
  then have "\<forall>x \<in> set (keys db). k_id x \<noteq> i" by (auto simp: get_key_def find_None_iff)
  with None show ?thesis by (auto simp: foreign_key_def)
next
  case (Some x)
  then have x: "x \<in> set (keys db)" "k_id x = i" using get_key_eq [OF assms] by auto
  have uniq: "y = x" if "y \<in> set (keys db)" "k_id y = i" for y using that Some get_key_eq [OF assms, of i y] by auto
  have "i \<in> k_id ` set (filter (\<lambda>x. k_org_id x = org) (keys db)) \<longleftrightarrow> k_org_id x = org"
  proof
    assume "i \<in> k_id ` set (filter (\<lambda>x. k_org_id x = org) (keys db))"
    then obtain y where "y \<in> set (keys db)" "k_org_id y = org" "k_id y = i" by auto
    with uniq [of y] show "k_org_id x = org" by simp
  next
    assume "k_org_id x = org"
    with x show "i \<in> k_id ` set (filter (\<lambda>x. k_org_id x = org) (keys db))" by force
  qed
  with Some show ?thesis by (simp add: foreign_key_def)
qed

lemma foreign_key_tenant:
  assumes "db_wf a" and "db_wf b" and "same_tenant org a b"
  shows "foreign_key (Some org) k a = foreign_key (Some org) k b"
proof (cases k)
  case None
  then show ?thesis by (simp add: foreign_key_def)
next
  case (Some i)
  then show ?thesis using assms(3) unfolding Some foreign_key_iff [OF assms(1)] foreign_key_iff [OF assms(2)] same_tenant_def by metis
qed

text \<open>C2: what a tenant's administrator reads (usage, audit log, keys, and which errors) is determined by that
  tenant's rows: two databases that agree on them cannot be told apart, however other tenants' data differ.\<close>

theorem tenant_isolation_reads:
  assumes "\<not> is_super_admin p" and "p_org_id p = Some org"
    and "db_wf (conn_db c)" and "db_wf (conn_db d)" and "same_tenant org (conn_db c) (conn_db d)" and "read_ok c = read_ok d"
  shows "get_usage now since until g p (Some c) = get_usage now since until g p (Some d) \<and>
    list_audit_logs n offset since until model key_id p (Some c) = list_audit_logs n offset since until model key_id p (Some d) \<and>
    list_api_keys asked include_revoked p (Some c) = list_api_keys asked include_revoked p (Some d)"
proof -
  have s: "org_scope p = Inr (Some org)" "principal_org_id p = Inr org" using assms(1,2) by (simp_all add: org_scope_def principal_org_id_def)
  show ?thesis
    using assms(1,6) usage_rows_tenant [OF assms(5)] audit_rows_tenant [OF assms(5)] key_rows_tenant [OF assms(5)]
      foreign_key_tenant [OF assms(3,4,5)]
    by (simp add: get_usage_def list_audit_logs_def list_api_keys_def s read_rows_def Let_def)
qed

text \<open>C27: a tenant's administrator cannot change anything of another tenant: neither creating nor revoking keys
  touches the other tenants' keys, the organizations or the logs, and creating organizations is refused.\<close>

theorem tenant_isolation_writes:
  assumes "\<not> is_super_admin p" and "p_org_id p = Some org" and "db_wf (conn_db c)"
    and "sm' \<in> {snd (create_api_key sha rnd i now body p (Some c)), snd (revoke_api_key now key_id p (Some c)),
      snd (create_organization i now name p (Some c))}"
  shows "\<exists>c'. sm' = Some c' \<and> organizations (conn_db c') = organizations (conn_db c) \<and> audit_logs (conn_db c') = audit_logs (conn_db c) \<and>
    filter (\<lambda>k. k_org_id k \<noteq> org) (keys (conn_db c')) = filter (\<lambda>k. k_org_id k \<noteq> org) (keys (conn_db c)) \<and>
    fst (create_organization i now name p (Some c)) = Inl (HttpExc 403 (Some ''super_admin scope is required'') [])"
proof -
  have co: "create_organization i now name p (Some c) = (Inl (HttpExc 403 (Some ''super_admin scope is required'') []), Some c)"
    using assms(1) by (simp add: create_organization_def require_super_admin_def)
  from assms(4) consider "sm' = Some c" | "sm' = snd (create_api_key sha rnd i now body p (Some c))"
    | "sm' = snd (revoke_api_key now key_id p (Some c))" unfolding co by auto
  then have "sm' = Some c \<or> (\<exists>r. create_api_key sha rnd i now body p (Some c) = (Inr r, sm')) \<or>
      (\<exists>r. revoke_api_key now key_id p (Some c) = (Inr r, sm'))"
  proof cases
    case 2
    from create_api_key_cases [OF 2] show ?thesis by satx
  next
    case 3
    from revoke_api_key_cases [OF 3] show ?thesis by satx
  qed simp
  then consider "sm' = Some c"
    | r where "create_api_key sha rnd i now body p (Some c) = (Inr r, sm')"
    | r where "revoke_api_key now key_id p (Some c) = (Inr r, sm')"
    by blast
  then show ?thesis
  proof cases
    case 1
    then show ?thesis by (simp add: co)
  next
    case (2 r)
    show ?thesis
      by (rule create_api_key_Inr [OF 2]) (use key_grant_Inr(3) [of body p] assms(1,2) in \<open>auto simp: co\<close>)
  next
    case (3 r)
    obtain row where row: "get_key key_id (conn_db c) = Some row" "k_org_id row = org"
      and sm': "sm' = Some (c\<lparr>conn_db := update_key key_id (k_revoked_at_update (\<lambda>_. Some now)) (conn_db c)\<rparr>)"
      by (rule revoke_api_key_Inr [OF 3]) (use assms(1,2) in simp)
    have own: "k_org_id a = org" if "k_id a = key_id" "a \<in> set (keys (conn_db c))" for a
      using row that get_key_eq [OF assms(3), of key_id a] by simp
    have "filter (\<lambda>k. k_org_id k \<noteq> org) (map (\<lambda>r. if k_id r = key_id then r\<lparr>k_revoked_at := Some now\<rparr> else r) xs) =
        filter (\<lambda>k. k_org_id k \<noteq> org) xs" if "set xs \<subseteq> set (keys (conn_db c))" for xs
      using that by (induction xs) (use own in fastforce)+
    then show ?thesis by (simp add: sm' co update_key_def)
  qed
qed

text \<open>C28: the token of a new key authenticates with exactly the scopes and the organization that were granted;
  a key that a tenant's administrator creates stays in that tenant and never carries \<open>super_admin\<close>.\<close>

theorem created_key_authenticates:
  assumes "validate_key_request raw = Inr body" and "create_api_key sha rnd i now body p (Some c) = (Inr resp, Some c')"
    and "db_wf (conn_db c)" and "''api_key'' \<in> set (auth_mode st)"
  shows "\<exists>q sm. require_api_key sha rs v st later (Some (''Bearer'', kc_api_key resp)) (Some c') = (Inr q, sm) \<and>
    p_scopes q = set (kc_scopes resp) \<and> p_org_id q = Some (kr_org_id body) \<and>
    (\<not> is_super_admin p \<longrightarrow> \<not> is_super_admin q \<and> p_org_id q = p_org_id p)"
proof (rule create_api_key_Inr [OF assms(2)])
  fix org_id scopes
  assume g: "key_grant body p = Inr (org_id, scopes)" and ok: "write_ok c" "read_ok c"
    and ins: "insert_key (kc_row resp) (conn_db c) = Inr ((conn_db c)\<lparr>keys := keys (conn_db c) @ [kc_row resp]\<rparr>)"
    and c': "Some c' = Some (c\<lparr>conn_db := (conn_db c)\<lparr>keys := keys (conn_db c) @ [kc_row resp]\<rparr>\<rparr>)"
    and r: "kc_scopes resp = scopes" "k_scopes (kc_row resp) = py_join '','' scopes" "k_org_id (kc_row resp) = org_id"
      "k_key_hash (kc_row resp) = sha (kc_api_key resp)" "k_revoked_at (kc_row resp) = None"
  let ?q = "key_principal (sha (kc_api_key resp)) (kc_row resp)"
  have wf: "db_wf (conn_db c')" using insert_key_wf [OF assms(3) ins] c' by simp
  have "active_key (sha (kc_api_key resp)) (conn_db c') = Some (kc_row resp)"
    by (rule active_key_unique [OF wf]) (use c' r in auto)
  moreover have "py_lower ''Bearer'' = ''bearer''" by code_simp
  ultimately have q: "\<exists>sm. require_api_key sha rs v st later (Some (''Bearer'', kc_api_key resp)) (Some c') = (Inr ?q, sm)"
    using resolve_db [OF wf, of sha rs later "kc_api_key resp"] ok c' assms(4) by (simp add: require_api_key_bearer)
  have "p_scopes ?q = set scopes"
    using key_request_scopes [OF assms(1)] key_grant_Inr(2,4) [OF g] r(2) parse_scopes_join [of scopes]
    by (auto simp: key_principal_def subset_iff)
  then show ?thesis
    by (intro exI [of _ ?q]) (use q key_grant_Inr(1,3) [OF g] r in \<open>auto simp: key_principal_def is_super_admin_def\<close>)
qed

definition sample_admin :: api_key_principal where
  "sample_admin = \<lparr>p_hash = ''h'', p_key_id = None, p_org_id = Some ''o1'', p_scopes = {''chat'', ''admin''}\<rparr>"

text \<open>The sample database with another tenant's key.\<close>

definition sample_conn2 :: connection where
  "sample_conn2 = sample_conn\<lparr>conn_db := sample_db\<lparr>keys := keys sample_db @
     [sample_key\<lparr>k_id := ''k9'', k_org_id := ''o2'', k_key_hash := ''x''\<rparr>]\<rparr>\<rparr>"

definition sample_request :: key_request where
  "sample_request = \<lparr>kr_name = ''ci'', kr_scopes = [''chat, super_admin'', ''chat''], kr_org_id = ''o1''\<rparr>"

theorem tenant_isolation_reads_witness:
  "list_api_keys None True sample_admin (Some sample_conn) = list_api_keys None True sample_admin (Some sample_conn2)"
  using tenant_isolation_reads [of sample_admin "''o1''" sample_conn sample_conn2 0 None None ByKey 1 0 None None None True]
  by (simp add: is_super_admin_def sample_admin_def db_wf_def same_tenant_def sample_conn2_def sample_conn_def sample_db_def
      sample_key_def empty_db_def)

theorem tenant_isolation_writes_witness:
  "filter (\<lambda>k. k_org_id k \<noteq> ''o1'') (keys (conn_db (the (snd (revoke_api_key 9 ''k9'' sample_admin (Some sample_conn2)))))) =
   filter (\<lambda>k. k_org_id k \<noteq> ''o1'') (keys (conn_db sample_conn2))"
proof -
  have "\<not> is_super_admin sample_admin" "p_org_id sample_admin = Some ''o1''" "db_wf (conn_db sample_conn2)" by code_simp+
  from tenant_isolation_writes [OF this, of "snd (revoke_api_key 9 ''k9'' sample_admin (Some sample_conn2))" rev "[]" "[]" 9 sample_request "''k9''" "[]"]
  show ?thesis by auto
qed

theorem created_key_authenticates_witness:
  "\<exists>q sm. require_api_key rev sample_resolver None default_settings 7 (Some (''Bearer'', ''sk-r''))
     (snd (create_api_key rev ''r'' ''n'' 5 (sample_request\<lparr>kr_scopes := [''chat'', ''super_admin'']\<rparr>) sample_admin (Some sample_conn))) =
     (Inr q, sm) \<and> p_scopes q = {''chat''} \<and> \<not> is_super_admin q"
proof -
  let ?body = "sample_request\<lparr>kr_scopes := [''chat'', ''super_admin'']\<rparr>"
  let ?res = "create_api_key rev ''r'' ''n'' 5 ?body sample_admin (Some sample_conn)"
  let ?resp = "case fst ?res of Inr r \<Rightarrow> r"
  have v: "validate_key_request sample_request = Inr ?body" by code_simp
  have r: "?res = (Inr ?resp, Some (the (snd ?res)))" by code_simp
  have f: "kc_scopes ?resp = [''chat'']" "kc_api_key ?resp = ''sk-r''" "db_wf (conn_db sample_conn)"
    "''api_key'' \<in> set (auth_mode default_settings)" "\<not> is_super_admin sample_admin" "Some (the (snd ?res)) = snd ?res"
    by code_simp+
  show ?thesis using created_key_authenticates [OF v r f(3,4), of sample_resolver None 7] unfolding f(1,2,6) using f(5) by fastforce
qed

subsection \<open>Privileges over time\<close>

text \<open>
  What callers can do to the database through the API: authenticate, and with an administrator's token
  create keys and organizations and revoke keys, each with any arguments.
\<close>

inductive admin_step :: "(string \<Rightarrow> string) \<Rightarrow> resolver \<Rightarrow> settings \<Rightarrow> sessionmaker \<Rightarrow> sessionmaker \<Rightarrow> bool" for sha rs st where
  authenticate: "admin_step sha rs st sm (snd (require_api_key sha rs v st now cred sm))"
| create_key: "require_api_key sha rs v st now cred sm = (Inr p, sm1) \<Longrightarrow> require_admin_principal p = Inr p \<Longrightarrow>
    validate_key_request raw = Inr body \<Longrightarrow> admin_step sha rs st sm (snd (create_api_key sha rnd i now body p sm1))"
| revoke_key: "require_api_key sha rs v st now cred sm = (Inr p, sm1) \<Longrightarrow> require_admin_principal p = Inr p \<Longrightarrow>
    admin_step sha rs st sm (snd (revoke_api_key now key_id p sm1))"
| create_org: "require_api_key sha rs v st now cred sm = (Inr p, sm1) \<Longrightarrow> require_admin_principal p = Inr p \<Longrightarrow>
    admin_step sha rs st sm (snd (create_organization i now name p sm1))"

text \<open>No stored key carries \<open>super_admin\<close>.\<close>

definition no_super_key :: "sessionmaker \<Rightarrow> bool" where
  "no_super_key sm \<longleftrightarrow> (\<forall>c k. sm = Some c \<longrightarrow> k \<in> set (keys (conn_db c)) \<longrightarrow> ''super_admin'' \<notin> parse_scopes (Some (k_scopes k)))"

lemma no_super_update:
  assumes "no_super_key (Some c)" and "\<And>r. k_scopes (f r) = k_scopes r"
  shows "no_super_key (Some (c\<lparr>conn_db := update_key i f (conn_db c)\<rparr>))"
  using assms by (auto simp: no_super_key_def update_key_def)

lemma resolve_no_super: "no_super_key sm \<Longrightarrow> no_super_key (snd (resolve sha rs now tok sm))"
  by (auto simp: resolve_def Let_def intro!: no_super_update split: option.split)

lemma require_no_super: "no_super_key sm \<Longrightarrow> no_super_key (snd (require_api_key sha rs v st now cred sm))"
  using require_api_key_state [of sha rs v st now cred sm] resolve_no_super by auto

text \<open>Without environment keys and JWT, an administrator's scopes come from a stored key.\<close>

lemma principal_no_super:
  assumes "require_api_key sha rs v st now cred sm = (Inr p, sm1)" and "no_super_key sm" and "env_keys rs = []"
    and "''jwt'' \<notin> set (auth_mode st)"
  shows "\<not> is_super_admin p"
proof -
  from assms(1) obtain scheme tok where c: "cred = Some (scheme, tok)" and b: "py_lower scheme = ''bearer''"
    by (auto simp: require_api_key_def split: option.splits if_splits)
  from assms(1) [unfolded c require_api_key_bearer [OF b]] assms(4) have "resolve sha rs now tok sm = (Some p, sm1)"
    by (auto split: prod.splits option.splits if_splits)
  from resolve_sound [OF this] assms(3) obtain c r where "sm = Some c" "r \<in> set (keys (conn_db c))" "p = key_principal (sha tok) r"
    by auto
  with assms(2) show ?thesis by (simp add: no_super_key_def is_super_admin_def key_principal_def)
qed

lemma create_key_no_super:
  assumes "no_super_key sm" and "\<not> is_super_admin p" and "validate_key_request raw = Inr body"
  shows "no_super_key (snd (create_api_key sha rnd i now body p sm))"
proof (cases "fst (create_api_key sha rnd i now body p sm)")
  case (Inl e)
  then show ?thesis using create_api_key_Inl [of sha rnd i now body p sm e] assms(1) by (metis prod.collapse)
next
  case (Inr resp)
  then obtain sm' where e: "create_api_key sha rnd i now body p sm = (Inr resp, sm')" by (metis prod.collapse)
  then obtain c where c: "sm = Some c" using create_api_key_conn by blast
  show ?thesis
  proof (rule create_api_key_Inr [OF e [unfolded c]])
    fix org_id scopes
    assume g: "key_grant body p = Inr (org_id, scopes)"
      and sm': "sm' = Some (c\<lparr>conn_db := (conn_db c)\<lparr>keys := keys (conn_db c) @ [kc_row resp]\<rparr>\<rparr>)"
      and r: "k_scopes (kc_row resp) = py_join '','' scopes"
    have "parse_scopes (Some (py_join '','' scopes)) = set scopes"
      using key_request_scopes [OF assms(3)] key_grant_Inr(2,4) [OF g] by (intro parse_scopes_join) auto
    with key_grant_Inr(3) [OF g assms(2)] assms(1) have "no_super_key sm'"
      unfolding c sm' by (auto simp: no_super_key_def r)
    then show ?thesis by (simp add: e)
  qed
qed

lemma revoke_key_no_super: "no_super_key sm \<Longrightarrow> no_super_key (snd (revoke_api_key now key_id p sm))"
  by (auto simp: revoke_api_key_def bind_res_Inr require_sessionmaker_def read_rows_def
      intro!: no_super_update split: sum.split option.splits if_splits)

lemma create_org_no_super: "\<not> is_super_admin p \<Longrightarrow> snd (create_organization i now name p sm) = sm"
  by (simp add: create_organization_def require_super_admin_def)



subsection \<open>Reports\<close>

lemma sum_partition:
  fixes f :: "'a \<Rightarrow> int"
  assumes "finite K" and "g ` set rows \<subseteq> K"
  shows "(\<Sum>k\<in>K. sum_list (map f (filter (\<lambda>r. g r = k) rows))) = sum_list (map f rows)"
  using assms(2)
proof (induction rows)
  case (Cons r rows)
  have "(\<Sum>k\<in>K. sum_list (map f (filter (\<lambda>x. g x = k) (r # rows)))) =
      (\<Sum>k\<in>K. (if k = g r then f r else 0) + sum_list (map f (filter (\<lambda>x. g x = k) rows)))"
    by (intro sum.cong) auto
  also have "\<dots> = f r + sum_list (map f rows)"
    using Cons assms(1) by (simp add: sum.distrib)
  finally show ?case by simp
qed simp

lemma usage_groups_sum:
  fixes f :: "audit_log \<Rightarrow> int"
  assumes "\<And>k rs. u (usage_group_of k rs) = sum_list (map f rs)"
  shows "sum_list (map u (usage_groups g rows)) = sum_list (map f rows)"
proof -
  let ?ks = "sort (remdups (map (group_expr g) rows))"
  have "sum_list (map u (usage_groups g rows)) = sum_list (map (\<lambda>k. sum_list (map f (filter (\<lambda>r. group_expr g r = k) rows))) ?ks)"
    by (simp add: usage_groups_def assms comp_def)
  also have "\<dots> = (\<Sum>k\<in>set ?ks. sum_list (map f (filter (\<lambda>r. group_expr g r = k) rows)))"
    by (rule sum_list_distinct_conv_sum_set) simp
  also have "\<dots> = sum_list (map f rows)" by (rule sum_partition) auto
  finally show ?thesis .
qed


text \<open>A log row, and a connection with three of them.\<close>

definition sample_log :: audit_log where
  "sample_log = \<lparr>a_id = ''a1'', a_request_id = ''r1'', a_ts = 10, a_principal_hash = Some ''h'', a_org_id = Some ''o1'',
     a_api_key_id = Some ''k1'', a_provider = Some ''openai'', a_model = Some ''gpt-4o'', a_status_code = 200, a_error_type = None,
     a_prompt_tokens = 3, a_completion_tokens = 4, a_total_tokens = 7, a_cost_usd = 1 / 1000, a_latency_ms = 5, a_stream = False\<rparr>"

definition sample_conn3 :: connection where
  "sample_conn3 = sample_conn\<lparr>conn_db := sample_db\<lparr>audit_logs := [sample_log,
     sample_log\<lparr>a_id := ''a2'', a_ts := 20, a_org_id := Some ''o2''\<rparr>,
     sample_log\<lparr>a_id := ''a3'', a_ts := 30, a_api_key_id := None, a_status_code := 502\<rparr>]\<rparr>\<rparr>"


text \<open>A client that follows \<open>next_offset\<close> until it is absent; \<open>fuel\<close> bounds the number of pages.\<close>

fun all_pages :: "nat \<Rightarrow> (nat \<Rightarrow> exc + audit_response) \<Rightarrow> nat \<Rightarrow> audit_item list option" where
  "all_pages 0 fetch offset = None"
| "all_pages (Suc fuel) fetch offset =
     (case fetch offset of
        Inl _ \<Rightarrow> None
      | Inr r \<Rightarrow> (case next_offset r of
          None \<Rightarrow> Some (items r)
        | Some o' \<Rightarrow> map_option (\<lambda>rest. items r @ rest) (all_pages fuel fetch o')))"

definition audit_item_of :: "audit_log \<Rightarrow> audit_item" where
  "audit_item_of r = \<lparr>ai_row = r, ai_cost_usd = format_cost (a_cost_usd r)\<rparr>"

lemma list_audit_logs_page:
  assumes "org_scope p = Inr scope" and "read_ok c" and "\<not> foreign_key scope key_id (conn_db c)"
  shows "list_audit_logs n offset since until model key_id p (Some c) =
    (let rows = audit_rows scope since until model key_id (conn_db c) in
     Inr \<lparr>items = map audit_item_of (take n (drop offset rows)), next_offset = (if offset + n < length rows then Some (offset + n) else None)\<rparr>)"
  using assms by (auto simp: list_audit_logs_def read_rows_def audit_item_of_def Let_def min_def)

lemma all_pages_drop:
  assumes "org_scope p = Inr scope" and "read_ok c" and "\<not> foreign_key scope key_id (conn_db c)" and "0 < n"
    and "length (audit_rows scope since until model key_id (conn_db c)) - offset < fuel"
  shows "all_pages fuel (\<lambda>off. list_audit_logs n off since until model key_id p (Some c)) offset =
    Some (map audit_item_of (drop offset (audit_rows scope since until model key_id (conn_db c))))"
  using assms(5)
proof (induction fuel arbitrary: offset)
  case (Suc fuel)
  let ?rows = "audit_rows scope since until model key_id (conn_db c)"
  show ?case
  proof (cases "offset + n < length ?rows")
    case True
    have "take n (drop offset ?rows) @ drop (offset + n) ?rows = drop offset ?rows"
      by (metis append_take_drop_id drop_drop add.commute)
    then have "map audit_item_of (take n (drop offset ?rows)) @ map audit_item_of (drop (offset + n) ?rows) =
        map audit_item_of (drop offset ?rows)" by (metis map_append)
    moreover have "length ?rows - (offset + n) < fuel" using Suc.prems True assms(4) by linarith
    ultimately show ?thesis using Suc.IH [of "offset + n"] True
      by (simp add: list_audit_logs_page [OF assms(1-3)] Let_def)
  next
    case False
    then show ?thesis by (simp add: list_audit_logs_page [OF assms(1-3)] Let_def)
  qed
qed simp



lemma round_half_even_close: "\<bar>of_int (round_half_even x) - x\<bar> \<le> 1 / 2"
proof -
  have "of_int \<lfloor>x\<rfloor> \<le> x" "x < of_int \<lfloor>x\<rfloor> + 1" by linarith+
  then show ?thesis unfolding round_half_even_def Let_def by (simp split: if_split; linarith)
qed

lemma pad6_digits:
  assumes "0 \<le> n" and "n < 1000000"
  shows "length (pad6 n) = 6 \<and> py_int_digits (pad6 n) = Some (nat n)"
proof -
  have "length (nat_str (nat n)) \<le> 6" using assms nat_str_length [of "nat n" 6] by simp
  moreover have "py_isdecimal (CHR ''0'')" by (simp add: py_isdecimal_def)
  ultimately show ?thesis using assms(1)
    by (auto simp: pad6_def dec_str_nonneg py_int_digits_def digits_val_zeros list_all_iff intro: nat_str_decimal)
qed

text \<open>A cost is printed as decimal digits, a point and exactly six decimals, the form the response schema
  demands, and the printed number is within half a millionth of the amount.\<close>

theorem format_cost_exact:
  assumes "0 \<le> v"
  shows "\<exists>a b m n. format_cost v = a @ ''.'' @ b \<and> py_int_digits a = Some m \<and> py_int_digits b = Some n \<and> length b = 6 \<and>
    \<bar>of_nat m + of_nat n / 1000000 - v\<bar> \<le> 1 / 2000000"
proof -
  obtain m where m: "round_half_even (v * 1000000) = m" by simp
  have m0: "0 \<le> m" using assms m unfolding round_half_even_def Let_def by (auto split: if_splits)
  have "rat_of_int (m div 1000000) * 1000000 + of_int (m mod 1000000) = of_int m"
    using arg_cong [OF div_mult_mod_eq [of m 1000000], of rat_of_int] by (simp only: of_int_add of_int_mult of_int_numeral)
  moreover have "\<bar>of_int m - v * 1000000\<bar> \<le> 1 / 2" using round_half_even_close [of "v * 1000000"] m by simp
  ultimately have "\<bar>of_int (m div 1000000) + of_int (m mod 1000000) / 1000000 - v\<bar> \<le> 1 / 2000000" by linarith
  moreover have "format_cost v = dec_str (m div 1000000) @ ''.'' @ pad6 (m mod 1000000)"
    using m0 m by (simp add: format_cost_def Let_def)
  ultimately show ?thesis
    using pad6_digits [of "m mod 1000000"] py_int_nat_str [of "nat (m div 1000000)"] m0
    by (intro exI [of _ "dec_str (m div 1000000)"] exI [of _ "pad6 (m mod 1000000)"] exI [of _ "nat (m div 1000000)"]
        exI [of _ "nat (m mod 1000000)"]) (simp add: dec_str_nonneg pos_imp_zdiv_nonneg_iff)
qed

theorem format_cost_exact_witness:
  "\<exists>a b m n. ''0.001250'' = a @ ''.'' @ b \<and> py_int_digits a = Some m \<and> py_int_digits b = Some n \<and> length b = 6 \<and>
    \<bar>of_nat m + of_nat n / 1000000 - 1 / (800::rat)\<bar> \<le> 1 / 2000000"
proof -
  have "format_cost (1 / 800) = ''0.001250''" by code_simp
  from format_cost_exact [of "1 / 800", unfolded this] show ?thesis by simp
qed

end
