(* ===== verification/Regex.thy ===== *)
theory Regex
  imports Prelude
begin

text \<open>
  The part of Python's \<open>re\<close> engine that the gateway's fixed patterns use: a backtracking
  matcher for character classes, sequences, ordered alternatives, greedy repetition, one
  character of negative lookaround and word boundaries, and \<open>Pattern.finditer\<close>.

  A cursor is a position in the subject: the reversed text before it and the text after it.
  \<open>ends r k\<close> lists the positions where a match of \<open>r\<close> started at \<open>k\<close> may end, in the
  order in which the backtracking engine tries them; the engine's match is the first one.
\<close>

type_synonym cursor = "string \<times> string"

datatype rx =
    Eps
  | Cls "char \<Rightarrow> bool"         \<comment> \<open>one character of a class\<close>
  | Star "char \<Rightarrow> bool"        \<comment> \<open>a class repeated, greedy\<close>
  | Cat rx rx
  | Alt rx rx                 \<comment> \<open>the left alternative is tried first\<close>
  | Rep nat nat rx            \<comment> \<open>greedy \<open>{m,n}\<close>\<close>
  | NotBehind "char \<Rightarrow> bool"   \<comment> \<open>\<open>(?<!c)\<close>\<close>
  | NotAhead "char \<Rightarrow> bool"    \<comment> \<open>\<open>(?!c)\<close>\<close>
  | WordB                     \<comment> \<open>\<open>\b\<close>\<close>

abbreviation Opt :: "rx \<Rightarrow> rx" where
  "Opt r \<equiv> Rep 0 1 r"

abbreviation Plus :: "(char \<Rightarrow> bool) \<Rightarrow> rx" where
  "Plus p \<equiv> Cat (Cls p) (Star p)"

abbreviation Times :: "nat \<Rightarrow> (char \<Rightarrow> bool) \<Rightarrow> rx" where
  "Times n p \<equiv> Rep n n (Cls p)"

primrec Lit :: "string \<Rightarrow> rx" where
  "Lit [] = Eps"
| "Lit (c # cs) = Cat (Cls (\<lambda>x. x = c)) (Lit cs)"

fun star_ends :: "(char \<Rightarrow> bool) \<Rightarrow> string \<Rightarrow> string \<Rightarrow> cursor list" where
  "star_ends p b [] = [(b, [])]"
| "star_ends p b (c # a) = (if p c then star_ends p (c # b) a else []) @ [(b, c # a)]"

primrec rep_ends :: "(cursor \<Rightarrow> cursor list) \<Rightarrow> nat \<Rightarrow> nat \<Rightarrow> cursor \<Rightarrow> cursor list" where
  "rep_ends f 0 m k = [k]"
| "rep_ends f (Suc n) m k =
     concat (map (rep_ends f n (m - 1)) (f k)) @ (if m = 0 then [k] else [])"

text \<open>Whether the characters on the two sides of a cursor differ in being word characters.\<close>

definition at_boundary :: "cursor \<Rightarrow> bool" where
  "at_boundary k \<longleftrightarrow>
     (case fst k of [] \<Rightarrow> False | c # _ \<Rightarrow> py_isword c) \<noteq>
     (case snd k of [] \<Rightarrow> False | c # _ \<Rightarrow> py_isword c)"

fun ends :: "rx \<Rightarrow> cursor \<Rightarrow> cursor list" where
  "ends Eps k = [k]"
| "ends (Cls p) k = (case snd k of [] \<Rightarrow> [] | c # a \<Rightarrow> if p c then [(c # fst k, a)] else [])"
| "ends (Star p) k = star_ends p (fst k) (snd k)"
| "ends (Cat r s) k = concat (map (ends s) (ends r k))"
| "ends (Alt r s) k = ends r k @ ends s k"
| "ends (Rep m n r) k = rep_ends (ends r) n m k"
| "ends (NotBehind p) k = (case fst k of [] \<Rightarrow> [k] | c # _ \<Rightarrow> if p c then [] else [k])"
| "ends (NotAhead p) k = (case snd k of [] \<Rightarrow> [k] | c # _ \<Rightarrow> if p c then [] else [k])"
| "ends WordB k = (if at_boundary k then [k] else [])"

text \<open>A match: start offset, end offset and matched text (\<open>m.start()\<close>, \<open>m.end()\<close>, \<open>m.group(0)\<close>).\<close>

type_synonym span = "nat \<times> nat \<times> string"

text \<open>
  \<open>finditer\<close> from a cursor. After a match the scan goes on at its end; after an empty match
  the next one at the same place must be non-empty (\<open>adv\<close>), as in the engine.
\<close>

function finditer_from :: "rx \<Rightarrow> bool \<Rightarrow> cursor \<Rightarrow> span list" where
  "finditer_from r adv (b, a) =
     (case filter (\<lambda>k. adv \<longrightarrow> length (snd k) < length a) (ends r (b, a)) of
        (b', a') # _ \<Rightarrow>
          (length b, length b', take (length a - length a') a) #
          (if length a' < length a then finditer_from r False (b', a')
           else finditer_from r True (b, a))
      | [] \<Rightarrow> (case a of [] \<Rightarrow> [] | c # a' \<Rightarrow> finditer_from r False (c # b, a')))"
  by pat_completeness auto
termination
  by (relation "measures [\<lambda>(r, adv, b, a). length a, \<lambda>(r, adv, k). if adv then 0 else 1]")
    (auto dest!: filter_eq_ConsD)

declare finditer_from.simps [simp del]

definition finditer :: "rx \<Rightarrow> string \<Rightarrow> span list" where
  "finditer r s = finditer_from r False ([], s)"

text \<open>\<open>Pattern.search(s) is not None\<close>.\<close>

definition rx_search :: "rx \<Rightarrow> string \<Rightarrow> bool" where
  "rx_search r s = (finditer r s \<noteq> [])"

subsection \<open>A match consumes a stretch of the subject\<close>

definition moves :: "cursor \<Rightarrow> string \<Rightarrow> cursor \<Rightarrow> bool" where
  "moves k w k' \<longleftrightarrow> fst k' = rev w @ fst k \<and> snd k = w @ snd k'"

lemma moves_refl [simp, intro]: "moves k [] k"
  by (simp add: moves_def)

lemma moves_trans [trans]: "moves k v k' \<Longrightarrow> moves k' w k'' \<Longrightarrow> moves k (v @ w) k''"
  by (simp add: moves_def)

lemma moves_one [intro]: "moves (b, c # a) [c] (c # b, a)"
  by (simp add: moves_def)

lemma star_ends_moves:
  "k' \<in> set (star_ends p b a) \<Longrightarrow> \<exists>w. moves (b, a) w k' \<and> list_all p w"
proof (induction p b a rule: star_ends.induct)
  case (2 p b c a)
  show ?case
  proof (cases "k' = (b, c # a)")
    case False
    with 2 obtain w where w: "moves (c # b, a) w k'" "list_all p w" and c: "p c"
      by (auto split: if_splits)
    from moves_one w(1) have "moves (b, c # a) ([c] @ w) k'" by (rule moves_trans)
    with w c show ?thesis by (intro exI [of _ "c # w"]) simp
  qed (auto intro: exI [of _ "[]"])
qed (auto intro: exI [of _ "[]"])

text \<open>
  The words a pattern can consume, read off the pattern (lookaround only restricts them).
\<close>

inductive consumes :: "rx \<Rightarrow> string \<Rightarrow> bool" where
  Eps: "consumes Eps []"
| Cls: "p c \<Longrightarrow> consumes (Cls p) [c]"
| Star: "list_all p w \<Longrightarrow> consumes (Star p) w"
| Cat: "consumes r v \<Longrightarrow> consumes s w \<Longrightarrow> consumes (Cat r s) (v @ w)"
| AltL: "consumes r w \<Longrightarrow> consumes (Alt r s) w"
| AltR: "consumes s w \<Longrightarrow> consumes (Alt r s) w"
| Rep: "m \<le> length ws \<Longrightarrow> length ws \<le> n \<Longrightarrow> \<forall>w \<in> set ws. consumes r w \<Longrightarrow>
    consumes (Rep m n r) (concat ws)"
| NotBehind: "consumes (NotBehind p) []"
| NotAhead: "consumes (NotAhead p) []"
| WordB: "consumes WordB []"

inductive_simps consumes_simps:
  "consumes Eps w" "consumes (Cls p) w" "consumes (Star p) w" "consumes (Cat r s) w"
  "consumes (Alt r s) w" "consumes (NotBehind p) w" "consumes (NotAhead p) w" "consumes WordB w"

inductive_cases consumes_RepE: "consumes (Rep m n r) w"

lemma consumes_Lit [simp]: "consumes (Lit l) w \<longleftrightarrow> w = l"
  by (induction l arbitrary: w) (auto simp: consumes_simps)

lemma consumes_Cls_list:
  "\<forall>w \<in> set ws. consumes (Cls p) w \<Longrightarrow> length (concat ws) = length ws \<and> list_all p (concat ws)"
  by (induction ws) (auto simp: consumes_simps)

lemma consumes_Rep_Cls [simp]:
  "consumes (Rep m n (Cls p)) w \<longleftrightarrow> m \<le> length w \<and> length w \<le> n \<and> list_all p w"
proof
  assume "consumes (Rep m n (Cls p)) w"
  then show "m \<le> length w \<and> length w \<le> n \<and> list_all p w"
    by (rule consumes_RepE) (auto dest: consumes_Cls_list)
next
  assume *: "m \<le> length w \<and> length w \<le> n \<and> list_all p w"
  then have "consumes (Rep m n (Cls p)) (concat (map (\<lambda>c. [c]) w))"
    by (intro consumes.Rep) (auto simp: list_all_iff consumes_simps)
  then show "consumes (Rep m n (Cls p)) w" by simp
qed

lemma rep_ends_moves:
  assumes f: "\<And>k k'. k' \<in> set (f k) \<Longrightarrow> \<exists>w. moves k w k' \<and> P w"
  shows "k' \<in> set (rep_ends f n m k) \<Longrightarrow> m \<le> n \<Longrightarrow>
    \<exists>ws. moves k (concat ws) k' \<and> m \<le> length ws \<and> length ws \<le> n \<and> (\<forall>w \<in> set ws. P w)"
proof (induction n arbitrary: m k)
  case 0
  then show ?case by (auto intro!: exI [of _ "[]"])
next
  case (Suc n)
  show ?case
  proof (cases "m = 0 \<and> k' = k")
    case True
    then show ?thesis by (auto intro!: exI [of _ "[]"])
  next
    case False
    with Suc.prems obtain j where j: "j \<in> set (f k)" "k' \<in> set (rep_ends f n (m - 1) j)"
      by (auto split: if_splits)
    from f [OF j(1)] obtain w where w: "moves k w j" "P w" by blast
    from Suc.prems(2) have "m - 1 \<le> n" by simp
    from Suc.IH [OF j(2) this] obtain ws where
      ws: "moves j (concat ws) k'" "m - 1 \<le> length ws" "length ws \<le> n" "\<forall>w \<in> set ws. P w"
      by blast
    from w(1) ws(1) have "moves k (concat (w # ws)) k'" by (simp add: moves_trans)
    with w ws show ?thesis by (intro exI [of _ "w # ws"]) auto
  qed
qed

text \<open>Repetition bounds are well ordered in every pattern of the program.\<close>

primrec rx_ok :: "rx \<Rightarrow> bool" where
  "rx_ok Eps = True"
| "rx_ok (Cls p) = True"
| "rx_ok (Star p) = True"
| "rx_ok (Cat r s) = (rx_ok r \<and> rx_ok s)"
| "rx_ok (Alt r s) = (rx_ok r \<and> rx_ok s)"
| "rx_ok (Rep m n r) = (m \<le> n \<and> rx_ok r)"
| "rx_ok (NotBehind p) = True"
| "rx_ok (NotAhead p) = True"
| "rx_ok WordB = True"

theorem ends_consumes:
  "rx_ok r \<Longrightarrow> k' \<in> set (ends r k) \<Longrightarrow> \<exists>w. moves k w k' \<and> consumes r w"
proof (induction r arbitrary: k k')
  case (Cat r s)
  then obtain j where j: "j \<in> set (ends r k)" "k' \<in> set (ends s j)" by auto
  with Cat.IH [of j k] Cat.IH(2) [of k' j] Cat.prems obtain v w where
    "moves k v j" "consumes r v" "moves j w k'" "consumes s w" by auto
  then show ?case by (blast intro: moves_trans consumes.Cat)
next
  case (Alt r s)
  from Alt.prems consider "k' \<in> set (ends r k)" | "k' \<in> set (ends s k)" by auto
  then show ?case
    using Alt.IH Alt.prems(1) by cases (fastforce intro: consumes.AltL consumes.AltR)+
next
  case (Rep m n r)
  have "\<exists>ws. moves k (concat ws) k' \<and> m \<le> length ws \<and> length ws \<le> n \<and>
      (\<forall>w \<in> set ws. consumes r w)"
    by (rule rep_ends_moves [of "ends r"]) (use Rep in auto)
  then show ?case by (blast intro: consumes.Rep)
next
  case (Star p)
  then have "\<exists>w. moves k w k' \<and> list_all p w" using star_ends_moves [of k' p "fst k" "snd k"] by simp
  then show ?case by (blast intro: consumes.Star)
next
  case (Cls p)
  then obtain c a where "snd k = c # a" "p c" "k' = (c # fst k, a)"
    by (cases "snd k") (auto split: if_splits)
  then have "moves k [c] k'" "consumes (Cls p) [c]" by (auto simp: moves_def intro: consumes.Cls)
  then show ?case by blast
qed (auto split: list.splits if_splits intro: consumes.intros)


subsection \<open>The matches that \<open>finditer\<close> reports\<close>

lemma moves_take: "moves (b, a) w (b', a') \<Longrightarrow> take (length a - length a') a = w"
  by (simp add: moves_def)

text \<open>
  A reported match is a stretch of the subject at the reported offsets, and the pattern
  consumes it.
\<close>

lemma finditer_from_sound:
  "rx_ok r \<Longrightarrow> (s, e, w) \<in> set (finditer_from r adv (b, a)) \<Longrightarrow>
    \<exists>u v. a = u @ w @ v \<and> s = length b + length u \<and> e = s + length w \<and> consumes r w"
proof (induction r adv "(b, a)" arbitrary: b a rule: finditer_from.induct)
  case (1 r adv b a)
  let ?E = "filter (\<lambda>k. adv \<longrightarrow> length (snd k) < length a) (ends r (b, a))"
  show ?case
  proof (cases ?E)
    case Nil
    with "1.prems"(2) obtain c a' where a: "a = c # a'"
      and m: "(s, e, w) \<in> set (finditer_from r False (c # b, a'))"
      by (cases a) (simp_all add: finditer_from.simps [of r adv b])
    from "1.hyps"(1) [OF Nil a "1.prems"(1) m] obtain u v where
      "a' = u @ w @ v \<and> s = length (c # b) + length u \<and> e = s + length w \<and> consumes r w" by blast
    with a show ?thesis by (intro exI [of _ "c # u"] exI [of _ v]) simp
  next
    case (Cons k ks)
    obtain b' a' where k: "k = (b', a')" by (cases k)
    from Cons k have "(b', a') \<in> set (ends r (b, a))" by (auto dest: filter_eq_ConsD)
    with "1.prems"(1) obtain w' where w': "moves (b, a) w' (b', a')" "consumes r w'"
      using ends_consumes by blast
    note mv = w'(1) [unfolded moves_def, simplified]
    from "1.prems"(2) Cons k consider
      "(s, e, w) = (length b, length b', w')" |
      "length a' < length a" "(s, e, w) \<in> set (finditer_from r False (b', a'))" |
      "\<not> length a' < length a" "(s, e, w) \<in> set (finditer_from r True (b, a))"
      by (auto simp: finditer_from.simps [of r adv b a] moves_take [OF w'(1)] split: if_splits)
    then show ?thesis
    proof cases
      case 1
      with mv w' show ?thesis by (intro exI [of _ "[]"] exI [of _ a']) simp
    next
      case 2
      from "1.hyps"(2) [OF Cons k [symmetric] 2(1) "1.prems"(1) 2(2)] obtain u v where
        "a' = u @ w @ v \<and> s = length b' + length u \<and> e = s + length w \<and> consumes r w" by blast
      with mv show ?thesis by (intro exI [of _ "w' @ u"] exI [of _ v]) simp
    next
      case 3
      from "1.hyps"(3) [OF Cons k [symmetric] 3(1) "1.prems"(1) 3(2)] show ?thesis .
    qed
  qed
qed


lemma finditer_sound:
  assumes "rx_ok r" and "(s, e, w) \<in> set (finditer r t)"
  shows "w = take (e - s) (drop s t)" and "e = s + length w" and "e \<le> length t" and "consumes r w"
  using finditer_from_sound [OF assms(1), of s e w False "[]" t] assms(2)
  by (auto simp: finditer_def)

text \<open>The reported matches come from left to right and do not overlap.\<close>

lemma finditer_from_ordered:
  "rx_ok r \<Longrightarrow> sorted_wrt (\<lambda>x y. fst (snd x) \<le> fst y) (finditer_from r adv (b, a))"
proof (induction r adv "(b, a)" arbitrary: b a rule: finditer_from.induct)
  case (1 r adv b a)
  let ?E = "filter (\<lambda>k. adv \<longrightarrow> length (snd k) < length a) (ends r (b, a))"
  have lower: "length b1 \<le> fst y" if "y \<in> set (finditer_from r d (b1, a1))" for y d b1 a1
    using that finditer_from_sound [of r "fst y" "fst (snd y)" "snd (snd y)" d b1 a1] \<open>rx_ok r\<close>
    by auto
  show ?case
  proof (cases ?E)
    case Nil
    with "1.hyps"(1) [OF Nil] "1.prems" show ?thesis
      by (cases a) (simp_all add: finditer_from.simps [of r adv b])
  next
    case (Cons k ks)
    obtain b' a' where k: "k = (b', a')" by (cases k)
    have "(b', a') \<in> set (ends r (b, a))" using Cons k by (auto dest: filter_eq_ConsD)
    then obtain w where w: "moves (b, a) w (b', a')" using ends_consumes \<open>rx_ok r\<close> by blast
    then have "length a' < length a \<or> b' = b" by (auto simp: moves_def)
    then show ?thesis
      using lower "1.hyps"(2,3) [OF Cons k [symmetric]] "1.prems" Cons k
      by (auto simp: finditer_from.simps [of r adv b a])
  qed
qed

lemma finditer_ordered:
  "rx_ok r \<Longrightarrow> sorted_wrt (\<lambda>x y. fst (snd x) \<le> fst y) (finditer r t)"
  by (simp add: finditer_def finditer_from_ordered)

text \<open>
  Nothing is missed: a place where a pattern that consumes text can match lies inside a
  reported match.
\<close>

lemma finditer_from_complete:
  assumes "rx_ok r" and nonnull: "\<not> consumes r []"
  shows "a = u @ v \<Longrightarrow> ends r (rev u @ b, v) \<noteq> [] \<Longrightarrow>
    \<exists>(s, e, w) \<in> set (finditer_from r False (b, a)). s \<le> length b + length u \<and> length b + length u < e"
proof (induction "length a" arbitrary: a b u rule: less_induct)
  case less
  show ?case
  proof (cases "ends r (b, a)")
    case Nil
    with less.prems obtain c u' where u: "u = c # u'" by (cases u) auto
    with less.prems have a: "a = c # (u' @ v)" by simp
    from less.hyps [of "u' @ v" u' "c # b"] less.prems u a
    have "\<exists>(s, e, w) \<in> set (finditer_from r False (c # b, u' @ v)).
        s \<le> length b + length u \<and> length b + length u < e" by simp
    with Nil a show ?thesis by (simp add: finditer_from.simps [of r False b])
  next
    case (Cons k ks)
    obtain b' a' where k: "k = (b', a')" by (cases k)
    with Cons assms(1) obtain w where w: "moves (b, a) w (b', a')" "consumes r w"
      using ends_consumes [of r k "(b, a)"] by auto
    with nonnull have ne: "w \<noteq> []" by auto
    with w have shorter: "length a' < length a" by (auto simp: moves_def)
    have eq: "finditer_from r False (b, a) = (length b, length b', w) # finditer_from r False (b', a')"
      using Cons k shorter by (simp add: finditer_from.simps [of r False b] moves_take [OF w(1)])
    show ?thesis
    proof (cases "length u < length w")
      case True
      with eq w show ?thesis by (auto simp: moves_def)
    next
      case False
      with w less.prems obtain u' where u: "u = w @ u'" "a' = u' @ v"
        by (auto simp: moves_def append_eq_append_conv_if)
          (metis append_eq_append_conv2 append_eq_conv_conj append_take_drop_id)
      with less.hyps [OF shorter, of u' b'] less.prems w
      have "\<exists>(s, e, w) \<in> set (finditer_from r False (b', a')).
          s \<le> length b' + length u' \<and> length b' + length u' < e" by (simp add: moves_def)
      with eq u w show ?thesis by (simp add: moves_def add.commute add.left_commute)
    qed
  qed
qed

lemma finditer_complete:
  assumes "rx_ok r" and "\<not> consumes r []" and "i \<le> length t"
    and "ends r (rev (take i t), drop i t) \<noteq> []"
  shows "\<exists>(s, e, w) \<in> set (finditer r t). s \<le> i \<and> i < e"
  using finditer_from_complete [OF assms(1,2), of t "take i t" "drop i t" "[]"] assms(3,4)
  by (simp add: finditer_def min_absorb2)

end
