(* ===== verification/Pii.thy ===== *)
theory Pii
  imports Regex
begin

text \<open>
  \<open>app/compliance/pii.py\<close>: the detectors for personal data (Korean resident numbers, cards,
  phone numbers, e-mail addresses), the selection of non-overlapping candidates by detector
  priority, and the replacement of each by a stable placeholder.
\<close>

record normalized_message =
  nm_role :: string
  nm_content :: string

subsection \<open>Patterns\<close>

definition ENABLED_TYPES :: "string list" where
  "ENABLED_TYPES = [''rrn'', ''card'', ''phone'', ''email'']"

definition DETECTOR_PRIORITY :: "string list" where
  "DETECTOR_PRIORITY = [''email'', ''rrn'', ''card'', ''phone'']"

definition email_local :: "char \<Rightarrow> bool" where
  "email_local c \<longleftrightarrow> ascii_letter c \<or> py_isdecimal c \<or> c \<in> set ''._%+-''"

definition email_domain :: "char \<Rightarrow> bool" where
  "email_domain c \<longleftrightarrow> ascii_letter c \<or> py_isdecimal c \<or> c \<in> set ''.-''"

definition EMAIL_RE :: rx where
  "EMAIL_RE = Cat (Plus email_local) (Cat (Lit ''@'') (Cat (Plus email_domain) (Cat (Lit ''.'')
     (Cat (Cls ascii_letter) (Plus ascii_letter)))))"

text \<open>The separators \<open>[-\s]?\<close> and \<open>[- ]?\<close>.\<close>

definition dash_or_space :: "char \<Rightarrow> bool" where
  "dash_or_space c \<longleftrightarrow> c = CHR ''-'' \<or> py_isspace c"

definition dash_or_blank :: "char \<Rightarrow> bool" where
  "dash_or_blank c \<longleftrightarrow> c = CHR ''-'' \<or> c = CHR '' ''"

definition RRN_RE :: rx where
  "RRN_RE = Cat WordB (Cat (Times 2 py_isdecimal) (Cat (Times 2 py_isdecimal)
     (Cat (Times 2 py_isdecimal) (Cat (Opt (Cls dash_or_space))
     (Cat (Cls (\<lambda>c. c \<in> set ''12345678'')) (Cat (Times 6 py_isdecimal) WordB))))))"

definition CARD_RE :: rx where
  "CARD_RE = Cat (NotBehind py_isdecimal)
     (Cat (Rep 12 18 (Cat (Cls py_isdecimal) (Opt (Cls dash_or_blank))))
     (Cat (Cls py_isdecimal) (NotAhead py_isdecimal)))"

definition phone_tail :: rx where
  "phone_tail = Cat (Opt (Cls dash_or_space)) (Cat (Rep 3 4 (Cls py_isdecimal))
     (Cat (Opt (Cls dash_or_space)) (Times 4 py_isdecimal)))"

definition PHONE_RE :: rx where
  "PHONE_RE = Cat (NotBehind py_isdecimal) (Cat
     (Alt
       (Cat (Alt (Cat (Lit ''01'') (Cls (\<lambda>c. c \<in> set ''016789'')))
              (Alt (Lit ''02'') (Cat (Lit ''0'') (Times 2 py_isdecimal)))) phone_tail)
       (Cat (Lit ''+82'') (Cat (Opt (Cls dash_or_space))
         (Cat (Alt (Cat (Lit ''1'') (Cls (\<lambda>c. c \<in> set ''016789'')))
                (Alt (Lit ''2'') (Times 2 py_isdecimal))) phone_tail))))
     (NotAhead py_isdecimal))"

text \<open>A candidate: start, end, detector name, matched text.\<close>

type_synonym candidate = "nat \<times> nat \<times> string \<times> string"

abbreviation c_start :: "candidate \<Rightarrow> nat" where "c_start c \<equiv> fst c"
abbreviation c_end :: "candidate \<Rightarrow> nat" where "c_end c \<equiv> fst (snd c)"
abbreviation c_type :: "candidate \<Rightarrow> string" where "c_type c \<equiv> fst (snd (snd c))"
abbreviation c_raw :: "candidate \<Rightarrow> string" where "c_raw c \<equiv> snd (snd (snd c))"

subsection \<open>Validators\<close>

text \<open>\<open>datetime.date(y, m, d)\<close> raises \<open>ValueError\<close> exactly when this is false.\<close>

definition leap_year :: "nat \<Rightarrow> bool" where
  "leap_year y \<longleftrightarrow> y mod 4 = 0 \<and> (y mod 100 \<noteq> 0 \<or> y mod 400 = 0)"

definition days_in_month :: "nat \<Rightarrow> nat \<Rightarrow> nat" where
  "days_in_month y m =
     (if m = 2 then (if leap_year y then 29 else 28)
      else if m \<in> {4, 6, 9, 11} then 30 else 31)"

definition date_ok :: "nat \<Rightarrow> nat \<Rightarrow> nat \<Rightarrow> bool" where
  "date_ok y m d \<longleftrightarrow> 1 \<le> y \<and> y \<le> 9999 \<and> 1 \<le> m \<and> m \<le> 12 \<and> 1 \<le> d \<and> d \<le> days_in_month y m"

text \<open>
  \<open>tail\<close> is always the seven digits of the pattern's last group, so \<open>tail[0]\<close> is defined;
  \<open>int\<close> raises \<open>ValueError\<close>, which the code catches together with that of \<open>date\<close>.
\<close>

definition valid_rrn_date :: "string \<Rightarrow> string \<Rightarrow> string \<Rightarrow> string \<Rightarrow> bool" where
  "valid_rrn_date year month day tail =
     (case tail of [] \<Rightarrow> False | gender_digit # _ \<Rightarrow>
        let century = (if gender_digit \<in> set ''1256'' then 1900 else 2000) in
        (case (py_int_digits year, py_int_digits month, py_int_digits day) of
           (Some y, Some m, Some d) \<Rightarrow> date_ok (century + y) m d
         | _ \<Rightarrow> False))"

fun luhn_total :: "nat \<Rightarrow> nat list \<Rightarrow> nat" where
  "luhn_total index [] = 0"
| "luhn_total index (digit # rest) =
     (if index mod 2 = 1 then (let d = 2 * digit in if d > 9 then d - 9 else d) else digit) +
     luhn_total (Suc index) rest"

definition luhn_valid :: "string \<Rightarrow> bool" where
  "luhn_valid value = (luhn_total 0 (map digit_val (rev value)) mod 10 = 0)"

subsection \<open>Detectors\<close>

text \<open>The four capture groups of \<open>RRN_RE\<close>: three pairs of digits and the last seven digits.\<close>

definition rrn_candidates :: "string \<Rightarrow> candidate list" where
  "rrn_candidates text =
     map (\<lambda>(s, e, w). (s, e, ''rrn'', w))
       (filter (\<lambda>(s, e, w). valid_rrn_date (take 2 w) (take 2 (drop 2 w)) (take 2 (drop 4 w))
                              (drop (length w - 7) w))
         (finditer RRN_RE text))"

definition card_digits :: "string \<Rightarrow> string" where
  "card_digits w = filter (\<lambda>c. \<not> dash_or_blank c) w"

definition card_candidates :: "string \<Rightarrow> candidate list" where
  "card_candidates text =
     map (\<lambda>(s, e, w). (s, e, ''card'', w))
       (filter (\<lambda>(s, e, w). let digits = card_digits w in
                  13 \<le> length digits \<and> length digits \<le> 19 \<and> luhn_valid digits)
         (finditer CARD_RE text))"

definition phone_candidates :: "string \<Rightarrow> candidate list" where
  "phone_candidates text = map (\<lambda>(s, e, w). (s, e, ''phone'', w)) (finditer PHONE_RE text)"

definition email_candidates :: "string \<Rightarrow> candidate list" where
  "email_candidates text = map (\<lambda>(s, e, w). (s, e, ''email'', w)) (finditer EMAIL_RE text)"

text \<open>\<open>DETECTORS[pii_type](text)\<close>; the keys are those of \<open>DETECTOR_PRIORITY\<close>.\<close>

definition DETECTORS :: "(string, string \<Rightarrow> candidate list) dict" where
  "DETECTORS = [(''email'', email_candidates), (''rrn'', rrn_candidates),
     (''card'', card_candidates), (''phone'', phone_candidates)]"

definition detect :: "string \<Rightarrow> string \<Rightarrow> candidate list" where
  "detect pii_type text = (case map_of DETECTORS pii_type of None \<Rightarrow> [] | Some f \<Rightarrow> f text)"

definition overlaps :: "candidate \<Rightarrow> candidate list \<Rightarrow> bool" where
  "overlaps c accepted = list_ex (\<lambda>a. c_start c < c_end a \<and> c_start a < c_end c) accepted"

fun accept_all :: "candidate list \<Rightarrow> candidate list \<Rightarrow> candidate list" where
  "accept_all accepted [] = accepted"
| "accept_all accepted (c # cs) =
     (if overlaps c accepted then accept_all accepted cs else accept_all (accepted @ [c]) cs)"

fun collect_loop :: "string \<Rightarrow> string list \<Rightarrow> string list \<Rightarrow> candidate list \<Rightarrow> candidate list" where
  "collect_loop text enabled [] accepted = accepted"
| "collect_loop text enabled (t # ts) accepted =
     collect_loop text enabled ts
       (if t \<in> set enabled then accept_all accepted (detect t text) else accepted)"

definition collect_candidates :: "string \<Rightarrow> string list \<Rightarrow> candidate list" where
  "collect_candidates text enabled = collect_loop text enabled DETECTOR_PRIORITY []"

subsection \<open>Replacement\<close>

text \<open>The three dictionaries that one request threads through all its messages.\<close>

record mask_state =
  counts :: "(string, nat) dict"
  next_indexes :: "(string, nat) dict"
  placeholders :: "(string \<times> string, string) dict"

definition empty_mask :: mask_state where
  "empty_mask = \<lparr>counts = [], next_indexes = [], placeholders = []\<rparr>"

definition ascii_upper_of :: "char \<Rightarrow> char" where
  "ascii_upper_of c = (if ascii_lower c then char_of (code c - 32) else c)"

text \<open>\<open>f"[REDACTED:{pii_type.upper()}:{index}]"\<close> (the detector names are ASCII).\<close>

definition placeholder :: "string \<Rightarrow> nat \<Rightarrow> string" where
  "placeholder pii_type index =
     ''[REDACTED:'' @ map ascii_upper_of pii_type @ '':'' @ nat_str index @ '']''"

definition assign_one :: "candidate \<Rightarrow> mask_state \<Rightarrow> mask_state" where
  "assign_one c st =
     (let t = c_type c; key = (t, c_raw c);
          st1 = st\<lparr>counts := AList.update t
                    ((case map_of (counts st) t of None \<Rightarrow> 0 | Some n \<Rightarrow> n) + 1) (counts st)\<rparr>
      in if map_of (placeholders st1) key \<noteq> None then st1
         else let index = (case map_of (next_indexes st1) t of None \<Rightarrow> 0 | Some n \<Rightarrow> n) + 1
              in st1\<lparr>next_indexes := AList.update t index (next_indexes st1),
                     placeholders := AList.update key (placeholder t index) (placeholders st1)\<rparr>)"

fun replace_loop :: "(string \<times> string, string) dict \<Rightarrow> candidate list \<Rightarrow> string \<Rightarrow> py_error + string" where
  "replace_loop ph [] masked = Inr masked"
| "replace_loop ph (c # cs) masked =
     (case map_of ph (c_type c, c_raw c) of
        None \<Rightarrow> Inl KeyError
      | Some p \<Rightarrow> replace_loop ph cs (take (c_start c) masked @ p @ drop (c_end c) masked))"

text \<open>\<open>sorted(.., key, reverse=True)\<close> keeps the order of equal elements: it reverses twice.\<close>

definition apply_mask :: "string \<Rightarrow> candidate list \<Rightarrow> mask_state \<Rightarrow> py_error + (string \<times> mask_state)" where
  "apply_mask text candidates st =
     (let st1 = fold assign_one (sort_key c_start candidates) st
      in case replace_loop (placeholders st1) (rev (sort_key c_start (rev candidates))) text of
           Inl e \<Rightarrow> Inl e
         | Inr masked \<Rightarrow> Inr (masked, st1))"

definition enabled_of :: "string list \<Rightarrow> string list" where
  "enabled_of enabled_types = filter (\<lambda>t. t \<in> set ENABLED_TYPES) enabled_types"

definition mask_text :: "string \<Rightarrow> string list \<Rightarrow> py_error + (string \<times> (string, nat) dict)" where
  "mask_text text enabled_types =
     (let enabled = enabled_of enabled_types in
      if enabled = [] then Inr (text, [])
      else let candidates = collect_candidates text enabled in
        if candidates = [] then Inr (text, [])
        else (case apply_mask text candidates empty_mask of
                Inl e \<Rightarrow> Inl e
              | Inr (masked, st) \<Rightarrow> Inr (masked, counts st)))"

fun mask_loop :: "string list \<Rightarrow> normalized_message list \<Rightarrow> mask_state \<Rightarrow>
    py_error + (normalized_message list \<times> mask_state)" where
  "mask_loop enabled [] st = Inr ([], st)"
| "mask_loop enabled (m # ms) st =
     (let candidates = collect_candidates (nm_content m) enabled in
      case (if candidates = [] then Inr (nm_content m, st)
            else apply_mask (nm_content m) candidates st) of
        Inl e \<Rightarrow> Inl e
      | Inr (masked, st1) \<Rightarrow>
          (case mask_loop enabled ms st1 of
             Inl e \<Rightarrow> Inl e
           | Inr (rest, st2) \<Rightarrow> Inr (\<lparr>nm_role = nm_role m, nm_content = masked\<rparr> # rest, st2)))"

definition mask_messages :: "normalized_message list \<Rightarrow> string list \<Rightarrow>
    py_error + (normalized_message list \<times> (string, nat) dict)" where
  "mask_messages messages enabled_types =
     (let enabled = enabled_of enabled_types in
      if enabled = []
      then Inr (map (\<lambda>m. \<lparr>nm_role = nm_role m, nm_content = nm_content m\<rparr>) messages, [])
      else (case mask_loop enabled messages empty_mask of
              Inl e \<Rightarrow> Inl e
            | Inr (masked, st) \<Rightarrow> Inr (masked, counts st)))"


subsection \<open>The patterns\<close>

lemma pii_rx_ok [simp]: "rx_ok EMAIL_RE" "rx_ok RRN_RE" "rx_ok CARD_RE" "rx_ok PHONE_RE"
  by (simp_all add: EMAIL_RE_def RRN_RE_def CARD_RE_def PHONE_RE_def phone_tail_def)

lemma consumes_Plus: "consumes (Plus p) w \<Longrightarrow> w \<noteq> [] \<and> list_all p w"
  by (auto simp: consumes_simps)

lemma consumes_email:
  assumes "consumes EMAIL_RE w"
  shows "\<exists>l d t. w = l @ ''@'' @ d @ ''.'' @ t \<and> l \<noteq> [] \<and> list_all email_local l \<and>
    d \<noteq> [] \<and> list_all email_domain d \<and> 2 \<le> length t \<and> list_all ascii_letter t"
proof -
  note cat = consumes_simps(4)
  from assms obtain l d c t where w: "w = l @ ''@'' @ d @ ''.'' @ [c] @ t"
    "consumes (Plus email_local) l" "consumes (Plus email_domain) d"
    "ascii_letter c" "consumes (Plus ascii_letter) t"
    unfolding EMAIL_RE_def cat [of "Plus email_local"] cat [of "Plus email_domain"]
      cat [of "Lit _"] cat [of "Cls ascii_letter" "Plus ascii_letter"] consumes_Lit consumes_simps(2)
    by blast
  note plus = w(2,3,5) [THEN consumes_Plus]
  from plus have "2 \<le> length ([c] @ t)" by (cases t) auto
  with w plus show ?thesis
    by (intro exI [of _ l] exI [of _ d] exI [of _ "[c] @ t"]) simp
qed

text \<open>A resident number: six digits, an optional separator, a digit 1 to 8 and six more digits.\<close>

lemma consumes_rrn:
  assumes "consumes RRN_RE w"
  shows "\<exists>b s g d. w = b @ s @ g # d \<and> length b = 6 \<and> list_all py_isdecimal b \<and>
    length s \<le> 1 \<and> list_all dash_or_space s \<and> g \<in> set ''12345678'' \<and>
    length d = 6 \<and> list_all py_isdecimal d"
proof -
  from assms obtain x y z s g d where
    "w = x @ y @ z @ s @ g # d" "length x = 2" "length y = 2" "length z = 2" "length s \<le> 1"
    "length d = 6" "list_all py_isdecimal (x @ y @ z)" "list_all dash_or_space s"
    "g \<in> set ''12345678''" "list_all py_isdecimal d"
    unfolding RRN_RE_def consumes_simps consumes_Rep_Cls by auto
  then show ?thesis
    by (intro exI [of _ "x @ y @ z"] exI [of _ s] exI [of _ g] exI [of _ d]) simp
qed

lemma decimal_not_separator: "py_isdecimal c \<Longrightarrow> \<not> dash_or_blank c"
  by (auto simp: py_isdecimal_def dash_or_blank_def)

lemma card_digits_unit:
  assumes "consumes (Cat (Cls py_isdecimal) (Opt (Cls dash_or_blank))) w"
  shows "\<exists>c. card_digits w = [c] \<and> py_isdecimal c"
proof -
  from assms obtain c s where "w = c # s" "py_isdecimal c" "list_all dash_or_blank s"
    by (auto simp: consumes_simps)
  then show ?thesis
    by (simp add: card_digits_def decimal_not_separator list_all_iff filter_empty_conv)
qed

lemma card_digits_units:
  "\<forall>u \<in> set us. consumes (Cat (Cls py_isdecimal) (Opt (Cls dash_or_blank))) u \<Longrightarrow>
    length (card_digits (concat us)) = length us \<and> list_all py_isdecimal (card_digits (concat us))"
proof (induction us)
  case (Cons u us)
  moreover have "card_digits (u @ concat us) = card_digits u @ card_digits (concat us)"
    by (simp add: card_digits_def)
  ultimately show ?case using card_digits_unit [of u] by auto
qed (simp add: card_digits_def)

text \<open>A card match holds 13 to 19 digits, so the code's length test never rejects one.\<close>

lemma consumes_card:
  assumes "consumes CARD_RE w"
  shows "13 \<le> length (card_digits w) \<and> length (card_digits w) \<le> 19 \<and>
    list_all py_isdecimal (card_digits w)"
proof -
  let ?u = "Cat (Cls py_isdecimal) (Opt (Cls dash_or_blank))"
  from assms obtain v c where v: "consumes (Rep 12 18 ?u) v" and w: "w = v @ [c]" "py_isdecimal c"
    unfolding CARD_RE_def by (auto simp: consumes_simps(2-8))
  from v obtain us where us: "v = concat us" "12 \<le> length us" "length us \<le> 18"
    "\<forall>u \<in> set us. consumes ?u u" by (rule consumes_RepE) blast
  moreover have "card_digits w = card_digits v @ [c]"
    using w by (simp add: card_digits_def decimal_not_separator)
  ultimately show ?thesis using card_digits_units [OF us(4)] w(2) by simp
qed

lemma consumes_phone_nonempty: "consumes PHONE_RE w \<Longrightarrow> w \<noteq> []"
  unfolding PHONE_RE_def phone_tail_def consumes_simps consumes_Rep_Cls by auto

lemma pii_nonnull: "\<not> consumes EMAIL_RE []" "\<not> consumes RRN_RE []" "\<not> consumes CARD_RE []"
  "\<not> consumes PHONE_RE []"
  using consumes_email [of "[]"] consumes_rrn [of "[]"] consumes_card [of "[]"]
    consumes_phone_nonempty [of "[]"] by (auto simp: card_digits_def)

subsection \<open>Candidates\<close>

text \<open>A candidate is a non-empty stretch of the text at its offsets.\<close>

definition cand_ok :: "string \<Rightarrow> candidate \<Rightarrow> bool" where
  "cand_ok t c \<longleftrightarrow> c_start c < c_end c \<and> c_end c \<le> length t \<and>
     c_raw c = take (c_end c - c_start c) (drop (c_start c) t)"

definition apart :: "candidate \<Rightarrow> candidate \<Rightarrow> bool" where
  "apart a b \<longleftrightarrow> c_end a \<le> c_start b \<or> c_end b \<le> c_start a"

lemma apart_sym: "apart a b = apart b a"
  by (auto simp: apart_def)

lemma overlaps_iff: "overlaps c acc \<longleftrightarrow> (\<exists>a \<in> set acc. \<not> apart c a)"
  by (simp add: overlaps_def apart_def list_ex_iff not_le conj_commute)

lemma not_apart_self: "cand_ok t c \<Longrightarrow> \<not> apart c c"
  by (simp add: apart_def cand_ok_def)

lemma map_of_DETECTORS [simp]:
  "map_of DETECTORS ''email'' = Some email_candidates" "map_of DETECTORS ''rrn'' = Some rrn_candidates"
  "map_of DETECTORS ''card'' = Some card_candidates" "map_of DETECTORS ''phone'' = Some phone_candidates"
  by (simp_all add: DETECTORS_def)

text \<open>Every detector filters the matches of its pattern and tags them with its name.\<close>

lemma detect_from:
  assumes "t \<in> set DETECTOR_PRIORITY"
  shows "\<exists>r P. rx_ok r \<and> \<not> consumes r [] \<and>
    detect t text = map (\<lambda>(s, e, w). (s, e, t, w)) (filter P (finditer r text))"
proof -
  from assms consider "t = ''email''" | "t = ''rrn''" | "t = ''card''" | "t = ''phone''"
    by (auto simp: DETECTOR_PRIORITY_def)
  then show ?thesis
  proof cases
    case 1
    then show ?thesis
      by (intro exI [of _ EMAIL_RE] exI [of _ "\<lambda>_. True"])
        (simp add: detect_def email_candidates_def pii_nonnull)
  next
    case 2
    then show ?thesis
      unfolding detect_def by (intro exI [of _ RRN_RE] exI) (simp add: rrn_candidates_def pii_nonnull)
  next
    case 3
    then show ?thesis
      unfolding detect_def by (intro exI [of _ CARD_RE] exI) (simp add: card_candidates_def pii_nonnull)
  next
    case 4
    then show ?thesis
      by (intro exI [of _ PHONE_RE] exI [of _ "\<lambda>_. True"])
        (simp add: detect_def phone_candidates_def pii_nonnull)
  qed
qed

lemma detect_ok:
  assumes "t \<in> set DETECTOR_PRIORITY" and "c \<in> set (detect t text)"
  shows "cand_ok text c" and "c_type c = t"
proof -
  from detect_from [OF assms(1)] obtain r P where r: "rx_ok r" "\<not> consumes r []"
    and d: "detect t text = map (\<lambda>(s, e, w). (s, e, t, w)) (filter P (finditer r text))" by metis
  from assms(2) d obtain s e w where c: "c = (s, e, t, w)" and m: "(s, e, w) \<in> set (finditer r text)"
    by auto
  note f = finditer_sound [OF r(1) m]
  from f(4) r(2) have "w \<noteq> []" by auto
  with f c show "cand_ok text c" "c_type c = t" by (auto simp: cand_ok_def)
qed

text \<open>Candidates of one detector do not overlap each other.\<close>

lemma detect_apart:
  assumes "t \<in> set DETECTOR_PRIORITY"
  shows "sorted_wrt apart (detect t text)"
proof -
  from detect_from [OF assms] obtain r P where r: "rx_ok r"
    and d: "detect t text = map (\<lambda>(s, e, w). (s, e, t, w)) (filter P (finditer r text))" by metis
  have "sorted_wrt (\<lambda>x y. fst (snd x) \<le> fst y) (filter P (finditer r text))"
    by (intro sorted_wrt_filter finditer_ordered r)
  then show ?thesis
    unfolding d sorted_wrt_map by (rule sorted_wrt_mono_rel [rotated]) (auto simp: apart_def)
qed

subsection \<open>Selecting non-overlapping candidates\<close>

lemma set_accept_all: "set (accept_all acc cs) \<subseteq> set acc \<union> set cs"
  by (induction acc cs rule: accept_all.induct) auto

lemma accept_all_mono: "set acc \<subseteq> set (accept_all acc cs)"
  by (induction acc cs rule: accept_all.induct) auto

lemma accept_all_apart: "sorted_wrt apart acc \<Longrightarrow> sorted_wrt apart (accept_all acc cs)"
  by (induction acc cs rule: accept_all.induct)
    (auto simp: sorted_wrt_append overlaps_iff apart_sym)

text \<open>A rejected candidate overlaps one that had been accepted before.\<close>

lemma accept_all_rejected:
  assumes "sorted_wrt apart cs" and "c \<in> set cs" and "c \<notin> set (accept_all acc cs)"
  shows "\<exists>a \<in> set acc. \<not> apart c a"
  using assms
proof (induction acc cs rule: accept_all.induct)
  case (2 acc d cs)
  have d: "d \<in> set (accept_all (acc @ [d]) cs)" using accept_all_mono [of "acc @ [d]" cs] by simp
  show ?case
  proof (cases "overlaps d acc")
    case True
    with 2 show ?thesis by (auto simp: overlaps_iff)
  next
    case False
    with "2.prems" d have "c \<noteq> d" and c: "c \<in> set cs" by auto
    with "2.prems" have "apart c d" by (auto simp: apart_sym)
    with "2.IH"(2) [OF False] "2.prems" c False show ?thesis by auto
  qed
qed simp

text \<open>The types still to come, and what the loop has accepted so far.\<close>

lemma collect_loop_keeps: "set acc \<subseteq> set (collect_loop text en ts acc)"
proof (induction ts arbitrary: acc)
  case (Cons t ts)
  show ?case
    using Cons.IH [of "if t \<in> set en then accept_all acc (detect t text) else acc"]
      accept_all_mono [of acc "detect t text"] by (auto split: if_splits)
qed simp

lemma collect_loop_append:
  "collect_loop text en (us @ vs) acc = collect_loop text en vs (collect_loop text en us acc)"
  by (induction us arbitrary: acc) auto

lemma collect_loop_from:
  "c \<in> set (collect_loop text en ts acc) \<Longrightarrow>
    c \<in> set acc \<or> (\<exists>t \<in> set ts. t \<in> set en \<and> c \<in> set (detect t text))"
  by (induction ts arbitrary: acc) (use set_accept_all in \<open>fastforce split: if_splits\<close>)+

lemma collect_loop_apart:
  "sorted_wrt apart acc \<Longrightarrow> sorted_wrt apart (collect_loop text en ts acc)"
  by (induction ts arbitrary: acc) (auto intro: accept_all_apart)

lemma collect_loop_rejected:
  assumes "c \<in> set (detect t text)" and "t \<in> set en" and "set (us @ t # vs) \<subseteq> set DETECTOR_PRIORITY"
    and "c \<notin> set (collect_loop text en (us @ t # vs) acc)"
  shows "\<exists>a \<in> set (collect_loop text en us acc). \<not> apart c a"
  using assms
proof (induction us arbitrary: acc)
  case Nil
  have "c \<notin> set (accept_all acc (detect t text))"
    using Nil collect_loop_keeps [of "accept_all acc (detect t text)" "text" en vs] by auto
  with Nil have "\<exists>a \<in> set acc. \<not> apart c a"
    by (intro accept_all_rejected [OF detect_apart, of t c "text"]) auto
  then show ?case by simp
next
  case (Cons u us)
  then show ?case by simp
qed


lemma collect_ok:
  assumes "c \<in> set (collect_candidates text en)"
  shows "cand_ok text c" and "c_type c \<in> set en" and "c_type c \<in> set DETECTOR_PRIORITY"
    and "c \<in> set (detect (c_type c) text)"
proof -
  from assms obtain t where "t \<in> set DETECTOR_PRIORITY" "t \<in> set en" "c \<in> set (detect t text)"
    unfolding collect_candidates_def using collect_loop_from by fastforce
  with detect_ok show "cand_ok text c" "c_type c \<in> set en" "c_type c \<in> set DETECTOR_PRIORITY"
    "c \<in> set (detect (c_type c) text)" by auto
qed

lemma collect_apart: "sorted_wrt apart (collect_candidates text en)"
  by (simp add: collect_candidates_def collect_loop_apart)

lemma collect_pairwise:
  assumes "a \<in> set (collect_candidates text en)" and "b \<in> set (collect_candidates text en)" and "a \<noteq> b"
  shows "apart a b"
proof -
  have "sorted_wrt apart cs \<Longrightarrow> a \<in> set cs \<Longrightarrow> b \<in> set cs \<Longrightarrow> a \<noteq> b \<Longrightarrow> apart a b" for cs
    by (induction cs) (auto simp: apart_sym)
  with collect_apart assms show ?thesis by blast
qed

text \<open>The rank of a detector: 0 is the strongest.\<close>

definition detector_rank :: "string \<Rightarrow> nat" where
  "detector_rank t = length (takeWhile (\<lambda>x. x \<noteq> t) DETECTOR_PRIORITY)"

lemma rank_before:
  assumes "DETECTOR_PRIORITY = us @ t # vs" and "u \<in> set us"
  shows "detector_rank u < detector_rank t"
proof -
  have d: "distinct (us @ t # vs)" by (simp add: DETECTOR_PRIORITY_def flip: assms(1))
  with assms(2) obtain xs ys where us: "us = xs @ u # ys" by (meson split_list)
  with d have "u \<notin> set xs" "t \<notin> set us" by auto
  moreover from this have "takeWhile (\<lambda>x. x \<noteq> u) (us @ t # vs) = xs"
    and "takeWhile (\<lambda>x. x \<noteq> t) (us @ t # vs) = us"
    using us by (auto intro!: takeWhile_tail simp: takeWhile_append2 takeWhile_append)
  ultimately show ?thesis using us by (simp add: detector_rank_def assms(1))
qed

lemma collect_dropped:
  assumes "c \<in> set (detect t text)" and "t \<in> set en" and "t \<in> set DETECTOR_PRIORITY"
    and "c \<notin> set (collect_candidates text en)"
  shows "\<exists>a \<in> set (collect_candidates text en).
    \<not> apart c a \<and> detector_rank (c_type a) < detector_rank t"
proof -
  from assms(3) obtain us vs where p: "DETECTOR_PRIORITY = us @ t # vs" by (meson split_list)
  with collect_loop_rejected [OF assms(1,2), of us vs "[]"] assms(4)
  obtain a where a: "a \<in> set (collect_loop text en us [])" "\<not> apart c a"
    by (auto simp: collect_candidates_def)
  from collect_loop_from [OF a(1)] obtain u where u: "u \<in> set us" "a \<in> set (detect u text)" by auto
  have "u \<in> set DETECTOR_PRIORITY" unfolding p using u(1) by auto
  from detect_ok(2) [OF this u(2)] have "c_type a = u" .
  moreover have "a \<in> set (collect_candidates text en)"
    unfolding collect_candidates_def p collect_loop_append using a(1) collect_loop_keeps by blast
  ultimately show ?thesis using a rank_before [OF p u(1)] by auto
qed

subsection \<open>Replacing from the right is rendering from the left\<close>

text \<open>
  The reference: copy the text between the candidates, write the placeholder for each.
\<close>

fun render :: "(string \<times> string \<Rightarrow> string) \<Rightarrow> string \<Rightarrow> nat \<Rightarrow> candidate list \<Rightarrow> string" where
  "render ph t i [] = drop i t"
| "render ph t i (c # cs) =
     take (c_start c - i) (drop i t) @ ph (c_type c, c_raw c) @ render ph t (c_end c) cs"

text \<open>Candidates in text order from offset \<open>i\<close> on.\<close>

fun laid_out :: "nat \<Rightarrow> nat \<Rightarrow> candidate list \<Rightarrow> bool" where
  "laid_out n i [] = (i \<le> n)"
| "laid_out n i (c # cs) = (i \<le> c_start c \<and> c_start c \<le> c_end c \<and> laid_out n (c_end c) cs)"

lemma laid_out_le: "laid_out n i cs \<Longrightarrow> i \<le> n"
  by (induction cs arbitrary: i) fastforce+

lemma replace_loop_snoc:
  "replace_loop ph (xs @ [c]) m =
     (case replace_loop ph xs m of Inl e \<Rightarrow> Inl e | Inr m' \<Rightarrow> replace_loop ph [c] m')"
  by (induction ph xs m rule: replace_loop.induct) (auto split: option.splits)

lemma replace_loop_render:
  assumes "laid_out (length t) i cs" and "\<forall>c \<in> set cs. map_of ph (c_type c, c_raw c) \<noteq> None"
  shows "replace_loop ph (rev cs) t = Inr (take i t @ render (\<lambda>k. the (map_of ph k)) t i cs)"
  using assms
proof (induction cs arbitrary: i)
  case (Cons c cs)
  then have bounds: "i \<le> c_start c" "c_start c \<le> c_end c" "c_end c \<le> length t"
    by (auto dest: laid_out_le)
  from Cons obtain p where p: "map_of ph (c_type c, c_raw c) = Some p" by auto
  have split: "take i t @ take (c_start c - i) (drop i t) = take (c_start c) t"
    using bounds(1) by (metis le_add_diff_inverse take_add)
  from Cons.IH [of "c_end c"] Cons.prems have "replace_loop ph (rev cs) t =
      Inr (take (c_end c) t @ render (\<lambda>k. the (map_of ph k)) t (c_end c) cs)" by simp
  with p bounds show ?case
    by (simp add: replace_loop_snoc min_absorb1 flip: split)
qed simp


lemma collect_distinct: "distinct (collect_candidates text en)"
proof -
  have "sorted_wrt apart cs \<Longrightarrow> \<forall>c \<in> set cs. \<not> apart c c \<Longrightarrow> distinct cs" for cs
    by (induction cs) auto
  with collect_apart collect_ok(1) not_apart_self show ?thesis by blast
qed

lemma collect_inj_start: "inj_on c_start (set (collect_candidates text en))"
proof (rule inj_onI, rule ccontr)
  fix a b assume ab: "a \<in> set (collect_candidates text en)" "b \<in> set (collect_candidates text en)"
    "c_start a = c_start b" "a \<noteq> b"
  then have "apart a b" by (intro collect_pairwise)
  with ab collect_ok(1) [OF ab(1)] collect_ok(1) [OF ab(2)] show False
    by (auto simp: apart_def cand_ok_def)
qed

text \<open>The selected candidates in text order.\<close>

definition selected :: "string \<Rightarrow> string list \<Rightarrow> candidate list" where
  "selected text en = sort_key c_start (collect_candidates text en)"

lemma set_selected [simp]: "set (selected text en) = set (collect_candidates text en)"
  by (simp add: selected_def)

lemma mset_selected: "mset (selected text en) = mset (collect_candidates text en)"
  by (simp add: selected_def)

lemma selected_rev: "sort_key c_start (rev (collect_candidates text en)) = selected text en"
  unfolding selected_def by (rule sort_key_inj) (simp_all add: collect_distinct collect_inj_start)

lemma laid_out_sorted:
  assumes "sorted (map c_start cs)" and "\<forall>c \<in> set cs. cand_ok t c" and "i \<le> length t"
    and "\<forall>c \<in> set cs. i \<le> c_start c" and "sorted_wrt apart cs"
  shows "laid_out (length t) i cs"
  using assms
proof (induction cs arbitrary: i)
  case (Cons c cs)
  have "c_end c \<le> c_start d" if "d \<in> set cs" for d
    using Cons.prems that by (force simp: apart_def cand_ok_def)
  with Cons show ?case by (auto simp: cand_ok_def)
qed simp

lemma selected_laid_out: "laid_out (length text) 0 (selected text en)"
proof (rule laid_out_sorted)
  show "sorted_wrt apart (selected text en)"
    by (rule pairwise_sorted_wrt) (simp_all add: collect_pairwise, simp add: selected_def collect_distinct)
qed (auto simp: selected_def collect_ok)

subsection \<open>Placeholders\<close>

text \<open>The upper-case detector names hold no colon and are all different.\<close>

lemma upper_no_colon: "t \<in> set DETECTOR_PRIORITY \<Longrightarrow> CHR '':'' \<notin> set (map ascii_upper_of t)"
proof -
  have "list_all (\<lambda>t. CHR '':'' \<notin> set (map ascii_upper_of t)) DETECTOR_PRIORITY" by code_simp
  then show "t \<in> set DETECTOR_PRIORITY \<Longrightarrow> CHR '':'' \<notin> set (map ascii_upper_of t)"
    unfolding list_all_iff by blast
qed

lemma upper_inject:
  assumes "t \<in> set DETECTOR_PRIORITY" and "u \<in> set DETECTOR_PRIORITY"
    and "map ascii_upper_of t = map ascii_upper_of u"
  shows "t = u"
proof -
  have "list_all (\<lambda>t. list_all (\<lambda>u. map ascii_upper_of t = map ascii_upper_of u \<longrightarrow> t = u)
      DETECTOR_PRIORITY) DETECTOR_PRIORITY" by code_simp
  then show ?thesis using assms unfolding list_all_iff by blast
qed

definition next_index :: "mask_state \<Rightarrow> string \<Rightarrow> nat" where
  "next_index st t = (case map_of (next_indexes st) t of None \<Rightarrow> 0 | Some n \<Rightarrow> n)"

text \<open>
  What holds of the three dictionaries between any two steps: a placeholder is made of its
  value's type and an index already handed out for that type, and no two values share one.
\<close>

definition mask_inv :: "mask_state \<Rightarrow> bool" where
  "mask_inv st \<longleftrightarrow>
     (\<forall>t r p. map_of (placeholders st) (t, r) = Some p \<longrightarrow> t \<in> set DETECTOR_PRIORITY \<and>
        (\<exists>i. 1 \<le> i \<and> i \<le> next_index st t \<and> p = placeholder t i)) \<and>
     (\<forall>k k' p. map_of (placeholders st) k = Some p \<and> map_of (placeholders st) k' = Some p \<longrightarrow> k = k')"

lemma placeholder_inject:
  assumes "t \<in> set DETECTOR_PRIORITY" and "u \<in> set DETECTOR_PRIORITY"
  shows "placeholder t i = placeholder u j \<longleftrightarrow> t = u \<and> i = j"
proof -
  let ?up = "map ascii_upper_of"
  have colon: "CHR '':'' \<notin> set (nat_str i)"
    using nat_str_decimal [of "CHR '':''" i] by (auto simp: py_isdecimal_def)
  have "placeholder t i = placeholder u j \<longleftrightarrow>
      ?up t @ CHR '':'' # (nat_str i @ '']'') = ?up u @ CHR '':'' # (nat_str j @ '']'')"
    by (simp add: placeholder_def)
  also have "\<dots> \<longleftrightarrow> ?up t = ?up u \<and> nat_str i @ '']'' = nat_str j @ '']''"
    by (rule append_Cons_eq_iff) (use assms upper_no_colon colon in auto)
  finally show ?thesis using upper_inject [OF assms] by auto
qed

lemma mask_inv_empty [simp]: "mask_inv empty_mask"
  by (simp add: mask_inv_def empty_mask_def)

text \<open>One assignment, for a value seen before and for a new one.\<close>

lemma assign_one_known:
  assumes "map_of (placeholders st) (t, r) \<noteq> None"
  shows "placeholders (assign_one (s, e, t, r) st) = placeholders st"
    and "next_index (assign_one (s, e, t, r) st) = next_index st"
  using assms by (auto simp: assign_one_def Let_def next_index_def)

lemma assign_one_fresh:
  assumes "map_of (placeholders st) (t, r) = None"
  shows "map_of (placeholders (assign_one (s, e, t, r) st)) =
      (map_of (placeholders st))((t, r) \<mapsto> placeholder t (Suc (next_index st t)))"
    and "next_index (assign_one (s, e, t, r) st) = (next_index st)(t := Suc (next_index st t))"
  using assms by (auto simp: assign_one_def Let_def next_index_def)

lemma mask_inv_fresh:
  assumes "mask_inv st" and "t \<in> set DETECTOR_PRIORITY"
  shows "map_of (placeholders st) k \<noteq> Some (placeholder t (Suc (next_index st t)))"
proof
  assume *: "map_of (placeholders st) k = Some (placeholder t (Suc (next_index st t)))"
  obtain u r where k: "k = (u, r)" by (cases k)
  with * assms(1) obtain i where "u \<in> set DETECTOR_PRIORITY" "i \<le> next_index st u"
    "placeholder t (Suc (next_index st t)) = placeholder u i" unfolding mask_inv_def by blast
  with assms(2) show False by (auto simp: placeholder_inject)
qed

lemma assign_one_inv:
  assumes inv: "mask_inv st" and t: "t \<in> set DETECTOR_PRIORITY"
  shows "mask_inv (assign_one (s, e, t, r) st)"
proof (cases "map_of (placeholders st) (t, r)")
  case None
  note fr = assign_one_fresh [OF None]
  show ?thesis
    unfolding mask_inv_def fr
  proof (intro conjI allI impI)
    fix u q p assume "((map_of (placeholders st))((t, r) \<mapsto> placeholder t (Suc (next_index st t)))) (u, q) = Some p"
    then consider "u = t" "p = placeholder t (Suc (next_index st t))" | "map_of (placeholders st) (u, q) = Some p"
      by (cases "(u, q) = (t, r)") auto
    then have "u \<in> set DETECTOR_PRIORITY \<and>
      (\<exists>i\<ge>1. i \<le> ((next_index st)(t := Suc (next_index st t))) u \<and> p = placeholder u i)"
    proof cases
      case 1
      with t show ?thesis by (auto intro!: exI [of _ "Suc (next_index st t)"])
    next
      case 2
      with inv obtain i where "u \<in> set DETECTOR_PRIORITY" "1 \<le> i" "i \<le> next_index st u" "p = placeholder u i"
        unfolding mask_inv_def by blast
      then show ?thesis by (intro conjI exI [of _ i]) auto
    qed
    then show "u \<in> set DETECTOR_PRIORITY"
      and "\<exists>i\<ge>1. i \<le> ((next_index st)(t := Suc (next_index st t))) u \<and> p = placeholder u i" by blast+
  next
    fix k k' p
    assume "((map_of (placeholders st))((t, r) \<mapsto> placeholder t (Suc (next_index st t)))) k = Some p \<and>
      ((map_of (placeholders st))((t, r) \<mapsto> placeholder t (Suc (next_index st t)))) k' = Some p"
    then show "k = k'"
      using inv mask_inv_fresh [OF inv t] unfolding mask_inv_def by (metis fun_upd_apply option.inject)
  qed
next
  case (Some p)
  then have known: "map_of (placeholders st) (t, r) \<noteq> None" by simp
  from inv show ?thesis unfolding mask_inv_def assign_one_known [OF known] .
qed

lemma assign_one_extends:
  "map_of (placeholders st) \<subseteq>\<^sub>m map_of (placeholders (assign_one c st))"
proof -
  obtain s e t r where c: "c = (s, e, t, r)" by (cases c)
  show ?thesis unfolding c
    by (cases "map_of (placeholders st) (t, r)") (auto simp: assign_one_fresh assign_one_known map_le_def)
qed

lemma assign_one_defines: "\<exists>p. map_of (placeholders (assign_one c st)) (c_type c, c_raw c) = Some p"
proof -
  obtain s e t r where c: "c = (s, e, t, r)" by (cases c)
  show ?thesis unfolding c
    by (cases "map_of (placeholders st) (t, r)") (auto simp: assign_one_fresh assign_one_known)
qed

lemma fold_assign_inv:
  "mask_inv st \<Longrightarrow> \<forall>c \<in> set cs. c_type c \<in> set DETECTOR_PRIORITY \<Longrightarrow> mask_inv (fold assign_one cs st)"
  by (induction cs arbitrary: st) (auto simp: assign_one_inv)

lemma fold_assign_extends:
  "map_of (placeholders st) \<subseteq>\<^sub>m map_of (placeholders (fold assign_one cs st))"
  by (induction cs arbitrary: st) (auto intro: map_le_trans assign_one_extends)

lemma fold_assign_defines:
  "c \<in> set cs \<Longrightarrow> \<exists>p. map_of (placeholders (fold assign_one cs st)) (c_type c, c_raw c) = Some p"
proof (induction cs arbitrary: st)
  case (Cons d cs)
  from Cons.prems consider "d = c" | "c \<in> set cs" by auto
  then show ?case
  proof cases
    case 1
    with assign_one_defines [of c st] fold_assign_extends [of "assign_one c st" cs] show ?thesis
      by (auto dest: map_le_Some)
  next
    case 2
    from Cons.IH [OF 2, of "assign_one d st"] show ?thesis by simp
  qed
qed simp


subsection \<open>Masking one text and all messages of a request\<close>

text \<open>The placeholder that a dictionary of placeholders gives a value.\<close>

definition ph_of :: "mask_state \<Rightarrow> string \<times> string \<Rightarrow> string" where
  "ph_of st k = the (map_of (placeholders st) k)"

lemma apply_mask_render:
  fixes s en
  defines "cs \<equiv> selected s en"
  shows "apply_mask s (collect_candidates s en) st =
    Inr (render (ph_of (fold assign_one cs st)) s 0 cs, fold assign_one cs st)"
proof -
  let ?st = "fold assign_one cs st"
  have "replace_loop (placeholders ?st) (rev cs) s =
      Inr (take 0 s @ render (\<lambda>k. the (map_of (placeholders ?st) k)) s 0 cs)"
    by (rule replace_loop_render) (use selected_laid_out fold_assign_defines in \<open>auto simp: cs_def\<close>)
  then show ?thesis
    unfolding apply_mask_def selected_rev Let_def cs_def [symmetric] selected_def [symmetric] ph_of_def
    by simp
qed

lemma render_cong:
  "(\<And>c. c \<in> set cs \<Longrightarrow> f (c_type c, c_raw c) = g (c_type c, c_raw c)) \<Longrightarrow> render f t i cs = render g t i cs"
  by (induction cs arbitrary: i) auto

text \<open>The dictionaries after all messages: every selected candidate assigned, in order.\<close>

definition all_selected :: "string list \<Rightarrow> normalized_message list \<Rightarrow> candidate list" where
  "all_selected en ms = concat (map (\<lambda>m. selected (nm_content m) en) ms)"

definition masked_by :: "mask_state \<Rightarrow> string list \<Rightarrow> normalized_message \<Rightarrow> normalized_message" where
  "masked_by st en m = \<lparr>nm_role = nm_role m,
     nm_content = render (ph_of st) (nm_content m) 0 (selected (nm_content m) en)\<rparr>"

lemma ph_of_extends:
  assumes "map_of (placeholders st) \<subseteq>\<^sub>m map_of (placeholders st')" and "map_of (placeholders st) k = Some p"
  shows "ph_of st' k = ph_of st k"
  using map_le_Some [OF assms] assms(2) by (simp add: ph_of_def)

theorem mask_loop_render:
  "mask_loop en ms st =
     Inr (map (masked_by (fold assign_one (all_selected en ms) st) en) ms, fold assign_one (all_selected en ms) st)"
proof (induction ms arbitrary: st)
  case (Cons m ms)
  let ?t = "nm_content m"
  let ?cs = "selected ?t en" and ?st1 = "fold assign_one (selected ?t en) st"
  let ?st2 = "fold assign_one (all_selected en ms) ?st1"
  have sel: "selected ?t en = []" if "collect_candidates ?t en = []" using that by (simp add: selected_def)
  have first: "(if collect_candidates ?t en = [] then Inr (?t, st)
      else apply_mask ?t (collect_candidates ?t en) st) = Inr (render (ph_of ?st1) ?t 0 ?cs, ?st1)"
    using sel by (simp add: apply_mask_render)
  have "render (ph_of ?st1) ?t 0 ?cs = render (ph_of ?st2) ?t 0 ?cs"
  proof (rule render_cong)
    fix c assume "c \<in> set ?cs"
    then obtain p where "map_of (placeholders ?st1) (c_type c, c_raw c) = Some p"
      using fold_assign_defines by blast
    then show "ph_of ?st1 (c_type c, c_raw c) = ph_of ?st2 (c_type c, c_raw c)"
      using ph_of_extends [OF fold_assign_extends] by metis
  qed
  then have "\<lparr>nm_role = nm_role m, nm_content = render (ph_of ?st1) ?t 0 ?cs\<rparr> = masked_by ?st2 en m"
    by (simp add: masked_by_def)
  moreover have "all_selected en (m # ms) = ?cs @ all_selected en ms" by (simp add: all_selected_def)
  ultimately show ?case
    using Cons.IH [of ?st1] first by simp
qed (simp add: all_selected_def)

lemma all_selected_types: "c \<in> set (all_selected en ms) \<Longrightarrow> c_type c \<in> set DETECTOR_PRIORITY"
  by (auto simp: all_selected_def dest: collect_ok)

lemma all_selected_inv: "mask_inv (fold assign_one (all_selected en ms) empty_mask)"
  by (rule fold_assign_inv) (use all_selected_types in auto)

text \<open>How often each type is counted.\<close>

definition type_count :: "string \<Rightarrow> candidate list \<Rightarrow> nat" where
  "type_count t cs = length (filter (\<lambda>c. c_type c = t) cs)"

lemma counts_assign_one:
  "map_of (counts (assign_one c st)) =
     (map_of (counts st))(c_type c \<mapsto> (case map_of (counts st) (c_type c) of None \<Rightarrow> 0 | Some n \<Rightarrow> n) + 1)"
  by (simp add: assign_one_def Let_def)

lemma counts_fold:
  "map_of (counts (fold assign_one cs st)) t =
     (let n = type_count t cs in
      if n = 0 then map_of (counts st) t
      else Some ((case map_of (counts st) t of None \<Rightarrow> 0 | Some k \<Rightarrow> k) + n))"
  by (induction cs arbitrary: st) (auto simp: type_count_def counts_assign_one Let_def split: option.splits)

subsection \<open>The Luhn check\<close>

definition luhn_digit :: "nat \<Rightarrow> nat \<Rightarrow> nat" where
  "luhn_digit index digit = (if index mod 2 = 1 then (let d = 2 * digit in if d > 9 then d - 9 else d) else digit)"

lemma luhn_total_append:
  "luhn_total i (xs @ ys) = luhn_total i xs + luhn_total (i + length xs) ys"
  by (induction xs arbitrary: i) auto

lemma luhn_total_Cons: "luhn_total i (d # ds) = luhn_digit i d + luhn_total (Suc i) ds"
  by (simp add: luhn_digit_def)

lemma luhn_digit_mod2: "luhn_digit i d = luhn_digit (i mod 2) d"
  by (simp add: luhn_digit_def)

text \<open>The two facts about single digits that make the check work, over all 100 pairs.\<close>

lemma luhn_pairs:
  "list_all (\<lambda>p. list_all (\<lambda>a. list_all (\<lambda>b.
     (luhn_digit p a mod 10 = luhn_digit p b mod 10 \<longrightarrow> a = b) \<and>
     ((luhn_digit p a + luhn_digit (1 - p) b) mod 10 = (luhn_digit p b + luhn_digit (1 - p) a) mod 10 \<longrightarrow>
        a = b \<or> (a, b) = (0, 9) \<or> (a, b) = (9, 0))) [0..<10]) [0..<10]) [0, 1]"
  by code_simp

lemma luhn_pair:
  assumes "p \<le> 1" and "a < 10" and "b < 10"
  shows "(luhn_digit p a mod 10 = luhn_digit p b mod 10 \<longrightarrow> a = b) \<and>
     ((luhn_digit p a + luhn_digit (1 - p) b) mod 10 = (luhn_digit p b + luhn_digit (1 - p) a) mod 10 \<longrightarrow>
        a = b \<or> (a, b) = (0, 9) \<or> (a, b) = (9, 0))"
proof -
  from assms have "p \<in> set [0, 1]" "a \<in> set [0..<10]" "b \<in> set [0..<10]" by auto
  with luhn_pairs show ?thesis unfolding list_all_iff by blast
qed

lemma luhn_total_at:
  "luhn_total 0 (map digit_val (rev (xs @ zs @ ys))) =
     luhn_total 0 (map digit_val (rev ys)) + luhn_total (length ys) (map digit_val (rev zs)) +
     luhn_total (length ys + length zs) (map digit_val (rev xs))"
  by (simp add: luhn_total_append)

lemma mod_cancel: "(x + a + y) mod 10 = 0 \<Longrightarrow> (x + b + y) mod 10 = 0 \<Longrightarrow> a mod 10 = b mod (10::nat)"
proof -
  assume "(x + a + y) mod 10 = 0" "(x + b + y) mod 10 = 0"
  then obtain q q' where "x + a + y = 10 * q" "x + b + y = 10 * q'" by (metis mod_0_imp_dvd dvdE)
  then have "a + 10 * q' = b + 10 * q" by linarith
  then have "(a + 10 * q') mod 10 = (b + 10 * q) mod 10" by simp
  then show "a mod 10 = b mod 10" by simp
qed

lemma luhn_valid_middle:
  assumes "luhn_valid (xs @ zs @ ys)" and "luhn_valid (xs @ zs' @ ys)" and "length zs = length zs'"
  shows "luhn_total (length ys) (map digit_val (rev zs)) mod 10 =
    luhn_total (length ys) (map digit_val (rev zs')) mod 10"
  using assms unfolding luhn_valid_def luhn_total_at by (metis mod_cancel)

lemma digit_val_inject: "py_isdecimal a \<Longrightarrow> py_isdecimal b \<Longrightarrow> digit_val a = digit_val b \<longleftrightarrow> a = b"
  unfolding py_isdecimal_def digit_val_def by (metis add_diff_inverse_nat not_le of_char_eq_iff)

text \<open>Changing one digit of a Luhn-valid number always makes it invalid.\<close>

theorem luhn_detects_single_digit_error:
  assumes "luhn_valid (xs @ [a] @ ys)" and "py_isdecimal a" and "py_isdecimal b" and "a \<noteq> b"
  shows "\<not> luhn_valid (xs @ [b] @ ys)"
proof
  assume b: "luhn_valid (xs @ [b] @ ys)"
  let ?p = "length ys mod 2"
  from luhn_valid_middle [OF assms(1) b]
  have "luhn_digit ?p (digit_val a) mod 10 = luhn_digit ?p (digit_val b) mod 10"
    by (simp add: luhn_digit_def)
  with luhn_pair [of ?p "digit_val a" "digit_val b"] assms(2,3) have "digit_val a = digit_val b"
    by (simp add: digit_val_less)
  with assms show False by (simp add: digit_val_inject)
qed

theorem luhn_detects_single_digit_error_witness:
  "luhn_valid ''4111111111111111'' \<and> \<not> luhn_valid ''4111111121111111''"
proof -
  have "luhn_valid (''41111111'' @ [CHR ''1''] @ ''1111111'')" by code_simp
  moreover from luhn_detects_single_digit_error [OF this, of "CHR ''2''"]
  have "\<not> luhn_valid (''41111111'' @ [CHR ''2''] @ ''1111111'')" by (simp add: py_isdecimal_def)
  ultimately show ?thesis by simp
qed

text \<open>Swapping two adjacent digits makes it invalid too, unless the two are 0 and 9.\<close>

theorem luhn_detects_transposition:
  assumes "luhn_valid (xs @ [a, b] @ ys)" and "py_isdecimal a" and "py_isdecimal b" and "a \<noteq> b"
    and "{a, b} \<noteq> {CHR ''0'', CHR ''9''}"
  shows "\<not> luhn_valid (xs @ [b, a] @ ys)"
proof
  assume "luhn_valid (xs @ [b, a] @ ys)"
  let ?p = "length ys mod 2" and ?a = "digit_val a" and ?b = "digit_val b"
  have parity: "luhn_digit (length ys) x = luhn_digit ?p x" "luhn_digit (Suc (length ys)) x = luhn_digit (1 - ?p) x"
    for x by (auto simp: luhn_digit_def mod_Suc)
  from luhn_valid_middle [OF assms(1) \<open>luhn_valid (xs @ [b, a] @ ys)\<close>]
  have "(luhn_digit ?p ?b + luhn_digit (1 - ?p) ?a) mod 10 = (luhn_digit ?p ?a + luhn_digit (1 - ?p) ?b) mod 10"
    by (simp add: luhn_total_Cons parity del: luhn_total.simps(2))
  with luhn_pair [of ?p ?b ?a] assms(2,3)
  have "?a = ?b \<or> (?b, ?a) = (0, 9) \<or> (?b, ?a) = (9, 0)" by (auto simp: digit_val_less)
  moreover have "x = CHR ''0'' \<longleftrightarrow> digit_val x = 0" "x = CHR ''9'' \<longleftrightarrow> digit_val x = 9"
    if "py_isdecimal x" for x
    using digit_val_inject [OF that, of "CHR ''0''"] digit_val_inject [OF that, of "CHR ''9''"]
    by (auto simp: digit_val_def py_isdecimal_def)
  ultimately have "a = b \<or> {a, b} = {CHR ''0'', CHR ''9''}"
    using assms(2,3) by (auto simp: digit_val_inject)
  with assms show False by blast
qed

theorem luhn_detects_transposition_witness:
  "luhn_valid ''4012888888881881'' \<and> \<not> luhn_valid ''4021888888881881''"
proof -
  have "luhn_valid (''40'' @ [CHR ''1'', CHR ''2''] @ ''888888881881'')" by code_simp
  moreover from luhn_detects_transposition [OF this]
  have "\<not> luhn_valid (''40'' @ [CHR ''2'', CHR ''1''] @ ''888888881881'')"
    by (simp add: py_isdecimal_def doubleton_eq_iff)
  ultimately show ?thesis by simp
qed

subsection \<open>What the compliance filter promises\<close>

text \<open>The dictionaries of a request once all its messages are masked.\<close>

definition final_mask :: "string list \<Rightarrow> normalized_message list \<Rightarrow> mask_state" where
  "final_mask types ms = fold assign_one (all_selected (enabled_of types) ms) empty_mask"

lemma selected_none: "selected t [] = []"
  by (simp add: selected_def collect_candidates_def DETECTOR_PRIORITY_def)

lemma mask_messages_eq:
  "mask_messages ms types =
     Inr (map (masked_by (final_mask types ms) (enabled_of types)) ms, counts (final_mask types ms))"
proof (cases "enabled_of types = []")
  case True
  then have "final_mask types ms = empty_mask"
    by (simp add: final_mask_def all_selected_def selected_none map_replicate_const)
  moreover have "masked_by st [] m = m" for st and m :: normalized_message
    by (simp add: masked_by_def selected_none)
  ultimately show ?thesis
    by (simp add: mask_messages_def True empty_mask_def)
next
  case False
  then show ?thesis by (simp add: mask_messages_def mask_loop_render final_mask_def Let_def)
qed

text \<open>C17: masking never fails, keeps roles, number and order of the messages, and rewrites every
  message to the left-to-right rendering in which each selected stretch of text is replaced by the
  placeholder of its value; the returned summary is the final counter dictionary.\<close>

theorem mask_messages_correct:
  "mask_messages ms types =
     Inr (map (masked_by (final_mask types ms) (enabled_of types)) ms, counts (final_mask types ms))"
  by (rule mask_messages_eq)

text \<open>Within one request two detected values get the same placeholder exactly when they have
  the same type and the same text, whichever messages they come from.\<close>

theorem placeholders_identify_values:
  assumes "c \<in> set (all_selected (enabled_of types) ms)" and "d \<in> set (all_selected (enabled_of types) ms)"
  shows "ph_of (final_mask types ms) (c_type c, c_raw c) = ph_of (final_mask types ms) (c_type d, c_raw d)
    \<longleftrightarrow> c_type c = c_type d \<and> c_raw c = c_raw d"
proof -
  let ?st = "final_mask types ms"
  from assms obtain p q where "map_of (placeholders ?st) (c_type c, c_raw c) = Some p"
    "map_of (placeholders ?st) (c_type d, c_raw d) = Some q"
    unfolding final_mask_def using fold_assign_defines by metis
  moreover have "mask_inv ?st" by (simp add: final_mask_def all_selected_inv)
  ultimately show ?thesis unfolding ph_of_def mask_inv_def by (metis option.sel prod.inject)
qed

text \<open>Two messages that name the same address and one that names another.\<close>

definition sample_messages :: "normalized_message list" where
  "sample_messages = [\<lparr>nm_role = ''user'', nm_content = ''to a@b.co''\<rparr>,
     \<lparr>nm_role = ''user'', nm_content = ''cc c@d.co, a@b.co''\<rparr>]"

theorem placeholders_identify_values_witness:
  "ph_of (final_mask [''email''] sample_messages) (''email'', ''a@b.co'') \<noteq>
   ph_of (final_mask [''email''] sample_messages) (''email'', ''c@d.co'')"
proof -
  have all: "all_selected (enabled_of [''email'']) sample_messages =
      [(3, 9, ''email'', ''a@b.co''), (3, 9, ''email'', ''c@d.co''), (11, 17, ''email'', ''a@b.co'')]"
    by code_simp
  show ?thesis
    using placeholders_identify_values [of "(3, 9, ''email'', ''a@b.co'')" "[''email'']" sample_messages
        "(3, 9, ''email'', ''c@d.co'')"] unfolding all by simp
qed

text \<open>The selected candidates are non-empty stretches of the text found by an enabled detector,
  and no two of them overlap.\<close>

theorem selection_sound:
  assumes "c \<in> set (collect_candidates s en)"
  shows "cand_ok s c \<and> c_type c \<in> set en \<and> c \<in> set (detect (c_type c) s) \<and>
    (\<forall>d \<in> set (collect_candidates s en). d \<noteq> c \<longrightarrow> c_end c \<le> c_start d \<or> c_end d \<le> c_start c)"
  using assms collect_ok [OF assms] collect_pairwise [OF assms] by (auto simp: apart_def)

theorem selection_sound_witness:
  "cand_ok ''a@b.co 010-1234-5678'' (7, 20, ''phone'', ''010-1234-5678'') \<and>
   collect_candidates ''a@b.co 010-1234-5678'' ENABLED_TYPES =
     [(0, 6, ''email'', ''a@b.co''), (7, 20, ''phone'', ''010-1234-5678'')]"
proof -
  have c: "collect_candidates ''a@b.co 010-1234-5678'' ENABLED_TYPES =
      [(0, 6, ''email'', ''a@b.co''), (7, 20, ''phone'', ''010-1234-5678'')]" by code_simp
  then show ?thesis
    using selection_sound [of "(7, 20, ''phone'', ''010-1234-5678'')" "''a@b.co 010-1234-5678''" ENABLED_TYPES]
    by simp
qed

text \<open>A value found by an enabled detector is left out of the selection only if it overlaps a
  selected one whose detector has strictly higher priority.\<close>

theorem selection_drops_only_for_priority:
  assumes "c \<in> set (detect t s)" and "t \<in> set en" and "t \<in> set DETECTOR_PRIORITY"
    and "c \<notin> set (collect_candidates s en)"
  shows "\<exists>a \<in> set (collect_candidates s en). detector_rank (c_type a) < detector_rank t \<and>
    c_start c < c_end a \<and> c_start a < c_end c"
  using collect_dropped [OF assms] by (auto simp: apart_def not_le)

theorem selection_drops_only_for_priority_witness:
  "\<exists>a \<in> set (collect_candidates ''01012345678@b.co'' ENABLED_TYPES).
     detector_rank (c_type a) < detector_rank ''phone'' \<and> 0 < c_end a \<and> c_start a < 11"
proof -
  have "(0, 11, ''phone'', ''01012345678'') \<in> set (detect ''phone'' ''01012345678@b.co'')"
    "(0, 11, ''phone'', ''01012345678'') \<notin> set (collect_candidates ''01012345678@b.co'' ENABLED_TYPES)"
    "''phone'' \<in> set ENABLED_TYPES" "''phone'' \<in> set DETECTOR_PRIORITY"
    by code_simp+
  from selection_drops_only_for_priority [OF this(1,3,4,2)] show ?thesis by simp
qed

text \<open>C18: when e-mail masking is enabled, every place of a text where an address can start lies
  inside a selected stretch, so no match of the e-mail pattern survives in the copied parts.\<close>

theorem email_always_covered:
  assumes "''email'' \<in> set en" and "i \<le> length s"
    and "ends EMAIL_RE (rev (take i s), drop i s) \<noteq> []"
  shows "\<exists>c \<in> set (collect_candidates s en). c_start c \<le> i \<and> i < c_end c"
proof -
  from finditer_complete [OF pii_rx_ok(1) pii_nonnull(1) assms(2,3)] obtain b e w where
    m: "(b, e, w) \<in> set (finditer EMAIL_RE s)" "b \<le> i" "i < e" by auto
  then have d: "(b, e, ''email'', w) \<in> set (detect ''email'' s)"
    by (force simp: detect_def email_candidates_def)
  have "detector_rank ''email'' = 0" by (simp add: detector_rank_def DETECTOR_PRIORITY_def)
  with collect_dropped [OF d assms(1)] have "(b, e, ''email'', w) \<in> set (collect_candidates s en)"
    by (auto simp: DETECTOR_PRIORITY_def)
  with m show ?thesis by force
qed

theorem email_always_covered_witness:
  "\<exists>c \<in> set (collect_candidates ''to a@b.co'' [''email'']). c_start c \<le> 3 \<and> 3 < c_end c"
  by (rule email_always_covered) code_simp+

text \<open>The returned summary counts, for every type, exactly the replaced occurrences in all
  messages, and has no entry for a type that does not occur.\<close>

theorem mask_counts_exact:
  "map_of (counts (final_mask types ms)) t =
     (let n = type_count t (all_selected (enabled_of types) ms) in if n = 0 then None else Some n)"
  by (simp add: final_mask_def counts_fold empty_mask_def Let_def)

text \<open>A resident-number candidate has thirteen digits, the first six of which are a real
  calendar date in the century that its seventh digit selects.\<close>

theorem rrn_candidate_valid:
  assumes "c \<in> set (rrn_candidates s)"
  shows "\<exists>b sep g d. c_raw c = b @ sep @ g # d \<and> length b = 6 \<and> length sep \<le> 1 \<and> length d = 6 \<and>
    list_all py_isdecimal (b @ g # d) \<and>
    date_ok ((if g \<in> set ''1256'' then 1900 else 2000) + digits_val (take 2 b))
      (digits_val (take 2 (drop 2 b))) (digits_val (drop 4 b))"
proof -
  from assms obtain x y w where c: "c = (x, y, ''rrn'', w)" and m: "(x, y, w) \<in> set (finditer RRN_RE s)"
    and v: "valid_rrn_date (take 2 w) (take 2 (drop 2 w)) (take 2 (drop 4 w)) (drop (length w - 7) w)"
    by (auto simp: rrn_candidates_def)
  from consumes_rrn [OF finditer_sound(4) [OF pii_rx_ok(2) m]] obtain b sep g d where
    w: "w = b @ sep @ g # d" "length b = 6" "length sep \<le> 1" "length d = 6"
    and dig: "list_all py_isdecimal b" "g \<in> set ''12345678''" "list_all py_isdecimal d" by blast
  have tail: "drop (length w - 7) w = g # d" using w by simp
  have "take 2 (drop 4 b) = drop 4 b" using w(2) by simp
  with v w(1,2) have "date_ok ((if g \<in> set ''1256'' then 1900 else 2000) + digits_val (take 2 b))
      (digits_val (take 2 (drop 2 b))) (digits_val (drop 4 b))"
    unfolding tail by (auto simp: valid_rrn_date_def py_int_digits_def Let_def split: if_splits)
  moreover have "py_isdecimal g" using dig(2) by (auto simp: py_isdecimal_def)
  moreover have "c_raw c = b @ sep @ g # d" using c w(1) by simp
  ultimately show ?thesis using w(2-4) dig(1,3)
    by (intro exI [of _ b] exI [of _ sep] exI [of _ g] exI [of _ d] conjI) simp_all
qed

theorem rrn_candidate_valid_witness:
  "\<exists>b sep g d. ''000229-3234567'' = b @ sep @ g # d \<and> length b = 6 \<and> length sep \<le> 1 \<and> length d = 6 \<and>
    list_all py_isdecimal (b @ g # d) \<and>
    date_ok ((if g \<in> set ''1256'' then 1900 else 2000) + digits_val (take 2 b))
      (digits_val (take 2 (drop 2 b))) (digits_val (drop 4 b))"
proof -
  have "(3, 17, ''rrn'', ''000229-3234567'') \<in> set (rrn_candidates ''no 000229-3234567'')" by code_simp
  from rrn_candidate_valid [OF this] show ?thesis by simp
qed


end
