(* ===== verification/Policy.thy ===== *)
theory Policy
  imports Pii "HOL-Library.List_Lexorder" "HOL-Library.Char_ord"
begin

text \<open>
  \<open>app/compliance/filter.py\<close>: the forbidden-content rules. Patterns are arbitrary regular expressions of the
  operator, so the regular-expression engine is a parameter: \<open>re_compile\<close> gives a pattern or fails, and
  \<open>matches pat s\<close> is the number of matches that \<open>finditer\<close> finds. The cache of compiled rules is transparent.
\<close>

definition MAX_RULE_PATTERN_CHARS :: nat where "MAX_RULE_PATTERN_CHARS = 512"

definition MAX_RULES :: nat where "MAX_RULES = 200"

record 'pat compiled_rule =
  rule_id :: string
  pattern :: 'pat

record policy_match =
  pm_rule_id :: string
  pm_count :: nat
  pm_severity :: string

text \<open>One entry \<open>id=regex\<close>; \<open>None\<close> when it is skipped.\<close>

definition compile_entry :: "(string \<Rightarrow> 'pat option) \<Rightarrow> string \<Rightarrow> 'pat compiled_rule option" where
  "compile_entry re_compile entry =
     (let (rid, separator, regex) = py_partition (CHR ''='') entry; rid = py_strip rid in
      if \<not> separator \<or> rid = [] then None
      else if regex = [] then None
      else if length regex > MAX_RULE_PATTERN_CHARS then None
      else case re_compile regex of
        None \<Rightarrow> None
      | Some pat \<Rightarrow> Some \<lparr>rule_id = rid, pattern = pat\<rparr>)"

definition compile_rules :: "(string \<Rightarrow> 'pat option) \<Rightarrow> string list \<Rightarrow> 'pat compiled_rule list" where
  "compile_rules re_compile patterns = List.map_filter (compile_entry re_compile) (take MAX_RULES patterns)"

fun scan_rules :: "('pat \<Rightarrow> string \<Rightarrow> nat) \<Rightarrow> string \<Rightarrow> 'pat compiled_rule list \<Rightarrow> (string, nat) dict \<Rightarrow> (string, nat) dict" where
  "scan_rules matches content [] cnts = cnts"
| "scan_rules matches content (rule # rules) cnts =
     (let match_count = matches (pattern rule) content in
      scan_rules matches content rules
        (if match_count > 0
         then AList.update (rule_id rule)
                ((case map_of cnts (rule_id rule) of None \<Rightarrow> 0 | Some n \<Rightarrow> n) + match_count) cnts
         else cnts))"

fun scan_loop :: "('pat \<Rightarrow> string \<Rightarrow> nat) \<Rightarrow> normalized_message list \<Rightarrow> 'pat compiled_rule list \<Rightarrow> (string, nat) dict \<Rightarrow> (string, nat) dict" where
  "scan_loop matches [] rules cnts = cnts"
| "scan_loop matches (m # ms) rules cnts = scan_loop matches ms rules (scan_rules matches (nm_content m) rules cnts)"

definition scan_messages :: "('pat \<Rightarrow> string \<Rightarrow> nat) \<Rightarrow> normalized_message list \<Rightarrow> 'pat compiled_rule list \<Rightarrow> policy_match list" where
  "scan_messages matches messages rules =
     (let cnts = scan_loop matches messages rules [] in
      map (\<lambda>rid. \<lparr>pm_rule_id = rid, pm_count = the (map_of cnts rid), pm_severity = ''medium''\<rparr>)
          (sort (map fst cnts)))"

subsection \<open>Facts\<close>

text \<open>How often the rules with an identifier match in a message, and in all messages.\<close>

definition rule_hits :: "('pat \<Rightarrow> string \<Rightarrow> nat) \<Rightarrow> 'pat compiled_rule list \<Rightarrow> string \<Rightarrow> string \<Rightarrow> nat" where
  "rule_hits matches rules content rid =
     sum_list (map (\<lambda>r. if rule_id r = rid then matches (pattern r) content else 0) rules)"

definition total_hits :: "('pat \<Rightarrow> string \<Rightarrow> nat) \<Rightarrow> 'pat compiled_rule list \<Rightarrow> normalized_message list \<Rightarrow> string \<Rightarrow> nat" where
  "total_hits matches rules messages rid = sum_list (map (\<lambda>m. rule_hits matches rules (nm_content m) rid) messages)"

text \<open>The dictionary holds the positive values of a function.\<close>

definition holds_counts :: "(string, nat) dict \<Rightarrow> (string \<Rightarrow> nat) \<Rightarrow> bool" where
  "holds_counts d f \<longleftrightarrow> distinct (map fst d) \<and> (\<forall>k. map_of d k = (if f k = 0 then None else Some (f k)))"

lemma scan_rules_counts:
  "holds_counts d f \<Longrightarrow> holds_counts (scan_rules matches content rules d) (\<lambda>k. f k + rule_hits matches rules content k)"
proof (induction rules arbitrary: d f)
  case (Cons r rules)
  let ?n = "matches (pattern r) content"
  let ?d = "if ?n > 0 then AList.update (rule_id r) ((case map_of d (rule_id r) of None \<Rightarrow> 0 | Some n \<Rightarrow> n) + ?n) d else d"
  have "holds_counts ?d (\<lambda>k. f k + (if rule_id r = k then ?n else 0))"
    using Cons.prems by (auto simp: holds_counts_def)
  from Cons.IH [OF this] show ?case by (simp add: rule_hits_def add.assoc Let_def)
qed (simp add: rule_hits_def)

lemma scan_loop_counts:
  "holds_counts d f \<Longrightarrow> holds_counts (scan_loop matches ms rules d) (\<lambda>k. f k + total_hits matches rules ms k)"
proof (induction ms arbitrary: d f)
  case (Cons m ms)
  from Cons.IH [OF scan_rules_counts [OF Cons.prems]] show ?case by (simp add: total_hits_def add.assoc)
qed (simp add: total_hits_def)

lemma distinct_single:
  assumes "distinct xs" and "set xs = {a}"
  shows "xs = [a]"
proof (cases xs)
  case (Cons x ys)
  with assms have "x = a" "set ys \<subseteq> {a}" "a \<notin> set ys" by auto
  then have "ys = []" by (cases ys) auto
  with Cons \<open>x = a\<close> show ?thesis by simp
qed (use assms in simp)

lemma scan_counts: "holds_counts (scan_loop matches ms rules []) (total_hits matches rules ms)"
proof -
  have "holds_counts [] (\<lambda>_. 0)" by (simp add: holds_counts_def)
  from scan_loop_counts [OF this, of matches ms rules] show ?thesis by simp
qed

lemma holds_counts_keys: "holds_counts d f \<Longrightarrow> set (map fst d) = {k. f k > 0}"
proof -
  assume h: "holds_counts d f"
  have "map_of d k = None \<longleftrightarrow> f k = 0" for k using h by (simp add: holds_counts_def)
  then have "k \<notin> set (map fst d) \<longleftrightarrow> f k = 0" for k by (simp add: map_of_eq_None_iff)
  then show ?thesis by (intro set_eqI) (metis mem_Collect_eq neq0_conv)
qed

lemma holds_counts_the: "holds_counts d f \<Longrightarrow> f k > 0 \<Longrightarrow> the (map_of d k) = f k"
  by (simp add: holds_counts_def)

lemma scan_messages_eq:
  "scan_messages matches ms rules =
    map (\<lambda>rid. \<lparr>pm_rule_id = rid, pm_count = total_hits matches rules ms rid, pm_severity = ''medium''\<rparr>)
      (sorted_list_of_set {rid. total_hits matches rules ms rid > 0})"
proof -
  let ?d = "scan_loop matches ms rules []"
  note h = scan_counts [of matches ms rules] and k = holds_counts_keys [OF scan_counts, of matches ms rules]
  have "distinct (map fst ?d)" using h by (simp add: holds_counts_def)
  then have s: "sort (map fst ?d) = sorted_list_of_set {rid. total_hits matches rules ms rid > 0}"
    unfolding k [symmetric] by (metis distinct_remdups_id sorted_list_of_set_sort_remdups)
  have "the (map_of ?d rid) = total_hits matches rules ms rid" if "rid \<in> set (sort (map fst ?d))" for rid
    using that k holds_counts_the [OF h] by auto
  then show ?thesis unfolding scan_messages_def Let_def s [symmetric] by (intro map_cong) auto
qed

text \<open>Nothing is reported exactly when no rule matches anywhere.\<close>

lemma scan_messages_nil: "scan_messages matches ms rules = [] \<longleftrightarrow> (\<forall>r \<in> set rules. \<forall>m \<in> set ms. matches (pattern r) (nm_content m) = 0)"
proof -
  have "finite {rid. total_hits matches rules ms rid > 0}"
    unfolding holds_counts_keys [OF scan_counts, symmetric] by simp
  then have "scan_messages matches ms rules = [] \<longleftrightarrow> (\<forall>rid. total_hits matches rules ms rid = 0)"
    by (auto simp: scan_messages_eq)
  also have "\<dots> \<longleftrightarrow> (\<forall>r \<in> set rules. \<forall>m \<in> set ms. matches (pattern r) (nm_content m) = 0)"
    by (auto simp: total_hits_def rule_hits_def sum_list_eq_0_iff)
  finally show ?thesis .
qed

text \<open>The report lists, once and in order, exactly the identifiers of which some rule matches some message, each
  with the number of matches over all messages and all rules of that identifier.\<close>

theorem scan_report_exact:
  "sorted (map pm_rule_id (scan_messages matches ms rules)) \<and> distinct (map pm_rule_id (scan_messages matches ms rules)) \<and>
   set (map pm_rule_id (scan_messages matches ms rules)) = {rid. total_hits matches rules ms rid > 0} \<and>
   (\<forall>pm \<in> set (scan_messages matches ms rules). pm_count pm = total_hits matches rules ms (pm_rule_id pm))"
proof -
  have "finite {rid. total_hits matches rules ms rid > 0}"
    unfolding holds_counts_keys [OF scan_counts, symmetric] by simp
  then show ?thesis by (auto simp: scan_messages_eq comp_def)
qed

text \<open>A rule \<open>r\<close> that looks for a word, and one with an empty pattern, which is skipped; a pattern matches once when the text starts with it.\<close>

theorem scan_report_exact_witness:
  "map pm_rule_id (scan_messages (\<lambda>p s. if take (length p) s = p then 1 else 0)
     [\<lparr>nm_role = ''user'', nm_content = ''secret plan''\<rparr>] (compile_rules Some [''r =secret'', ''e='', ''nope''])) = [''r'']"
proof -
  let ?m = "\<lambda>p s. if take (length p) s = p then 1 else (0::nat)"
  let ?ms = "[\<lparr>nm_role = ''user'', nm_content = ''secret plan''\<rparr>]" and ?rs = "compile_rules Some [''r =secret'', ''e='', ''nope'']"
  have rs: "?rs = [\<lparr>rule_id = ''r'', pattern = ''secret''\<rparr>]" by code_simp
  have "{rid. total_hits ?m ?rs ?ms rid > 0} = {''r''}"
    by (auto simp: rs total_hits_def rule_hits_def split: if_splits)
  with scan_report_exact [of ?m ?ms ?rs] have d: "distinct (map pm_rule_id (scan_messages ?m ?ms ?rs))"
    and s: "set (map pm_rule_id (scan_messages ?m ?ms ?rs)) = {''r''}" by auto
  show ?thesis by (rule distinct_single [OF d s])
qed

end
