(* ===== verification/Providers.thy ===== *)
theory Providers
  imports Complex_Main Pii Config Errors
begin

text \<open>
  \<open>app/normalized.py\<close>, \<open>app/schemas.py\<close> and \<open>app/providers/\<close>: the request and response types, their validation and
  conversions, the model registry and the two providers. The vendors' client libraries are parameters: what a
  call returns, and for a stream the sequence of events with the seconds before each.
\<close>

subsection \<open>Normalized types (\<open>normalized.py\<close>)\<close>

record normalized_request =
  nr_model :: string
  nr_messages :: "normalized_message list"
  nr_stream :: bool
  nr_temperature :: "rat option"
  nr_max_tokens :: "int option"
  nr_ignored_fields :: "string list"

record normalized_usage =
  prompt_tokens :: int
  completion_tokens :: int
  total_tokens :: int

record normalized_response =
  ns_id :: string
  ns_model :: string
  ns_message :: normalized_message
  ns_finish_reason :: "string option"
  ns_usage :: normalized_usage

record normalized_chunk =
  nc_id :: "string option"
  nc_model :: "string option"
  nc_role :: "string option"
  nc_delta :: string
  nc_finish_reason :: "string option"
  nc_usage :: "normalized_usage option"

definition empty_chunk :: normalized_chunk where
  "empty_chunk = \<lparr>nc_id = None, nc_model = None, nc_role = None, nc_delta = [], nc_finish_reason = None, nc_usage = None\<rparr>"

subsection \<open>API types (\<open>schemas.py\<close>)\<close>

record chat_message =
  cm_role :: string
  cm_content :: string

record chat_request =
  cr_model :: string
  cr_messages :: "chat_message list"
  cr_stream :: bool
  cr_temperature :: "rat option"
  cr_max_tokens :: "int option"

definition validate_content_length :: "settings \<Rightarrow> string \<Rightarrow> py_error + string" where
  "validate_content_length st value = (if int (length value) > max_message_chars st then Inl ValueError else Inr value)"

definition validate_model_length :: "settings \<Rightarrow> string \<Rightarrow> py_error + string" where
  "validate_model_length st value = (if int (length value) > max_model_name_chars st then Inl ValueError else Inr value)"

definition validate_messages_length :: "settings \<Rightarrow> chat_message list \<Rightarrow> py_error + chat_message list" where
  "validate_messages_length st value = (if int (length value) > max_messages st then Inl ValueError else Inr value)"

definition validate_max_tokens :: "settings \<Rightarrow> int option \<Rightarrow> py_error + int option" where
  "validate_max_tokens st value =
     (case value of None \<Rightarrow> Inr None | Some n \<Rightarrow> if n > max_output_tokens st then Inl ValueError else Inr value)"

text \<open>What pydantic accepts of a body whose fields have the declared types: the field constraints and the validators.\<close>

definition chat_request_valid :: "settings \<Rightarrow> chat_request \<Rightarrow> bool" where
  "chat_request_valid st r \<longleftrightarrow>
     cr_model r \<noteq> [] \<and> validate_model_length st (cr_model r) = Inr (cr_model r) \<and>
     cr_messages r \<noteq> [] \<and> validate_messages_length st (cr_messages r) = Inr (cr_messages r) \<and>
     list_all (\<lambda>m. cm_role m \<in> {''system'', ''user'', ''assistant''} \<and>
       validate_content_length st (cm_content m) = Inr (cm_content m)) (cr_messages r) \<and>
     (case cr_temperature r of None \<Rightarrow> True | Some t \<Rightarrow> 0 \<le> t \<and> t \<le> 2) \<and>
     (case cr_max_tokens r of None \<Rightarrow> True | Some n \<Rightarrow> 1 \<le> n) \<and>
     validate_max_tokens st (cr_max_tokens r) = Inr (cr_max_tokens r)"

definition to_normalized :: "chat_request \<Rightarrow> normalized_request" where
  "to_normalized r = \<lparr>nr_model = cr_model r,
     nr_messages = map (\<lambda>m. \<lparr>nm_role = cm_role m, nm_content = cm_content m\<rparr>) (cr_messages r),
     nr_stream = cr_stream r, nr_temperature = cr_temperature r, nr_max_tokens = cr_max_tokens r, nr_ignored_fields = []\<rparr>"

text \<open>\<open>ChatCompletionResponse.from_normalized\<close>: one choice with index 0. The creation time is an argument.\<close>

record chat_response =
  rs_id :: string
  rs_created :: int
  rs_model :: string
  rs_role :: string
  rs_content :: string
  rs_finish_reason :: "string option"
  rs_usage :: normalized_usage

definition response_from_normalized :: "int \<Rightarrow> normalized_response \<Rightarrow> chat_response" where
  "response_from_normalized created r = \<lparr>rs_id = ns_id r, rs_created = created, rs_model = ns_model r,
     rs_role = nm_role (ns_message r), rs_content = nm_content (ns_message r),
     rs_finish_reason = ns_finish_reason r, rs_usage = ns_usage r\<rparr>"

text \<open>A chunk of the API; \<open>ck_choice\<close> is the only choice, absent in a chunk that carries usage only.\<close>

record chat_chunk =
  ck_id :: string
  ck_created :: int
  ck_model :: string
  ck_choice :: "(string option \<times> string option \<times> string option) option"   \<comment> \<open>role, content, finish reason\<close>
  ck_usage :: "normalized_usage option"

definition or_else :: "string option \<Rightarrow> string \<Rightarrow> string" where
  "or_else x d = (case x of None \<Rightarrow> d | Some v \<Rightarrow> if v = [] then d else v)"

definition chunk_from_normalized :: "int \<Rightarrow> string \<Rightarrow> string \<Rightarrow> normalized_chunk \<Rightarrow> chat_chunk" where
  "chunk_from_normalized created fallback_id fallback_model c =
     (let usage_only = (nc_usage c \<noteq> None \<and> nc_role c = None \<and> nc_delta c = [] \<and> nc_finish_reason c = None) in
      \<lparr>ck_id = or_else (nc_id c) fallback_id, ck_created = created, ck_model = or_else (nc_model c) fallback_model,
       ck_choice = (if usage_only then None
                    else Some (nc_role c, (if nc_delta c = [] then None else Some (nc_delta c)), nc_finish_reason c)),
       ck_usage = nc_usage c\<rparr>)"

text \<open>The list of models.\<close>

record model_info =
  mi_id :: string
  mi_object :: string
  mi_owned_by :: string

definition new_model_info :: "string \<Rightarrow> string \<Rightarrow> model_info" where
  "new_model_info i owner = \<lparr>mi_id = i, mi_object = ''model'', mi_owned_by = owner\<rparr>"

record models_response =
  ms_object :: string
  ms_data :: "model_info list"

subsection \<open>Registry (\<open>registry.py\<close>)\<close>

definition model_providers :: "settings \<Rightarrow> (string, string) dict" where
  "model_providers st =
     fold (\<lambda>m d. AList.update m ''anthropic'' d) (anthropic_models st)
       (fold (\<lambda>m d. AList.update m ''openai'' d) (openai_models st) [])"

definition provider_for_model :: "settings \<Rightarrow> string \<Rightarrow> exc + string" where
  "provider_for_model st model =
     (case map_of (model_providers st) model of
        None \<Rightarrow> Inl (ApiExc (plain_error UnsupportedModelError (''Model not found: '' @ model)))
      | Some name \<Rightarrow> Inr name)"

definition list_models :: "settings \<Rightarrow> model_info list" where
  "list_models st = map (\<lambda>m. new_model_info m ''openai'') (openai_models st) @ map (\<lambda>m. new_model_info m ''anthropic'') (anthropic_models st)"

subsection \<open>Client libraries\<close>

text \<open>An API error of a client library, and how a call can end.\<close>

record sdk_error =
  se_status :: "int option"
  se_response_status :: "int option"
  se_response_headers :: "(string, string) dict option"
  se_headers :: "(string, string) dict option"
  se_text :: string
  se_class :: string

datatype 'a sdk_result = SdkOk 'a | SdkError sdk_error | SdkOther

definition extract_upstream_status :: "sdk_error \<Rightarrow> int option" where
  "extract_upstream_status e = (case se_status e of Some n \<Rightarrow> Some n | None \<Rightarrow> se_response_status e)"

definition extract_retry_after :: "sdk_error \<Rightarrow> string option" where
  "extract_retry_after e =
     (case (case se_response_headers e of Some (x # xs) \<Rightarrow> Some (x # xs) | _ \<Rightarrow> se_headers e) of
        None \<Rightarrow> None
      | Some h \<Rightarrow>
          (case map_of h ''retry-after'' of
             Some (c # cs) \<Rightarrow> Some (c # cs)
           | _ \<Rightarrow> (case map_of h ''Retry-After'' of Some (c # cs) \<Rightarrow> Some (c # cs) | _ \<Rightarrow> None)))"

definition provider_error :: "string \<Rightarrow> sdk_error \<Rightarrow> exc" where
  "provider_error name e = ApiExc (provider_api_error (Some name) (extract_upstream_status e) (Some (se_text e))
     (Some (se_class e)) (extract_retry_after e))"

text \<open>
  Streams: an event comes some seconds after the previous one. \<open>EvStop\<close> ends the iteration, \<open>EvRaise\<close> raises, and a
  stream whose list is used up stays silent.
\<close>

datatype 'c stream_event = EvChunk 'c | EvStop | EvRaise exc

type_synonym 'c timed = "(rat \<times> 'c) list"

datatype 'c sdk_event = SdkEvent 'c | SdkEnd | SdkFail sdk_error | SdkFailOther

text \<open>The generator around a library stream: turns events into chunks, waits on when an event gives none.\<close>

fun stream_map :: "(sdk_error \<Rightarrow> exc) \<Rightarrow> ('e \<Rightarrow> normalized_chunk option) \<Rightarrow> rat \<Rightarrow> 'e sdk_event timed \<Rightarrow> normalized_chunk stream_event timed" where
  "stream_map err f waited [] = []"
| "stream_map err f waited ((d, SdkEvent e) # es) =
     (case f e of
        None \<Rightarrow> stream_map err f (waited + d) es
      | Some c \<Rightarrow> (waited + d, EvChunk c) # stream_map err f 0 es)"
| "stream_map err f waited ((d, SdkEnd) # es) = [(waited + d, EvStop)]"
| "stream_map err f waited ((d, SdkFail x) # es) = [(waited + d, EvRaise (err x))]"
| "stream_map err f waited ((d, SdkFailOther) # es) = [(waited + d, EvRaise OtherExc)]"

text \<open>A client of a library as the providers make it: seconds in all, to connect and to read; and how often it retries.\<close>

record sdk_client =
  sc_key :: string
  sc_timeout :: "rat \<times> rat \<times> rat"
  sc_max_retries :: nat

definition PROVIDER_TIMEOUT :: "rat \<times> rat \<times> rat" where
  "PROVIDER_TIMEOUT = (120, 5, 60)"

text \<open>A provider object: its key and the client, once there is one.\<close>

record provider_object =
  pv_key :: "string option"
  pv_client :: "sdk_client option"

definition not_configured :: "string \<Rightarrow> exc" where
  "not_configured who = ApiExc (plain_error ProviderConfigurationError (who @ '' provider is not configured''))"

definition has_key :: "string option \<Rightarrow> bool" where
  "has_key key \<longleftrightarrow> key \<noteq> None \<and> key \<noteq> Some []"

definition get_client :: "string \<Rightarrow> 'a provider_object_scheme \<Rightarrow> exc + (sdk_client \<times> 'a provider_object_scheme)" where
  "get_client who p =
     (if \<not> has_key (pv_key p) then Inl (not_configured who)
      else case pv_client p of
        Some c \<Rightarrow> Inr (c, p)
      | None \<Rightarrow>
          let c = \<lparr>sc_key = the (pv_key p), sc_timeout = PROVIDER_TIMEOUT, sc_max_retries = 1\<rparr>
          in Inr (c, p\<lparr>pv_client := Some c\<rparr>))"

text \<open>\<open>with_options(max_retries=0)\<close>, for streams.\<close>

definition without_retries :: "sdk_client \<Rightarrow> sdk_client" where
  "without_retries c = c\<lparr>sc_max_retries := 0\<rparr>"

subsection \<open>OpenAI (\<open>openai_provider.py\<close>)\<close>

definition new_openai :: "string option \<Rightarrow> provider_object" where
  "new_openai key = \<lparr>pv_key = key, pv_client = None\<rparr>"

record openai_params =
  op_model :: string
  op_messages :: "normalized_message list"
  op_temperature :: "rat option"
  op_max_tokens :: "int option"

definition to_openai_params :: "normalized_request \<Rightarrow> openai_params" where
  "to_openai_params r = \<lparr>op_model = nr_model r, op_messages = nr_messages r,
     op_temperature = nr_temperature r, op_max_tokens = nr_max_tokens r\<rparr>"

text \<open>Usage as the library gives it; every field may be missing.\<close>

record openai_usage =
  ou_prompt :: "int option"
  ou_completion :: "int option"
  ou_total :: "int option"

definition or_zero :: "int option \<Rightarrow> int" where
  "or_zero x = (case x of None \<Rightarrow> 0 | Some n \<Rightarrow> n)"

definition usage_from_openai :: "openai_usage option \<Rightarrow> normalized_usage" where
  "usage_from_openai u =
     (let prompt = or_zero (Option.bind u ou_prompt); completion = or_zero (Option.bind u ou_completion);
          tot = or_zero (Option.bind u ou_total)
      in \<lparr>prompt_tokens = prompt, completion_tokens = completion,
          total_tokens = (if tot = 0 then prompt + completion else tot)\<rparr>)"

record openai_choice =
  oc_role :: "string option"
  oc_content :: "string option"
  oc_finish_reason :: "string option"

record openai_response =
  oa_id :: string
  oa_model :: string
  oa_choices :: "openai_choice list"
  oa_usage :: "openai_usage option"

text \<open>
  \<open>create\<close> is the library's completion call through a client. The provider keeps its client for the next call, which then gets the same
  one (\<open>get_client_stable\<close>), so the object a call leaves behind is not returned.
\<close>

definition openai_chat :: "(sdk_client \<Rightarrow> openai_params \<Rightarrow> openai_response sdk_result) \<Rightarrow> provider_object \<Rightarrow> normalized_request \<Rightarrow>
    exc + normalized_response" where
  "openai_chat create p r =
     bind_res (get_client ''OpenAI'' p) (\<lambda>(client, _).
       case create client (to_openai_params r) of
         SdkError e \<Rightarrow> Inl (provider_error ''openai'' e)
       | SdkOther \<Rightarrow> Inl OtherExc
       | SdkOk resp \<Rightarrow>
           (case oa_choices resp of
              [] \<Rightarrow> Inl (ApiExc (provider_api_error (Some ''openai'') None (Some ''OpenAI response contained no choices'') None None))
            | choice # _ \<Rightarrow> Inr \<lparr>ns_id = oa_id resp, ns_model = oa_model resp,
                ns_message = \<lparr>nm_role = or_else (oc_role choice) ''assistant'', nm_content = or_else (oc_content choice) []\<rparr>,
                ns_finish_reason = oc_finish_reason choice, ns_usage = usage_from_openai (oa_usage resp)\<rparr>))"

definition openai_chunk :: "openai_response \<Rightarrow> normalized_chunk option" where
  "openai_chunk ev =
     (case oa_choices ev of
        [] \<Rightarrow> (case oa_usage ev of
                None \<Rightarrow> None
              | Some u \<Rightarrow> Some (empty_chunk\<lparr>nc_id := Some (oa_id ev), nc_model := Some (oa_model ev),
                                nc_usage := Some (usage_from_openai (Some u))\<rparr>))
      | choice # _ \<Rightarrow> Some \<lparr>nc_id = Some (oa_id ev), nc_model = Some (oa_model ev), nc_role = oc_role choice,
            nc_delta = or_else (oc_content choice) [], nc_finish_reason = oc_finish_reason choice,
            nc_usage = map_option (\<lambda>u. usage_from_openai (Some u)) (oa_usage ev)\<rparr>)"

text \<open>\<open>create\<close> gives the events of the streaming call; an error of the call itself is its first event.\<close>

definition openai_stream :: "(sdk_client \<Rightarrow> openai_params \<Rightarrow> openai_response sdk_event timed) \<Rightarrow> provider_object \<Rightarrow> normalized_request \<Rightarrow>
    normalized_chunk stream_event timed" where
  "openai_stream create p r =
     (case get_client ''OpenAI'' p of
        Inl e \<Rightarrow> [(0, EvRaise e)]
      | Inr (client, _) \<Rightarrow> stream_map (provider_error ''openai'') openai_chunk 0 (create (without_retries client) (to_openai_params r)))"

subsection \<open>Anthropic (\<open>anthropic_provider.py\<close>)\<close>

record anthropic_object = provider_object +
  pv_default_max_tokens :: int

definition new_anthropic :: "string option \<Rightarrow> int \<Rightarrow> anthropic_object" where
  "new_anthropic key default_max = \<lparr>pv_key = key, pv_client = None, pv_default_max_tokens = default_max\<rparr>"

text \<open>The module has its own copies of the two helpers.\<close>

definition anthropic_upstream_status :: "sdk_error \<Rightarrow> int option" where
  "anthropic_upstream_status e = (case se_status e of Some n \<Rightarrow> Some n | None \<Rightarrow> se_response_status e)"

definition anthropic_retry_after :: "sdk_error \<Rightarrow> string option" where
  "anthropic_retry_after e =
     (case (case se_response_headers e of Some (x # xs) \<Rightarrow> Some (x # xs) | _ \<Rightarrow> se_headers e) of
        None \<Rightarrow> None
      | Some h \<Rightarrow>
          (case map_of h ''retry-after'' of
             Some (c # cs) \<Rightarrow> Some (c # cs)
           | _ \<Rightarrow> (case map_of h ''Retry-After'' of Some (c # cs) \<Rightarrow> Some (c # cs) | _ \<Rightarrow> None)))"

definition anthropic_error :: "sdk_error \<Rightarrow> exc" where
  "anthropic_error e = ApiExc (provider_api_error (Some ''anthropic'') (anthropic_upstream_status e) (Some (se_text e))
     (Some (se_class e)) (anthropic_retry_after e))"

text \<open>
  A usage field as the library gives it: absent or \<open>None\<close>, a number, or something else, with its truth value and what \<open>int\<close> makes of it. The usage
  itself, a dictionary or an object, is its lookup.
\<close>

datatype token_value = NoToken | TokenCount int | OtherToken bool "int option"

definition usage_token :: "(string \<Rightarrow> token_value) option \<Rightarrow> string \<Rightarrow> int" where
  "usage_token usage key =
     (case usage of
        None \<Rightarrow> 0
      | Some get \<Rightarrow>
          (case get key of
             NoToken \<Rightarrow> 0
           | TokenCount n \<Rightarrow> n
           | OtherToken truth n \<Rightarrow> if truth then (case n of Some m \<Rightarrow> m | None \<Rightarrow> 0) else 0))"

record anthropic_params =
  ap_model :: string
  ap_messages :: "normalized_message list"
  ap_max_tokens :: int
  ap_system :: "string option"
  ap_temperature :: "rat option"

fun split_system :: "normalized_message list \<Rightarrow> string list \<Rightarrow> normalized_message list \<Rightarrow> string list \<times> normalized_message list" where
  "split_system [] system others = (system, others)"
| "split_system (m # ms) system others =
     (if nm_role m = ''system'' then split_system ms (system @ [nm_content m]) others
      else split_system ms system (others @ [m]))"

definition to_anthropic_params :: "int \<Rightarrow> normalized_request \<Rightarrow> anthropic_params" where
  "to_anthropic_params default_max r =
     (let (system, others) = split_system (nr_messages r) [] [] in
      \<lparr>ap_model = nr_model r, ap_messages = others,
       ap_max_tokens = (case nr_max_tokens r of None \<Rightarrow> default_max | Some n \<Rightarrow> if n = 0 then default_max else n),
       ap_system = (if system = [] then None else Some (py_join [CHR 0x0A, CHR 0x0A] system)),
       ap_temperature = nr_temperature r\<rparr>)"

definition FINISH_REASON_MAP :: "(string, string) dict" where
  "FINISH_REASON_MAP = [(''end_turn'', ''stop''), (''max_tokens'', ''length''), (''stop_sequence'', ''stop''), (''tool_use'', ''tool_calls'')]"

definition normalize_finish_reason :: "string option \<Rightarrow> string option" where
  "normalize_finish_reason reason =
     (case reason of None \<Rightarrow> None | Some r \<Rightarrow> Some (case map_of FINISH_REASON_MAP r of None \<Rightarrow> ''stop'' | Some x \<Rightarrow> x))"

text \<open>The text blocks of a message; \<open>None\<close> is a block without text.\<close>

definition extract_text :: "string option list \<Rightarrow> string" where
  "extract_text content = concat (List.map_filter id content)"

record anthropic_message =
  an_id :: string
  an_model :: string
  an_content :: "string option list"
  an_stop_reason :: "string option"
  an_usage :: "(string \<Rightarrow> token_value) option"

definition anthropic_usage :: "anthropic_message \<Rightarrow> normalized_usage" where
  "anthropic_usage m =
     (let input_tokens = usage_token (an_usage m) ''input_tokens''; output_tokens = usage_token (an_usage m) ''output_tokens''
      in \<lparr>prompt_tokens = input_tokens, completion_tokens = output_tokens, total_tokens = input_tokens + output_tokens\<rparr>)"

definition anthropic_chat :: "(sdk_client \<Rightarrow> anthropic_params \<Rightarrow> anthropic_message sdk_result) \<Rightarrow> anthropic_object \<Rightarrow> normalized_request \<Rightarrow>
    exc + normalized_response" where
  "anthropic_chat create p r =
     bind_res (get_client ''Anthropic'' p) (\<lambda>(client, _).
       case create client (to_anthropic_params (pv_default_max_tokens p) r) of
         SdkError e \<Rightarrow> Inl (anthropic_error e)
       | SdkOther \<Rightarrow> Inl OtherExc
       | SdkOk m \<Rightarrow> Inr \<lparr>ns_id = an_id m, ns_model = an_model m,
           ns_message = \<lparr>nm_role = ''assistant'', nm_content = extract_text (an_content m)\<rparr>,
           ns_finish_reason = normalize_finish_reason (an_stop_reason m), ns_usage = anthropic_usage m\<rparr>)"

text \<open>A text delta, or the final message after the last delta.\<close>

datatype anthropic_event = TextDelta string | FinalMessage anthropic_message

fun anthropic_chunk :: "string \<Rightarrow> anthropic_event \<Rightarrow> normalized_chunk option" where
  "anthropic_chunk model (TextDelta s) = Some (empty_chunk\<lparr>nc_model := Some model, nc_delta := s\<rparr>)"
| "anthropic_chunk model (FinalMessage m) = Some (empty_chunk\<lparr>nc_id := Some (an_id m), nc_model := Some (an_model m),
     nc_finish_reason := normalize_finish_reason (an_stop_reason m), nc_usage := Some (anthropic_usage m)\<rparr>)"

definition anthropic_stream :: "(sdk_client \<Rightarrow> anthropic_params \<Rightarrow> anthropic_event sdk_event timed) \<Rightarrow> anthropic_object \<Rightarrow> normalized_request \<Rightarrow>
    normalized_chunk stream_event timed" where
  "anthropic_stream create p r =
     (case get_client ''Anthropic'' p of
        Inl e \<Rightarrow> [(0, EvRaise e)]
      | Inr (client, _) \<Rightarrow> stream_map anthropic_error (anthropic_chunk (nr_model r)) 0
          (create (without_retries client) (to_anthropic_params (pv_default_max_tokens p) r)))"

subsection \<open>Facts\<close>

text \<open>A provider makes one client and keeps it.\<close>

lemma get_client_stable: "get_client who p = Inr (c, p') \<Longrightarrow> get_client who p' = Inr (c, p') \<and> pv_key p' = pv_key p"
  by (auto simp: get_client_def Let_def split: if_splits option.splits)

lemma get_client_new:
  "get_client who p = Inr (c, p') \<Longrightarrow> pv_client p = None \<Longrightarrow> c = \<lparr>sc_key = the (pv_key p), sc_timeout = PROVIDER_TIMEOUT, sc_max_retries = 1\<rparr>"
  by (auto simp: get_client_def Let_def split: if_splits)

lemma anthropic_error_eq: "anthropic_error = provider_error ''anthropic''"
  by (simp add: fun_eq_iff anthropic_error_def provider_error_def anthropic_upstream_status_def anthropic_retry_after_def
      extract_upstream_status_def extract_retry_after_def)

lemma split_system_eq:
  "split_system ms system others =
    (system @ map nm_content (filter (\<lambda>m. nm_role m = ''system'') ms), others @ filter (\<lambda>m. nm_role m \<noteq> ''system'') ms)"
  by (induction ms arbitrary: system others) simp_all

lemma map_of_fold_update: "map_of (fold (\<lambda>m d. AList.update m v d) ms d) k = (if k \<in> set ms then Some v else map_of d k)"
  by (induction ms arbitrary: d) auto

lemma model_providers_eq:
  "map_of (model_providers st) m = (if m \<in> set (anthropic_models st) then Some ''anthropic''
     else if m \<in> set (openai_models st) then Some ''openai'' else None)"
  by (simp add: model_providers_def map_of_fold_update)

lemma provider_for_model_iff:
  "(\<exists>name. provider_for_model st m = Inr name) \<longleftrightarrow> m \<in> set (openai_models st) \<or> m \<in> set (anthropic_models st)"
  by (simp add: provider_for_model_def model_providers_eq)

text \<open>The text that a stream of chunks carries, and the time it takes.\<close>

fun chunk_text :: "normalized_chunk stream_event timed \<Rightarrow> string" where
  "chunk_text [] = []"
| "chunk_text ((d, EvChunk c) # es) = nc_delta c @ chunk_text es"
| "chunk_text ((d, EvStop) # es) = chunk_text es"
| "chunk_text ((d, EvRaise x) # es) = chunk_text es"

definition total_delay :: "'c timed \<Rightarrow> rat" where
  "total_delay es = sum_list (map fst es)"

definition event_text :: "('e \<Rightarrow> normalized_chunk option) \<Rightarrow> 'e \<Rightarrow> string" where
  "event_text f e = (case f e of None \<Rightarrow> [] | Some c \<Rightarrow> nc_delta c)"

text \<open>A library stream: its events, then its last item.\<close>

definition sdk_run :: "'e timed \<Rightarrow> rat \<times> 'e sdk_event \<Rightarrow> 'e sdk_event timed" where
  "sdk_run es final = map (\<lambda>(d, e). (d, SdkEvent e)) es @ [final]"

lemma stream_map_run:
  fixes es :: "'e timed"
  assumes "\<forall>e. fin \<noteq> SdkEvent e"
  shows "chunk_text (stream_map err f w (sdk_run es (d, fin))) = concat (map (\<lambda>p. event_text f (snd p)) es) \<and>
    total_delay (stream_map err f w (sdk_run es (d, fin))) = w + total_delay es + d \<and>
    snd (last (stream_map err f w (sdk_run es (d, fin)))) = (case fin of SdkEnd \<Rightarrow> EvStop | SdkFail x \<Rightarrow> EvRaise (err x) | _ \<Rightarrow> EvRaise OtherExc) \<and>
    stream_map err f w (sdk_run es (d, fin)) \<noteq> []"
proof (induction es arbitrary: w)
  case Nil
  with assms show ?case by (cases fin) (auto simp: sdk_run_def total_delay_def)
next
  case (Cons p es)
  obtain d' e where p: "p = (d', e)" by (cases p)
  have r: "sdk_run ((d', e) # es) (d, fin) = (d', SdkEvent e) # sdk_run es (d, fin)" by (simp add: sdk_run_def)
  show ?case
  proof (cases "f e")
    case None
    then show ?thesis using Cons.IH [of "w + d'"] by (simp add: r p event_text_def total_delay_def)
  next
    case (Some c)
    then show ?thesis using Cons.IH [of 0] by (simp add: r p event_text_def total_delay_def)
  qed
qed


definition sample_nreq :: normalized_request where
  "sample_nreq = \<lparr>nr_model = ''m'', nr_messages = [\<lparr>nm_role = ''user'', nm_content = ''hi''\<rparr>], nr_stream = True,
     nr_temperature = None, nr_max_tokens = None, nr_ignored_fields = []\<rparr>"

definition sample_event :: "string \<Rightarrow> openai_response" where
  "sample_event s = \<lparr>oa_id = ''i'', oa_model = ''m'',
     oa_choices = [\<lparr>oc_role = None, oc_content = Some s, oc_finish_reason = None\<rparr>], oa_usage = None\<rparr>"


end
