(* ===== verification/Streaming.thy ===== *)
theory Streaming
  imports Prelude
begin

text \<open>
  \<open>app/streaming.py\<close>: the registry that bounds the number of concurrent streams per principal.
  Every operation runs under the registry's lock and never suspends while it holds it (the
  semaphore is only acquired when it is not locked), so an operation is one atomic step and the
  interleavings of concurrent requests are the sequences of steps.

  Lease objects are shared between the handler and the response generator and are mutated, so
  they live in a heap of the state; a lease is its index there.
\<close>

subsection \<open>The registry\<close>

record bounded_semaphore =
  sem_value :: nat
  sem_bound :: nat

text \<open>\<open>asyncio.BoundedSemaphore\<close>: nobody ever waits on these, so locked means no units left.\<close>

definition sem_new :: "nat \<Rightarrow> bounded_semaphore" where
  "sem_new n = \<lparr>sem_value = n, sem_bound = n\<rparr>"

definition sem_locked :: "bounded_semaphore \<Rightarrow> bool" where
  "sem_locked s \<longleftrightarrow> sem_value s = 0"

definition sem_acquire :: "bounded_semaphore \<Rightarrow> bounded_semaphore" where
  "sem_acquire s = s\<lparr>sem_value := sem_value s - 1\<rparr>"

definition sem_release :: "bounded_semaphore \<Rightarrow> py_error + bounded_semaphore" where
  "sem_release s = (if sem_value s \<ge> sem_bound s then Inl ValueError
     else Inr (s\<lparr>sem_value := sem_value s + 1\<rparr>))"

record stream_lease =
  lease_key :: string
  lease_released :: bool

record stream_limiter =
  max_concurrent_streams :: nat
  semaphores :: "(string, bounded_semaphore) dict"
  active :: "(string, int) dict"
  leases :: "stream_lease list"

definition new_limiter :: "nat \<Rightarrow> stream_limiter" where
  "new_limiter m = \<lparr>max_concurrent_streams = m, semaphores = [], active = [], leases = []\<rparr>"

definition active_of :: "stream_limiter \<Rightarrow> string \<Rightarrow> int" where
  "active_of sl k = (case map_of (active sl) k of None \<Rightarrow> 0 | Some n \<Rightarrow> n)"

definition acquire :: "string \<Rightarrow> stream_limiter \<Rightarrow> nat option \<times> stream_limiter" where
  "acquire key sl =
     (let (semaphore, sl1) =
        (case map_of (semaphores sl) key of
           None \<Rightarrow> (let s = sem_new (max_concurrent_streams sl)
                    in (s, sl\<lparr>semaphores := AList.update key s (semaphores sl)\<rparr>))
         | Some s \<Rightarrow> (s, sl))
      in if sem_locked semaphore then (None, sl1)
         else (Some (length (leases sl1)),
               sl1\<lparr>semaphores := AList.update key (sem_acquire semaphore) (semaphores sl1),
                    active := AList.update key (active_of sl1 key + 1) (active sl1),
                    leases := leases sl1 @ [\<lparr>lease_key = key, lease_released = False\<rparr>]\<rparr>))"

definition mark_released :: "nat \<Rightarrow> stream_limiter \<Rightarrow> stream_limiter" where
  "mark_released l sl = sl\<lparr>leases := (leases sl)[l := (leases sl ! l)\<lparr>lease_released := True\<rparr>]\<rparr>"

text \<open>A lease object exists only if \<open>acquire\<close> made it; other indexes name no object.\<close>

definition release :: "nat \<Rightarrow> stream_limiter \<Rightarrow> stream_limiter" where
  "release l sl = (if length (leases sl) \<le> l then sl else
     (let lease = leases sl ! l; key = lease_key lease in
      if lease_released lease then sl
      else let act = active_of sl key in
        (case map_of (semaphores sl) key of
           None \<Rightarrow> mark_released l sl
         | Some semaphore \<Rightarrow>
             if act \<le> 0 then mark_released l sl
             else (case sem_release semaphore of
                     Inl _ \<Rightarrow> mark_released l sl
                   | Inr semaphore' \<Rightarrow>
                       let sl1 = (mark_released l sl)\<lparr>semaphores :=
                             AList.update key semaphore' (semaphores sl)\<rparr>
                       in if act = 1
                          then sl1\<lparr>active := AList.delete key (active sl1),
                                    semaphores := AList.delete key (semaphores sl1)\<rparr>
                          else sl1\<lparr>active := AList.update key (act - 1) (active sl1)\<rparr>))))"

subsection \<open>The contract\<close>

text \<open>
  What a stream slot registry promises its clients: at most \<open>limit\<close> unreleased leases per key,
  a lease is refused only when all of them are taken, and releasing gives back exactly the one
  slot, once. \<open>owner s l\<close> is the key whose slot lease \<open>l\<close> still holds.
\<close>

locale stream_slots =
  fixes acq :: "string \<Rightarrow> 's \<Rightarrow> 'l option \<times> 's"
    and rel :: "'l \<Rightarrow> 's \<Rightarrow> 's"
    and held :: "'s \<Rightarrow> string \<Rightarrow> nat"
    and owner :: "'s \<Rightarrow> 'l \<Rightarrow> string option"
    and limit :: "'s \<Rightarrow> nat"
    and inv :: "'s \<Rightarrow> bool"
  assumes inv_acq: "inv s \<Longrightarrow> inv (snd (acq k s))"
    and inv_rel: "inv s \<Longrightarrow> inv (rel l s)"
    and limit_acq: "limit (snd (acq k s)) = limit s"
    and limit_rel: "limit (rel l s) = limit s"
    and held_limit: "inv s \<Longrightarrow> held s k \<le> limit s"
    and acq_iff: "inv s \<Longrightarrow> fst (acq k s) \<noteq> None \<longleftrightarrow> held s k < limit s"
    and granted: "inv s \<Longrightarrow> acq k s = (Some l, s') \<Longrightarrow>
      held s' = (held s)(k := held s k + 1) \<and> owner s l = None \<and> owner s' = (owner s)(l \<mapsto> k)"
    and refused: "inv s \<Longrightarrow> acq k s = (None, s') \<Longrightarrow> held s' = held s \<and> owner s' = owner s"
    and freed: "inv s \<Longrightarrow> owner s l = Some k \<Longrightarrow>
      held (rel l s) = (held s)(k := held s k - 1) \<and> 0 < held s k \<and> owner (rel l s) = (owner s)(l := None)"
    and not_owner: "inv s \<Longrightarrow> owner s l = None \<Longrightarrow> held (rel l s) = held s \<and> owner (rel l s) = owner s"
begin

lemma release_twice:
  assumes "inv s"
  shows "held (rel l (rel l s)) = held (rel l s)" and "owner (rel l (rel l s)) = owner (rel l s)"
proof -
  have "owner (rel l s) l = None"
    using assms freed [of s l] not_owner [of s l] by (cases "owner s l") auto
  with not_owner [OF inv_rel [OF assms]] show "held (rel l (rel l s)) = held (rel l s)"
    "owner (rel l (rel l s)) = owner (rel l s)" by auto
qed

lemma acquire_release:
  assumes "inv s" and "acq k s = (Some l, s')"
  shows "held (rel l s') = held s" and "owner (rel l s') = owner s"
proof -
  from assms have "inv s'" using inv_acq [of s k] by simp
  with granted [OF assms] freed [of s' l k] show "held (rel l s') = held s" "owner (rel l s') = owner s"
    by (auto simp: fun_upd_idem)
qed

text \<open>Operations on other keys do not disturb a key.\<close>

lemma acquire_other: "inv s \<Longrightarrow> k' \<noteq> k \<Longrightarrow> held (snd (acq k s)) k' = held s k'"
  using granted [of s k] refused [of s k] by (cases "acq k s"; cases "fst (acq k s)") auto

end

subsection \<open>The registry keeps the contract\<close>

definition held :: "stream_limiter \<Rightarrow> string \<Rightarrow> nat" where
  "held sl k = length (filter (\<lambda>x. lease_key x = k \<and> \<not> lease_released x) (leases sl))"

definition owner :: "stream_limiter \<Rightarrow> nat \<Rightarrow> string option" where
  "owner sl l = (if l < length (leases sl) \<and> \<not> lease_released (leases sl ! l)
     then Some (lease_key (leases sl ! l)) else None)"

text \<open>
  Both dictionaries have an entry exactly for the keys with unreleased leases; the counter is
  their number and the semaphore has the rest of the units.
\<close>

definition limiter_inv :: "stream_limiter \<Rightarrow> bool" where
  "limiter_inv sl \<longleftrightarrow> 0 < max_concurrent_streams sl \<and>
     (\<forall>k. held sl k \<le> max_concurrent_streams sl \<and>
        map_of (active sl) k = (if held sl k = 0 then None else Some (int (held sl k))) \<and>
        map_of (semaphores sl) k = (if held sl k = 0 then None else
          Some \<lparr>sem_value = max_concurrent_streams sl - held sl k, sem_bound = max_concurrent_streams sl\<rparr>))"

lemma limiter_invD:
  assumes "limiter_inv sl"
  shows "0 < max_concurrent_streams sl" and "held sl k \<le> max_concurrent_streams sl"
    and "map_of (active sl) k = (if held sl k = 0 then None else Some (int (held sl k)))"
    and "map_of (semaphores sl) k = (if held sl k = 0 then None else
      Some \<lparr>sem_value = max_concurrent_streams sl - held sl k, sem_bound = max_concurrent_streams sl\<rparr>)"
  using assms by (simp_all add: limiter_inv_def)

lemma length_filter_update:
  assumes "l < length xs" and "P (xs ! l)" and "\<not> P y"
  shows "length (filter P (xs[l := y])) = length (filter P xs) - 1" and "0 < length (filter P xs)"
proof -
  have "filter P xs = filter P (take l xs) @ xs ! l # filter P (drop (Suc l) xs)"
    using assms by (subst id_take_nth_drop [OF assms(1)]) simp
  moreover have "filter P (xs[l := y]) = filter P (take l xs) @ filter P (drop (Suc l) xs)"
    using assms by (simp add: upd_conv_take_nth_drop)
  ultimately show "length (filter P (xs[l := y])) = length (filter P xs) - 1" "0 < length (filter P xs)"
    by simp_all
qed

lemma length_filter_update_same:
  assumes "l < length xs" and "P y = P (xs ! l)"
  shows "length (filter P (xs[l := y])) = length (filter P xs)"
proof -
  have "filter P xs = filter P (take l xs) @ filter P [xs ! l] @ filter P (drop (Suc l) xs)"
    by (subst id_take_nth_drop [OF assms(1)]) simp
  with assms show ?thesis by (simp add: upd_conv_take_nth_drop)
qed

lemma held_mark:
  assumes "owner sl l = Some k"
  shows "held (mark_released l sl) = (held sl)(k := held sl k - 1)" and "0 < held sl k"
    and "owner (mark_released l sl) = (owner sl)(l := None)"
proof -
  from assms have l: "l < length (leases sl)" "\<not> lease_released (leases sl ! l)" "lease_key (leases sl ! l) = k"
    by (auto simp: owner_def split: if_splits)
  show "0 < held sl k" unfolding held_def using l
    by (intro length_filter_update(2) [where y = "(leases sl ! l)\<lparr>lease_released := True\<rparr>"]) auto
  show "held (mark_released l sl) = (held sl)(k := held sl k - 1)"
  proof
    fix j
    show "held (mark_released l sl) j = ((held sl)(k := held sl k - 1)) j"
    proof (cases "j = k")
      case True
      then show ?thesis using l
        by (simp add: held_def mark_released_def) (rule length_filter_update(1) [simplified], auto)
    next
      case False
      then show ?thesis using l
        by (simp add: held_def mark_released_def) (rule length_filter_update_same, auto)
    qed
  qed
  show "owner (mark_released l sl) = (owner sl)(l := None)"
    using l by (auto simp: owner_def mark_released_def fun_eq_iff nth_list_update)
qed

lemma held_cong: "leases a = leases b \<Longrightarrow> held a = held b"
  by (simp add: held_def fun_eq_iff)

lemma owner_cong: "leases a = leases b \<Longrightarrow> owner a = owner b"
  by (simp add: owner_def fun_eq_iff)

text \<open>The two operations under the invariant, branch by branch.\<close>

lemma acquire_full:
  assumes "limiter_inv sl" and "held sl k = max_concurrent_streams sl"
  shows "acquire k sl = (None, sl)"
  using assms limiter_invD(1) [OF assms(1)] limiter_invD(2-4) [OF assms(1), of k]
  by (simp add: acquire_def sem_locked_def)

lemma acquire_free:
  assumes "limiter_inv sl" and "held sl k < max_concurrent_streams sl"
  obtains sl' where "acquire k sl = (Some (length (leases sl)), sl')" and "limiter_inv sl'"
    and "leases sl' = leases sl @ [\<lparr>lease_key = k, lease_released = False\<rparr>]"
    and "max_concurrent_streams sl' = max_concurrent_streams sl"
proof -
  let ?sl' = "snd (acquire k sl)"
  note d = limiter_invD [OF assms(1)]
  have eqs: "acquire k sl = (Some (length (leases sl)), ?sl')"
    "leases ?sl' = leases sl @ [\<lparr>lease_key = k, lease_released = False\<rparr>]"
    "max_concurrent_streams ?sl' = max_concurrent_streams sl"
    "map_of (active ?sl') = (map_of (active sl))(k \<mapsto> int (held sl k) + 1)"
    "map_of (semaphores ?sl') = (map_of (semaphores sl))(k \<mapsto>
       \<lparr>sem_value = max_concurrent_streams sl - held sl k - 1, sem_bound = max_concurrent_streams sl\<rparr>)"
    using d(1) d(3,4) [of k] assms(2)
    by (auto simp: acquire_def sem_locked_def sem_new_def sem_acquire_def active_of_def Let_def)
  then have "held ?sl' = (held sl)(k := held sl k + 1)" by (auto simp: held_def)
  with eqs d assms(2) have "limiter_inv ?sl'" by (auto simp: limiter_inv_def)
  with eqs that show thesis by blast
qed

lemma release_dead: "owner sl l = None \<Longrightarrow> release l sl = sl"
  by (auto simp: release_def owner_def Let_def split: if_splits)

lemma release_live:
  assumes "limiter_inv sl" and "owner sl l = Some k"
  shows "limiter_inv (release l sl)" and "leases (release l sl) = leases (mark_released l sl)"
    and "max_concurrent_streams (release l sl) = max_concurrent_streams sl"
proof -
  note d = limiter_invD [OF assms(1)] and h = held_mark [OF assms(2)]
  from assms(2) have l: "l < length (leases sl)" "\<not> lease_released (leases sl ! l)" "lease_key (leases sl ! l) = k"
    by (auto simp: owner_def split: if_splits)
  have eqs: "leases (release l sl) = leases (mark_released l sl)"
    "max_concurrent_streams (release l sl) = max_concurrent_streams sl"
    "map_of (active (release l sl)) = (if held sl k = 1 then (map_of (active sl))(k := None)
       else (map_of (active sl))(k \<mapsto> int (held sl k) - 1))"
    "map_of (semaphores (release l sl)) = (if held sl k = 1 then (map_of (semaphores sl))(k := None)
       else (map_of (semaphores sl))(k \<mapsto>
         \<lparr>sem_value = max_concurrent_streams sl - held sl k + 1, sem_bound = max_concurrent_streams sl\<rparr>))"
    using l d(2,3,4) [of k] h(2)
    by (auto simp: release_def sem_release_def active_of_def mark_released_def Let_def)
  then show "leases (release l sl) = leases (mark_released l sl)"
    "max_concurrent_streams (release l sl) = max_concurrent_streams sl" by simp_all
  have "held (release l sl) = (held sl)(k := held sl k - 1)" using held_cong [OF eqs(1)] h(1) by simp
  with eqs d h(2) show "limiter_inv (release l sl)"
    by (auto simp: limiter_inv_def le_diff_conv of_nat_diff Suc_diff_le le_SucI)
qed

interpretation slots: stream_slots acquire release held owner max_concurrent_streams limiter_inv
proof
  fix s :: stream_limiter and k l s'
  show "limiter_inv s \<Longrightarrow> held s k \<le> max_concurrent_streams s" by (rule limiter_invD)
  then have lt: "limiter_inv s \<Longrightarrow> held s k \<noteq> max_concurrent_streams s \<Longrightarrow> held s k < max_concurrent_streams s"
    by simp
  show "limiter_inv s \<Longrightarrow> limiter_inv (snd (acquire k s))"
    using acquire_full [of s k] acquire_free [of s k] lt by (metis snd_conv)
  show "max_concurrent_streams (snd (acquire k s)) = max_concurrent_streams s"
    by (auto simp: acquire_def Let_def split: option.splits)
  show "limiter_inv s \<Longrightarrow> fst (acquire k s) \<noteq> None \<longleftrightarrow> held s k < max_concurrent_streams s"
    using acquire_full [of s k] acquire_free [of s k] lt
    by (metis fst_conv less_irrefl option.distinct(1))
  show "limiter_inv s \<Longrightarrow> limiter_inv (release l s)"
    using release_dead [of s l] release_live(1) [of s l] by (cases "owner s l") auto
  show "max_concurrent_streams (release l s) = max_concurrent_streams s"
    by (auto simp: release_def mark_released_def Let_def split: option.splits sum.splits)
  show "limiter_inv s \<Longrightarrow> owner s l = None \<Longrightarrow> held (release l s) = held s \<and> owner (release l s) = owner s"
    by (simp add: release_dead)
  show "limiter_inv s \<Longrightarrow> owner s l = Some k \<Longrightarrow>
      held (release l s) = (held s)(k := held s k - 1) \<and> 0 < held s k \<and> owner (release l s) = (owner s)(l := None)"
    using held_mark [of s l k] release_live(2) [of s l k] by (metis held_cong owner_cong)
  show "limiter_inv s \<Longrightarrow> acquire k s = (None, s') \<Longrightarrow> held s' = held s \<and> owner s' = owner s"
    using acquire_full [of s k] acquire_free [of s k] lt
    by (metis Pair_inject option.distinct(1))
  assume "limiter_inv s" "acquire k s = (Some l, s')"
  moreover from this have "held s k < max_concurrent_streams s"
    using acquire_full [of s k] lt by force
  ultimately have "l = length (leases s)"
    "leases s' = leases s @ [\<lparr>lease_key = k, lease_released = False\<rparr>]"
    using acquire_free [of s k] by (metis Pair_inject option.inject)+
  then show "held s' = (held s)(k := held s k + 1) \<and> owner s l = None \<and> owner s' = (owner s)(l \<mapsto> k)"
    by (auto simp: held_def owner_def fun_eq_iff nth_append less_Suc_eq)
qed

subsection \<open>All interleavings\<close>

text \<open>Requests acquire for any key and release any lease, any number of times, in any order.\<close>

inductive limiter_step :: "stream_limiter \<Rightarrow> stream_limiter \<Rightarrow> bool" where
  acq: "limiter_step sl (snd (acquire k sl))"
| rel: "limiter_step sl (release l sl)"

inductive limiter_reachable :: "nat \<Rightarrow> stream_limiter \<Rightarrow> bool" for m where
  start: "limiter_reachable m (new_limiter m)"
| step: "limiter_reachable m sl \<Longrightarrow> limiter_step sl sl' \<Longrightarrow> limiter_reachable m sl'"

lemma new_limiter_inv: "0 < m \<Longrightarrow> limiter_inv (new_limiter m)"
  by (simp add: limiter_inv_def new_limiter_def held_def)

lemma limiter_step_inv:
  "limiter_step sl sl' \<Longrightarrow> limiter_inv sl \<Longrightarrow>
    limiter_inv sl' \<and> max_concurrent_streams sl' = max_concurrent_streams sl"
  by (induction rule: limiter_step.induct)
    (simp_all add: slots.inv_acq slots.inv_rel slots.limit_acq slots.limit_rel)

lemma limiter_reachable_inv:
  assumes "limiter_reachable m sl" and "0 < m"
  shows "limiter_inv sl \<and> max_concurrent_streams sl = m"
  using assms(1)
proof (induction rule: limiter_reachable.induct)
  case start
  with assms(2) show ?case by (simp add: new_limiter_inv) (simp add: new_limiter_def)
next
  case (step sl sl')
  with limiter_step_inv show ?case by blast
qed

text \<open>A released lease object stays released, and lease objects are never dropped.\<close>

lemma limiter_step_released:
  assumes "limiter_step sl sl'" and "l < length (leases sl)" and "owner sl l = None"
  shows "l < length (leases sl') \<and> owner sl' l = None"
  using assms
proof (induction rule: limiter_step.induct)
  case (acq sl k)
  then show ?case
    by (auto simp: acquire_def owner_def nth_append Let_def split: option.splits if_splits)
next
  case (rel sl j)
  then show ?case
    by (auto simp: release_def owner_def mark_released_def nth_list_update Let_def
        split: option.splits sum.splits if_splits)
qed

lemma limiter_steps_released:
  assumes "limiter_step\<^sup>*\<^sup>* sl sl'" and "l < length (leases sl)" and "owner sl l = None"
  shows "l < length (leases sl') \<and> owner sl' l = None"
  using assms(1)
  by (induction rule: rtranclp_induct) (use assms limiter_step_released in blast)+

lemma release_owner: "limiter_inv sl \<Longrightarrow> owner (release l sl) l = None"
  using slots.freed [of sl l] slots.not_owner [of sl l] by (cases "owner sl l") auto

lemma release_length: "length (leases (release l sl)) = length (leases sl)"
  by (auto simp: release_def mark_released_def Let_def split: option.splits sum.splits)

text \<open>The abstract limiter: one counter per key.\<close>

definition spec_acquire :: "nat \<Rightarrow> string \<Rightarrow> (string \<Rightarrow> nat) \<Rightarrow> bool \<times> (string \<Rightarrow> nat)" where
  "spec_acquire m k f = (if f k < m then (True, f(k := f k + 1)) else (False, f))"

definition spec_release :: "string option \<Rightarrow> (string \<Rightarrow> nat) \<Rightarrow> (string \<Rightarrow> nat)" where
  "spec_release ko f = (case ko of None \<Rightarrow> f | Some k \<Rightarrow> f(k := f k - 1))"

text \<open>In every state that any interleaving of acquires and releases can reach, no key holds more
  than the configured number of streams, and the next acquire is granted exactly when a slot is
  free.\<close>

theorem stream_limit_never_exceeded:
  assumes "0 < m" and "limiter_reachable m sl"
  shows "held sl k \<le> m \<and> (fst (acquire k sl) \<noteq> None \<longleftrightarrow> held sl k < m)"
  using limiter_reachable_inv [OF assms(2,1)] slots.held_limit [of sl k] slots.acq_iff [of sl k] by simp

theorem stream_limit_never_exceeded_witness:
  "held (snd (acquire ''a'' (new_limiter 1))) ''a'' \<le> 1 \<and>
   fst (acquire ''a'' (snd (acquire ''a'' (new_limiter 1)))) = None"
proof -
  have "limiter_reachable 1 (snd (acquire ''a'' (new_limiter 1)))"
    by (rule limiter_reachable.step [OF limiter_reachable.start limiter_step.acq])
  moreover have "held (snd (acquire ''a'' (new_limiter 1))) ''a'' = 1" by code_simp
  ultimately show ?thesis
    using stream_limit_never_exceeded [of 1 "snd (acquire ''a'' (new_limiter 1))" "''a''"] by simp
qed

text \<open>When the last stream of a key has been released, neither dictionary keeps an entry for it, so
  the registry holds entries only for keys with running streams.\<close>

theorem stream_registry_no_leak:
  assumes "0 < m" and "limiter_reachable m sl"
  shows "(map_of (semaphores sl) k = None \<longleftrightarrow> held sl k = 0) \<and>
    map_of (active sl) k = (if held sl k = 0 then None else Some (int (held sl k)))"
  using limiter_reachable_inv [OF assms(2,1)] limiter_invD(3,4) [of sl k] by auto

theorem stream_registry_no_leak_witness:
  "map_of (semaphores (release 0 (snd (acquire ''a'' (new_limiter 2))))) ''a'' = None"
proof -
  have "limiter_reachable 2 (release 0 (snd (acquire ''a'' (new_limiter 2))))"
    by (rule limiter_reachable.step [OF limiter_reachable.step [OF limiter_reachable.start limiter_step.acq]
          limiter_step.rel])
  moreover have "held (release 0 (snd (acquire ''a'' (new_limiter 2)))) ''a'' = 0" by code_simp
  ultimately show ?thesis
    using stream_registry_no_leak [of 2 "release 0 (snd (acquire ''a'' (new_limiter 2)))" "''a''"] by simp
qed

text \<open>A lease gives its slot back once: whatever happens after its first release, releasing it again
  changes nothing, so the handler and the response generator may both release it.\<close>

theorem release_effective_once:
  assumes "0 < m" and "limiter_reachable m sl" and "l < length (leases sl)"
    and "limiter_step\<^sup>*\<^sup>* (release l sl) sl'"
  shows "release l sl' = sl'"
proof -
  have "limiter_inv sl" using limiter_reachable_inv [OF assms(2,1)] by simp
  then have "owner (release l sl) l = None" by (rule release_owner)
  with limiter_steps_released [OF assms(4)] assms(3) have "owner sl' l = None"
    by (simp add: release_length)
  then show ?thesis by (rule release_dead)
qed

theorem release_effective_once_witness:
  "let s1 = snd (acquire ''a'' (new_limiter 1)); s2 = snd (acquire ''a'' (release 0 s1))
   in release 0 s2 = s2 \<and> held s2 ''a'' = 1"
proof -
  let ?s1 = "snd (acquire ''a'' (new_limiter 1))"
  let ?s2 = "snd (acquire ''a'' (release 0 ?s1))"
  have r: "limiter_reachable 1 ?s1"
    by (rule limiter_reachable.step [OF limiter_reachable.start limiter_step.acq])
  have "limiter_step\<^sup>*\<^sup>* (release 0 ?s1) ?s2" by (simp add: limiter_step.acq r_into_rtranclp)
  moreover have "0 < length (leases ?s1)" and "held ?s2 ''a'' = 1" by code_simp+
  ultimately show ?thesis using release_effective_once [OF _ r, of 0 ?s2] by (simp add: Let_def)
qed

text \<open>C32: the semaphores, counters and lease flags implement one counter per key: acquiring and
  releasing commute with the abstraction to the number of unreleased leases.\<close>

theorem limiter_refines_counters:
  assumes "0 < m" and "limiter_reachable m sl"
  shows "(fst (acquire k sl) \<noteq> None, held (snd (acquire k sl))) = spec_acquire m k (held sl) \<and>
    held (release l sl) = spec_release (owner sl l) (held sl)"
proof
  have inv: "limiter_inv sl" and m: "max_concurrent_streams sl = m"
    using limiter_reachable_inv [OF assms(2,1)] by auto
  obtain r sl' where a: "acquire k sl = (r, sl')" by (cases "acquire k sl")
  show "(fst (acquire k sl) \<noteq> None, held (snd (acquire k sl))) = spec_acquire m k (held sl)"
    using slots.acq_iff [OF inv, of k] slots.granted [OF inv] slots.refused [OF inv] a m
    by (cases r) (auto simp: spec_acquire_def)
  show "held (release l sl) = spec_release (owner sl l) (held sl)"
    using slots.freed [OF inv] slots.not_owner [OF inv] by (auto simp: spec_release_def split: option.split)
qed

theorem limiter_refines_counters_witness:
  "(fst (acquire ''a'' (new_limiter 3)) \<noteq> None, held (snd (acquire ''a'' (new_limiter 3)))) =
   (True, (held (new_limiter 3))(''a'' := 1))"
  using limiter_refines_counters [OF _ limiter_reachable.start, of 3 "''a''" 0]
  by (simp add: spec_acquire_def) (simp add: held_def new_limiter_def)

end
