(* ===== verification/RateLimit.thy ===== *)
theory RateLimit
  imports Complex_Main Config Errors
begin

text \<open>
  \<open>app/ratelimit/\<close>: the token buckets, one per key, in process memory or in Redis (where two Lua
  scripts do the work), the dependency \<open>enforce_rate_limit\<close> and the choice of the backend.

  Floating-point numbers are rationals, with exact arithmetic. Clock readings are arguments. The
  asyncio lock of the memory backend and the atomicity of a Redis script make an operation one
  step. In Redis, tokens and time stamps are stored as text: \<open>rt x\<close> is the number that
  \<open>tonumber(tostring(x))\<close> gives back in Lua, a parameter because Lua prints 14 digits only.
\<close>

subsection \<open>Results (\<open>base.py\<close>)\<close>

datatype remaining = Finite int | Infinite

record rate_limit_result =
  allowed :: bool
  retry_after_seconds :: rat
  remaining :: remaining

definition unlimited :: rate_limit_result where
  "unlimited = \<lparr>allowed = True, retry_after_seconds = 0, remaining = Infinite\<rparr>"

text \<open>\<open>int(x)\<close> of a float rounds towards zero.\<close>

definition py_int :: "rat \<Rightarrow> int" where
  "py_int x = (if 0 \<le> x then \<lfloor>x\<rfloor> else \<lceil>x\<rceil>)"

definition enforce_rate_limit :: "rate_limit_result \<Rightarrow> 'p \<Rightarrow> api_error + 'p" where
  "enforce_rate_limit result who =
     (if allowed result then Inr who
      else Inl (api_error_init RateLimitError ''Rate limit exceeded'' None None None
        (Some [(''Retry-After'', nat_str (nat (max 1 \<lceil>retry_after_seconds result\<rceil>)))])))"

subsection \<open>Memory backend (\<open>memory.py\<close>)\<close>

record bucket =
  tokens :: rat
  updated_at :: rat

record memory_limiter =
  ml_rpm :: int
  ml_capacity :: rat
  ml_refill :: rat
  ml_buckets :: "(string, bucket) dict"

definition new_memory_limiter :: "int \<Rightarrow> memory_limiter" where
  "new_memory_limiter rpm =
     (let cap = rat_of_int (max rpm 0) in
      \<lparr>ml_rpm = rpm, ml_capacity = cap, ml_refill = (if cap > 0 then cap / 60 else 0), ml_buckets = []\<rparr>)"

definition refill_bucket :: "string \<Rightarrow> rat \<Rightarrow> bool \<Rightarrow> memory_limiter \<Rightarrow> bucket option \<times> memory_limiter" where
  "refill_bucket key now create ml =
     (case (case map_of (ml_buckets ml) key of
              Some b \<Rightarrow> Some b
            | None \<Rightarrow> if create then Some \<lparr>tokens = ml_capacity ml, updated_at = now\<rparr> else None) of
        None \<Rightarrow> (None, ml)
      | Some b \<Rightarrow>
          let elapsed = now - updated_at b;
              b' = \<lparr>tokens = min (ml_capacity ml) (tokens b + elapsed * ml_refill ml), updated_at = now\<rparr>
          in (Some b', ml\<lparr>ml_buckets := AList.update key b' (ml_buckets ml)\<rparr>))"

definition result_for_bucket :: "bucket option \<Rightarrow> memory_limiter \<Rightarrow> py_error + rate_limit_result" where
  "result_for_bucket bo ml =
     (case bo of
        None \<Rightarrow> Inr unlimited
      | Some b \<Rightarrow>
          if tokens b \<ge> 1
          then Inr \<lparr>allowed = True, retry_after_seconds = 0, remaining = Finite (max (py_int (tokens b)) 0)\<rparr>
          else if ml_refill ml = 0 then Inl ZeroDivisionError
          else Inr \<lparr>allowed = False, retry_after_seconds = max ((1 - tokens b) / ml_refill ml) 1,
                   remaining = Finite 0\<rparr>)"

definition mem_preview :: "string \<Rightarrow> rat \<Rightarrow> memory_limiter \<Rightarrow> (py_error + rate_limit_result) \<times> memory_limiter" where
  "mem_preview key now ml =
     (if ml_rpm ml \<le> 0 then (Inr unlimited, ml)
      else let (b, ml') = refill_bucket key now False ml in (result_for_bucket b ml', ml'))"

definition mem_allow :: "string \<Rightarrow> rat \<Rightarrow> memory_limiter \<Rightarrow> (py_error + rate_limit_result) \<times> memory_limiter" where
  "mem_allow key now ml =
     (if ml_rpm ml \<le> 0 then (Inr unlimited, ml)
      else case refill_bucket key now True ml of
        (None, ml') \<Rightarrow> (Inr unlimited, ml')
      | (Some b, ml') \<Rightarrow>
          if tokens b \<ge> 1
          then let b' = b\<lparr>tokens := tokens b - 1\<rparr> in
            (Inr \<lparr>allowed = True, retry_after_seconds = 0, remaining = Finite (max (py_int (tokens b')) 0)\<rparr>,
             ml'\<lparr>ml_buckets := AList.update key b' (ml_buckets ml')\<rparr>)
          else (result_for_bucket (Some b) ml', ml'))"

subsection \<open>Redis backend (\<open>redis.py\<close>)\<close>

text \<open>
  The hash under one Redis key with its two fields and the server time at which it expires. A key
  that has expired reads as absent. Server time \<open>srv\<close> and the worker's clock \<open>now\<close> are different
  clocks.
\<close>

record redis_bucket =
  rb_tokens :: rat
  rb_ts :: rat
  rb_expires :: rat

type_synonym redis_store = "(string, redis_bucket) dict"

record redis_limiter =
  rl_rpm :: int
  rl_capacity :: rat
  rl_refill :: rat
  key_prefix :: string
  ttl_seconds :: int

text \<open>\<open>__init__\<close> and \<open>from_url\<close>, the only constructor call of the program: the refill rate is not given.\<close>

definition from_url :: "int \<Rightarrow> string \<Rightarrow> redis_limiter" where
  "from_url rpm prefix =
     (let cap = rat_of_int (max rpm 0) in
      \<lparr>rl_rpm = rpm, rl_capacity = cap, rl_refill = (if cap > 0 then cap / 60 else 0),
       key_prefix = prefix, ttl_seconds = 5 * 60\<rparr>)"

definition hmget :: "string \<Rightarrow> rat \<Rightarrow> redis_store \<Rightarrow> (rat \<times> rat) option" where
  "hmget key srv store =
     (case map_of store key of
        None \<Rightarrow> None
      | Some b \<Rightarrow> if srv < rb_expires b then Some (rb_tokens b, rb_ts b) else None)"

text \<open>The lines that both scripts share: read the bucket and refill it.\<close>

definition script_refill :: "string \<Rightarrow> rat \<Rightarrow> rat \<Rightarrow> rat \<Rightarrow> rat \<Rightarrow> redis_store \<Rightarrow> rat" where
  "script_refill key cap refill now srv store =
     (let (toks, ts) = (case hmget key srv store of None \<Rightarrow> (cap, now) | Some p \<Rightarrow> p);
          elapsed = (if now - ts < 0 then 0 else now - ts);
          toks' = toks + elapsed * refill
      in if toks' > cap then cap else toks')"

text \<open>A script returns the flag and two numbers, all as text.\<close>

definition preview_script :: "(rat \<Rightarrow> rat) \<Rightarrow> string \<Rightarrow> rat \<Rightarrow> rat \<Rightarrow> rat \<Rightarrow> rat \<Rightarrow> redis_store \<Rightarrow> bool \<times> rat \<times> rat" where
  "preview_script rt key cap refill now srv store =
     (let toks = script_refill key cap refill now srv store in
      if toks \<ge> 1 then (True, rt (rat_of_int \<lfloor>toks\<rfloor>), 0)
      else (False, rt (rat_of_int \<lfloor>toks\<rfloor>), rt ((1 - toks) / refill)))"

definition allow_script :: "(rat \<Rightarrow> rat) \<Rightarrow> string \<Rightarrow> rat \<Rightarrow> rat \<Rightarrow> rat \<Rightarrow> rat \<Rightarrow> rat \<Rightarrow> redis_store \<Rightarrow>
    (bool \<times> rat \<times> rat) \<times> redis_store" where
  "allow_script rt key cap refill now ttl srv store =
     (let toks = script_refill key cap refill now srv store;
          (flag, toks', retry) = (if toks \<ge> 1 then (True, toks - 1, 0) else (False, toks, (1 - toks) / refill));
          store' = AList.update key
            \<lparr>rb_tokens = rt toks', rb_ts = rt now, rb_expires = srv + ttl\<rparr> store
      in ((flag, rt (rat_of_int \<lfloor>toks'\<rfloor>), rt retry), store'))"

definition parse_script_result :: "bool \<times> rat \<times> rat \<Rightarrow> bool \<times> int \<times> rat" where
  "parse_script_result reply = (case reply of (flag, floor_tokens, retry) \<Rightarrow>
     (flag, max (py_int floor_tokens) 0, retry))"

definition script_result :: "bool \<times> rat \<times> rat \<Rightarrow> rate_limit_result" where
  "script_result reply = (case parse_script_result reply of (flag, rem, retry) \<Rightarrow>
     \<lparr>allowed = flag, retry_after_seconds = (if flag then 0 else max retry 0), remaining = Finite rem\<rparr>)"

definition redis_allow :: "(rat \<Rightarrow> rat) \<Rightarrow> redis_limiter \<Rightarrow> string \<Rightarrow> rat \<Rightarrow> rat \<Rightarrow> redis_store \<Rightarrow>
    rate_limit_result \<times> redis_store" where
  "redis_allow rt rl key now srv store =
     (if rl_rpm rl \<le> 0 then (unlimited, store)
      else let (reply, store') = allow_script rt (key_prefix rl @ key) (rl_capacity rl) (rl_refill rl) now
             (rat_of_int (ttl_seconds rl)) srv store
           in (script_result reply, store'))"

definition redis_preview :: "(rat \<Rightarrow> rat) \<Rightarrow> redis_limiter \<Rightarrow> string \<Rightarrow> rat \<Rightarrow> rat \<Rightarrow> redis_store \<Rightarrow>
    rate_limit_result \<times> redis_store" where
  "redis_preview rt rl key now srv store =
     (if rl_rpm rl \<le> 0 then (unlimited, store)
      else (script_result (preview_script rt (key_prefix rl @ key) (rl_capacity rl) (rl_refill rl) now srv store),
            store))"

subsection \<open>Choice of the backend (\<open>__init__.py\<close>)\<close>

datatype rate_limit_backend = MemoryBackend memory_limiter | RedisBackend redis_limiter

text \<open>\<open>connect url\<close> is what \<open>Redis.from_url\<close> of the client library does: raise or return a client.\<close>

definition build_rate_limit_backend ::
    "(string \<Rightarrow> py_error + unit) \<Rightarrow> settings \<Rightarrow> int option \<Rightarrow> string option \<Rightarrow> py_error + rate_limit_backend" where
  "build_rate_limit_backend connect st requests_per_minute prefix =
     (let rpm = (case requests_per_minute of None \<Rightarrow> rate_limit_rpm st | Some n \<Rightarrow> n);
          backend = py_lower (settings.rate_limit_backend st)
      in if backend = ''memory'' then Inr (MemoryBackend (new_memory_limiter rpm))
         else if backend = ''redis'' then
           (case redis_url st of
              None \<Rightarrow> if rate_limit_strict st then Inl ValueError else Inr (MemoryBackend (new_memory_limiter rpm))
            | Some url \<Rightarrow>
                if url = [] then (if rate_limit_strict st then Inl ValueError
                                  else Inr (MemoryBackend (new_memory_limiter rpm)))
                else case connect url of
                  Inr _ \<Rightarrow> Inr (RedisBackend (from_url rpm (case prefix of None \<Rightarrow> ''rl:'' | Some p \<Rightarrow> p)))
                | Inl e \<Rightarrow> if rate_limit_strict st then Inl e else Inr (MemoryBackend (new_memory_limiter rpm)))
         else Inl ValueError)"

subsection \<open>Sequences of operations\<close>

datatype rl_op = OpAllow string | OpPreview string

fun rl_step where
  "rl_step allow preview t (OpAllow k) s = allow k t s"
| "rl_step allow preview t (OpPreview k) s = preview k t s"

text \<open>The results of a timed sequence of operations, and the state after it.\<close>

fun rl_run :: "(string \<Rightarrow> rat \<Rightarrow> 's \<Rightarrow> 'r \<times> 's) \<Rightarrow> (string \<Rightarrow> rat \<Rightarrow> 's \<Rightarrow> 'r \<times> 's) \<Rightarrow>
    's \<Rightarrow> (rat \<times> rl_op) list \<Rightarrow> 'r list \<times> 's" where
  "rl_run allow preview s [] = ([], s)"
| "rl_run allow preview s ((t, opn) # ops) =
     (let (r, s1) = rl_step allow preview t opn s; (rs, s2) = rl_run allow preview s1 ops in (r # rs, s2))"

definition is_allowed :: "py_error + rate_limit_result \<Rightarrow> bool" where
  "is_allowed r = (case r of Inl _ \<Rightarrow> False | Inr x \<Rightarrow> allowed x)"

text \<open>How many requests of a key were granted, and how many were made.\<close>

fun granted :: "string \<Rightarrow> (rat \<times> rl_op) list \<Rightarrow> (py_error + rate_limit_result) list \<Rightarrow> nat" where
  "granted k ((t, OpAllow j) # ops) (r # rs) = (if j = k \<and> is_allowed r then 1 else 0) + granted k ops rs"
| "granted k ((t, OpPreview j) # ops) (r # rs) = granted k ops rs"
| "granted k _ _ = 0"

definition requested :: "string \<Rightarrow> (rat \<times> rl_op) list \<Rightarrow> nat" where
  "requested k ops = length (filter (\<lambda>p. snd p = OpAllow k) ops)"

text \<open>The clock does not run backwards: times from \<open>t\<close> on, in order, up to \<open>T\<close>.\<close>

fun clock_ok :: "rat \<Rightarrow> rat \<Rightarrow> (rat \<times> rl_op) list \<Rightarrow> bool" where
  "clock_ok t T [] \<longleftrightarrow> t \<le> T"
| "clock_ok t T ((t', opn) # ops) \<longleftrightarrow> t \<le> t' \<and> clock_ok t' T ops"

lemma clock_ok_le: "clock_ok t T ops \<Longrightarrow> t \<le> T"
  by (induction ops arbitrary: t) fastforce+

lemma rl_run_Cons [simp]:
  "fst (rl_run allow preview s ((t, opn) # ops)) =
     fst (rl_step allow preview t opn s) # fst (rl_run allow preview (snd (rl_step allow preview t opn s)) ops)"
  "snd (rl_run allow preview s ((t, opn) # ops)) =
     snd (rl_run allow preview (snd (rl_step allow preview t opn s)) ops)"
  by (simp_all add: Let_def split: prod.split)

lemma requested_Cons [simp]: "requested k ((t, opn) # ops) = (if opn = OpAllow k then 1 else 0) + requested k ops"
  by (simp add: requested_def)

declare rl_run.simps(2) [simp del]

subsection \<open>The contract of a backend\<close>

text \<open>
  \<open>level s t k\<close> is the number of tokens key \<open>k\<close> has at time \<open>t\<close>; \<open>slack\<close> is what one request can gain
  by rounding. Times run up to \<open>horizon\<close>.
\<close>

locale rate_limiter =
  fixes allow preview :: "string \<Rightarrow> rat \<Rightarrow> 's \<Rightarrow> (py_error + rate_limit_result) \<times> 's"
    and level :: "'s \<Rightarrow> rat \<Rightarrow> string \<Rightarrow> rat"
    and inv :: "rat \<Rightarrow> 's \<Rightarrow> bool"
    and cap rate slack horizon :: rat
  assumes rate_pos: "inv t s \<Longrightarrow> 0 < rate \<and> 1 \<le> cap \<and> 0 \<le> slack"
    and inv_later: "inv t s \<Longrightarrow> t \<le> t' \<Longrightarrow> inv t' s"
    and inv_allow: "inv t s \<Longrightarrow> t \<le> t' \<Longrightarrow> t' \<le> horizon \<Longrightarrow> inv t' (snd (allow k t' s))"
    and inv_preview: "inv t s \<Longrightarrow> t \<le> t' \<Longrightarrow> t' \<le> horizon \<Longrightarrow> inv t' (snd (preview k t' s))"
    and level_bounds: "inv t s \<Longrightarrow> t \<le> t' \<Longrightarrow> 0 \<le> level s t' k \<and> level s t' k \<le> cap"
    and level_grow: "inv t s \<Longrightarrow> t \<le> t1 \<Longrightarrow> t1 \<le> t2 \<Longrightarrow> level s t2 k \<le> level s t1 k + (t2 - t1) * rate"
    and allow_result: "inv t s \<Longrightarrow> t \<le> t' \<Longrightarrow> \<exists>r. fst (allow k t' s) = Inr r \<and> (allowed r \<longleftrightarrow> 1 \<le> level s t' k)"
    and preview_result: "inv t s \<Longrightarrow> t \<le> t' \<Longrightarrow> \<exists>r. fst (preview k t' s) = Inr r \<and> (allowed r \<longleftrightarrow> 1 \<le> level s t' k)"
    and allow_level: "inv t s \<Longrightarrow> t \<le> t' \<Longrightarrow> t' \<le> horizon \<Longrightarrow>
      level (snd (allow k t' s)) t' k \<le> level s t' k - (if 1 \<le> level s t' k then 1 else 0) + slack"
    and allow_other: "inv t s \<Longrightarrow> t \<le> t' \<Longrightarrow> t' \<le> t'' \<Longrightarrow> j \<noteq> k \<Longrightarrow> level (snd (allow k t' s)) t'' j = level s t'' j"
    and preview_level: "inv t s \<Longrightarrow> t \<le> t' \<Longrightarrow> t' \<le> t'' \<Longrightarrow> level (snd (preview k t' s)) t'' j = level s t'' j"
begin

lemma inv_step: "inv t s \<Longrightarrow> t \<le> t' \<Longrightarrow> t' \<le> horizon \<Longrightarrow> inv t' (snd (rl_step allow preview t' opn s))"
  by (cases opn) (simp_all add: inv_allow inv_preview)

lemma is_allowed_allow: "inv t s \<Longrightarrow> t \<le> t' \<Longrightarrow> is_allowed (fst (allow k t' s)) \<longleftrightarrow> 1 \<le> level s t' k"
  using allow_result [of t s t' k] by (auto simp: is_allowed_def)

text \<open>No operation raises.\<close>

lemma run_total:
  assumes "inv t s" and "clock_ok t T ops" and "T \<le> horizon"
  shows "\<forall>r \<in> set (fst (rl_run allow preview s ops)). \<exists>x. r = Inr x"
  using assms
proof (induction ops arbitrary: t s)
  case (Cons p ops)
  obtain t' opn where p: "p = (t', opn)" by (cases p)
  have le: "t \<le> t'" "t' \<le> horizon" using Cons.prems p clock_ok_le [of t' T ops] by auto
  have "\<exists>x. fst (rl_step allow preview t' opn s) = Inr x"
    using allow_result [OF Cons.prems(1) le(1)] preview_result [OF Cons.prems(1) le(1)] by (cases opn) fastforce+
  moreover note Cons.IH [OF inv_step [OF Cons.prems(1) le, of opn]]
  ultimately show ?case using Cons.prems p by auto
qed simp

text \<open>The bucket bounds what is granted, over any sequence of operations on any keys.\<close>

lemma rate_bound:
  assumes "inv t s" and "clock_ok t T ops" and "T \<le> horizon"
  shows "of_nat (granted k ops (fst (rl_run allow preview s ops))) \<le>
    level s t k + (T - t) * rate + of_nat (requested k ops) * slack"
  using assms
proof (induction ops arbitrary: t s)
  case Nil
  then show ?case using rate_pos [of t s] level_bounds [of t s t k] by (simp add: requested_def)
next
  case (Cons p ops)
  obtain t' opn where p: "p = (t', opn)" by (cases p)
  have le: "t \<le> t'" "t' \<le> T" "t' \<le> horizon" using Cons.prems p clock_ok_le [of t' T ops] by auto
  let ?s' = "snd (rl_step allow preview t' opn s)"
  let ?g = "granted k ops (fst (rl_run allow preview ?s' ops))"
  have IH: "of_nat ?g \<le> level ?s' t' k + (T - t') * rate + of_nat (requested k ops) * slack"
    using Cons.IH [OF inv_step [OF Cons.prems(1) le(1,3), of opn]] Cons.prems p by simp
  have grow: "level s t' k + (T - t') * rate \<le> level s t k + (T - t) * rate"
    using level_grow [OF Cons.prems(1) order.refl le(1), of k] by (simp add: algebra_simps)
  show ?case
  proof (cases "opn = OpAllow k")
    case True
    then show ?thesis
      using IH grow allow_level [OF Cons.prems(1) le(1,3), of k] is_allowed_allow [OF Cons.prems(1) le(1), of k] p
      by (simp add: algebra_simps split: if_splits)
  next
    case False
    have "level ?s' t' k = level s t' k"
      using False allow_other [OF Cons.prems(1) le(1) order.refl] preview_level [OF Cons.prems(1) le(1) order.refl]
      by (cases opn) auto
    moreover have "granted k (p # ops) (fst (rl_run allow preview s (p # ops))) = ?g"
      using p False by (cases opn) simp_all
    ultimately show ?thesis using IH grow p False by simp
  qed
qed

lemma run_inv:
  assumes "inv t s" and "clock_ok t T ops" and "T \<le> horizon"
  shows "inv T (snd (rl_run allow preview s ops))"
  using assms
proof (induction ops arbitrary: t s)
  case (Cons p ops)
  obtain t' opn where p: "p = (t', opn)" by (cases p)
  have le: "t \<le> t'" "t' \<le> horizon" using Cons.prems p clock_ok_le [of t' T ops] by auto
  show ?case using Cons.IH [OF inv_step [OF Cons.prems(1) le, of opn]] Cons.prems p by simp
qed (auto intro: inv_later)

text \<open>Operations on other keys leave a key's tokens alone.\<close>

lemma run_other:
  assumes "inv t s" and "clock_ok t T ops" and "T \<le> horizon" and "requested k ops = 0" and "T \<le> t''"
  shows "inv T (snd (rl_run allow preview s ops)) \<and> level (snd (rl_run allow preview s ops)) t'' k = level s t'' k"
  using assms
proof (induction ops arbitrary: t s)
  case (Cons p ops)
  obtain t' opn where p: "p = (t', opn)" by (cases p)
  have le: "t \<le> t'" "t' \<le> T" "t' \<le> horizon" using Cons.prems p clock_ok_le [of t' T ops] by auto
  let ?s' = "snd (rl_step allow preview t' opn s)"
  have no: "requested k ops = 0" "opn \<noteq> OpAllow k" using Cons.prems(4) p by (auto split: if_splits)
  then have "level ?s' t'' k = level s t'' k"
    using allow_other [OF Cons.prems(1) le(1)] preview_level [OF Cons.prems(1) le(1)] le(2) Cons.prems(5)
    by (cases opn) auto
  with Cons.IH [OF inv_step [OF Cons.prems(1) le(1,3), of opn]] Cons.prems p no
  show ?case by simp
qed (auto intro: inv_later)

end

text \<open>A backend without rounding: the level is known exactly and so is the waiting time.\<close>

locale exact_rate_limiter =
  rate_limiter allow preview level inv cap rate 0 horizon
  for allow preview :: "string \<Rightarrow> rat \<Rightarrow> 's \<Rightarrow> (py_error + rate_limit_result) \<times> 's"
    and level :: "'s \<Rightarrow> rat \<Rightarrow> string \<Rightarrow> rat"
    and inv :: "rat \<Rightarrow> 's \<Rightarrow> bool"
    and cap rate horizon :: rat +
  assumes level_later: "inv t s \<Longrightarrow> t \<le> t1 \<Longrightarrow> t1 \<le> t2 \<Longrightarrow> level s t2 k = min cap (level s t1 k + (t2 - t1) * rate)"
    and level_allow: "inv t s \<Longrightarrow> t \<le> t' \<Longrightarrow> level (snd (allow k t' s)) t' k = level s t' k - (if 1 \<le> level s t' k then 1 else 0)"
    and wait_allow: "inv t s \<Longrightarrow> t \<le> t' \<Longrightarrow> fst (allow k t' s) = Inr r \<Longrightarrow> \<not> allowed r \<Longrightarrow>
      max 1 \<lceil>retry_after_seconds r\<rceil> = max 1 \<lceil>(1 - level s t' k) / rate\<rceil>"
    and wait_preview: "inv t s \<Longrightarrow> t \<le> t' \<Longrightarrow> fst (preview k t' s) = Inr r \<Longrightarrow> \<not> allowed r \<Longrightarrow>
      max 1 \<lceil>retry_after_seconds r\<rceil> = max 1 \<lceil>(1 - level s t' k) / rate\<rceil>"
begin

text \<open>A client that waits as long as it was told is served, whatever other keys do meanwhile.\<close>

lemma wait_suffices:
  assumes inv: "inv t s" and le: "t \<le> t'" "t' \<le> horizon"
    and denied: "fst (allow k t' s) = Inr r" "\<not> allowed r"
    and ops: "clock_ok t' T ops" "T \<le> horizon" "requested k ops = 0"
    and wait: "t' + of_int (max 1 \<lceil>retry_after_seconds r\<rceil>) \<le> t''" "T \<le> t''"
  shows "is_allowed (fst (allow k t'' (snd (rl_run allow preview (snd (allow k t' s)) ops))))"
proof -
  let ?s1 = "snd (allow k t' s)" let ?s2 = "snd (rl_run allow preview ?s1 ops)"
  have low: "\<not> 1 \<le> level s t' k" using allow_result [OF inv le(1), of k] denied by auto
  have i1: "inv t' ?s1" and rate: "0 < rate" "1 \<le> cap" using inv_allow [OF inv le] rate_pos [OF inv] by auto
  have i2: "inv T ?s2" and l2: "level ?s2 t'' k = level ?s1 t'' k" using run_other [OF i1 ops wait(2)] by auto
  have t'': "t' \<le> t''" using clock_ok_le [OF ops(1)] wait(2) by linarith
  have "(1 - level s t' k) / rate \<le> of_int (max 1 \<lceil>(1 - level s t' k) / rate\<rceil>)" by linarith
  also have "\<dots> \<le> t'' - t'" using wait_allow [OF inv le(1) denied] wait(1) by simp
  finally have "1 \<le> level s t' k + (t'' - t') * rate" using rate(1) by (simp add: divide_le_eq)
  moreover have "level ?s1 t'' k = min cap (level s t' k + (t'' - t') * rate)"
    using level_later [OF i1 order.refl t'', of k] level_allow [OF inv le(1), of k] low by simp
  ultimately have "1 \<le> level ?s2 t'' k" using rate(2) l2 by simp
  then show ?thesis using is_allowed_allow [OF i2 wait(2)] by simp
qed

end

text \<open>What a caller of the API sees of a result.\<close>

definition outcome :: "py_error + rate_limit_result \<Rightarrow> py_error + (api_error + unit)" where
  "outcome r = map_sum id (\<lambda>x. enforce_rate_limit x ()) r"

lemma outcome_eqI:
  assumes "allowed x = allowed y"
    and "\<not> allowed x \<Longrightarrow> max 1 \<lceil>retry_after_seconds x\<rceil> = max 1 \<lceil>retry_after_seconds y\<rceil>"
  shows "outcome (Inr x) = outcome (Inr y)"
  using assms by (auto simp: outcome_def enforce_rate_limit_def)

text \<open>Two exact backends with the same limits give the same answers.\<close>

locale limiter_pair =
  one: exact_rate_limiter allow1 preview1 level1 inv1 cap rate horizon +
  two: exact_rate_limiter allow2 preview2 level2 inv2 cap rate horizon
  for allow1 preview1 :: "string \<Rightarrow> rat \<Rightarrow> 's \<Rightarrow> (py_error + rate_limit_result) \<times> 's"
    and level1 :: "'s \<Rightarrow> rat \<Rightarrow> string \<Rightarrow> rat" and inv1 :: "rat \<Rightarrow> 's \<Rightarrow> bool"
    and allow2 preview2 :: "string \<Rightarrow> rat \<Rightarrow> 'u \<Rightarrow> (py_error + rate_limit_result) \<times> 'u"
    and level2 :: "'u \<Rightarrow> rat \<Rightarrow> string \<Rightarrow> rat" and inv2 :: "rat \<Rightarrow> 'u \<Rightarrow> bool"
    and cap rate horizon :: rat
begin

lemma same_step:
  assumes i: "inv1 t s" "inv2 t u" and le: "t \<le> t'" "t' \<le> horizon" and eq: "\<forall>k. level1 s t k = level2 u t k"
  shows "outcome (fst (rl_step allow1 preview1 t' opn s)) = outcome (fst (rl_step allow2 preview2 t' opn u))"
    and "\<forall>k. level1 (snd (rl_step allow1 preview1 t' opn s)) t' k = level2 (snd (rl_step allow2 preview2 t' opn u)) t' k"
proof -
  have eq': "level1 s t' k = level2 u t' k" for k
    using one.level_later [OF i(1) order.refl le(1)] two.level_later [OF i(2) order.refl le(1)] eq by simp
  show "outcome (fst (rl_step allow1 preview1 t' opn s)) = outcome (fst (rl_step allow2 preview2 t' opn u))"
  proof (cases opn)
    case (OpAllow k)
    obtain x y where "fst (allow1 k t' s) = Inr x" "allowed x \<longleftrightarrow> 1 \<le> level1 s t' k"
      "fst (allow2 k t' u) = Inr y" "allowed y \<longleftrightarrow> 1 \<le> level2 u t' k"
      using one.allow_result [OF i(1) le(1)] two.allow_result [OF i(2) le(1)] by metis
    with one.wait_allow [OF i(1) le(1)] two.wait_allow [OF i(2) le(1)] OpAllow eq' [of k]
    show ?thesis by (auto intro!: outcome_eqI)
  next
    case (OpPreview k)
    obtain x y where "fst (preview1 k t' s) = Inr x" "allowed x \<longleftrightarrow> 1 \<le> level1 s t' k"
      "fst (preview2 k t' u) = Inr y" "allowed y \<longleftrightarrow> 1 \<le> level2 u t' k"
      using one.preview_result [OF i(1) le(1)] two.preview_result [OF i(2) le(1)] by metis
    with one.wait_preview [OF i(1) le(1)] two.wait_preview [OF i(2) le(1)] OpPreview eq' [of k]
    show ?thesis by (auto intro!: outcome_eqI)
  qed
  show "\<forall>k. level1 (snd (rl_step allow1 preview1 t' opn s)) t' k = level2 (snd (rl_step allow2 preview2 t' opn u)) t' k"
  proof
    fix k
    show "level1 (snd (rl_step allow1 preview1 t' opn s)) t' k = level2 (snd (rl_step allow2 preview2 t' opn u)) t' k"
      using one.level_allow [OF i(1) le(1)] two.level_allow [OF i(2) le(1)]
        one.allow_other [OF i(1) le(1) order.refl] two.allow_other [OF i(2) le(1) order.refl]
        one.preview_level [OF i(1) le(1) order.refl] two.preview_level [OF i(2) le(1) order.refl] eq'
      by (cases opn; cases "opn = OpAllow k") auto
  qed
qed

lemma same_outcomes:
  assumes "inv1 t s" "inv2 t u" "clock_ok t T ops" "T \<le> horizon" "\<forall>k. level1 s t k = level2 u t k"
  shows "map outcome (fst (rl_run allow1 preview1 s ops)) = map outcome (fst (rl_run allow2 preview2 u ops))"
  using assms
proof (induction ops arbitrary: t s u)
  case (Cons p ops)
  obtain t' opn where p: "p = (t', opn)" by (cases p)
  have le: "t \<le> t'" "t' \<le> horizon" using Cons.prems p clock_ok_le [of t' T ops] by auto
  note st = same_step [OF Cons.prems(1,2) le Cons.prems(5), of opn]
  note IH = Cons.IH [OF one.inv_step [OF Cons.prems(1) le, of opn] two.inv_step [OF Cons.prems(2) le, of opn] _ _ st(2)]
  show ?case using st(1) IH Cons.prems p by simp
qed simp

end

subsection \<open>Both backends keep the contract\<close>

text \<open>Tokens per second.\<close>

definition refill_rate :: "int \<Rightarrow> rat" where
  "refill_rate rpm = of_int rpm / 60"

lemma refill_rate_pos: "0 < rpm \<Longrightarrow> 0 < refill_rate rpm"
  by (simp add: refill_rate_def)

definition mem_level :: "memory_limiter \<Rightarrow> rat \<Rightarrow> string \<Rightarrow> rat" where
  "mem_level ml t k = (case map_of (ml_buckets ml) k of None \<Rightarrow> ml_capacity ml
     | Some b \<Rightarrow> min (ml_capacity ml) (tokens b + (t - updated_at b) * ml_refill ml))"

definition mem_inv :: "int \<Rightarrow> rat \<Rightarrow> memory_limiter \<Rightarrow> bool" where
  "mem_inv rpm t ml \<longleftrightarrow> 0 < rpm \<and> ml_rpm ml = rpm \<and> ml_capacity ml = of_int rpm \<and> ml_refill ml = refill_rate rpm \<and>
     (\<forall>k b. map_of (ml_buckets ml) k = Some b \<longrightarrow> 0 \<le> tokens b \<and> tokens b \<le> of_int rpm \<and> updated_at b \<le> t)"

lemma new_mem_inv: "0 < rpm \<Longrightarrow> mem_inv rpm t (new_memory_limiter rpm)"
  by (simp add: mem_inv_def new_memory_limiter_def refill_rate_def Let_def)

lemma new_mem_level: "0 < rpm \<Longrightarrow> mem_level (new_memory_limiter rpm) t k = of_int rpm"
  by (simp add: mem_level_def new_memory_limiter_def Let_def)

text \<open>The bucket after the refill holds the level.\<close>

lemma refill_bucket_level:
  assumes "mem_inv rpm t ml" and "t \<le> t'"
  shows "refill_bucket k t' c ml =
    (if map_of (ml_buckets ml) k = None \<and> \<not> c then (None, ml)
     else let b = \<lparr>tokens = mem_level ml t' k, updated_at = t'\<rparr> in
       (Some b, ml\<lparr>ml_buckets := AList.update k b (ml_buckets ml)\<rparr>))"
  using assms by (auto simp: refill_bucket_def mem_level_def mem_inv_def Let_def split: option.splits)

lemma mem_level_bounds: "mem_inv rpm t ml \<Longrightarrow> t \<le> t' \<Longrightarrow> 0 \<le> mem_level ml t' k \<and> mem_level ml t' k \<le> of_int rpm"
  using refill_rate_pos [of rpm] by (fastforce simp: mem_inv_def mem_level_def split: option.splits)

lemma mem_level_later:
  assumes "mem_inv rpm t ml" and "t \<le> t1" and "t1 \<le> t2"
  shows "mem_level ml t2 k = min (of_int rpm) (mem_level ml t1 k + (t2 - t1) * refill_rate rpm)"
proof (cases "map_of (ml_buckets ml) k")
  case None
  then show ?thesis using assms refill_rate_pos [of rpm] by (simp add: mem_level_def mem_inv_def min_def)
next
  case (Some b)
  have "0 \<le> (t2 - t1) * refill_rate rpm" using assms refill_rate_pos [of rpm] by (simp add: mem_inv_def)
  moreover have "tokens b + (t2 - updated_at b) * refill_rate rpm =
    tokens b + (t1 - updated_at b) * refill_rate rpm + (t2 - t1) * refill_rate rpm"
    by (simp add: algebra_simps)
  ultimately show ?thesis using assms Some by (simp add: mem_level_def mem_inv_def min_def)
qed

text \<open>Storing a bucket with the level at the current time.\<close>

lemma mem_level_store:
  assumes "mem_inv rpm t ml" and "t \<le> t'" and "t' \<le> t''"
  shows "mem_level (ml\<lparr>ml_buckets := AList.update k \<lparr>tokens = x, updated_at = t'\<rparr> bs\<rparr>) t'' k =
    min (of_int rpm) (x + (t'' - t') * refill_rate rpm)"
  using assms by (simp add: mem_level_def mem_inv_def)

lemma mem_level_store_other:
  "j \<noteq> k \<Longrightarrow> mem_level (ml\<lparr>ml_buckets := AList.update k b (ml_buckets ml)\<rparr>) t j = mem_level ml t j"
  by (simp add: mem_level_def split: option.split)

lemma mem_inv_store:
  assumes "mem_inv rpm t ml" and "t \<le> t'" and "0 \<le> x" and "x \<le> of_int rpm"
  shows "mem_inv rpm t' (ml\<lparr>ml_buckets := AList.update k \<lparr>tokens = x, updated_at = t'\<rparr> (ml_buckets ml)\<rparr>)"
  using assms by (fastforce simp: mem_inv_def)

lemma mem_inv_later: "mem_inv rpm t ml \<Longrightarrow> t \<le> t' \<Longrightarrow> mem_inv rpm t' ml"
  by (fastforce simp: mem_inv_def)

text \<open>The two operations in terms of the level.\<close>

lemma mem_allow_eq:
  assumes "mem_inv rpm t ml" and "t \<le> t'"
  shows "mem_allow k t' ml = (let l = mem_level ml t' k; x = l - (if 1 \<le> l then 1 else 0) in
    (Inr (if 1 \<le> l then \<lparr>allowed = True, retry_after_seconds = 0, remaining = Finite (max (py_int x) 0)\<rparr>
          else \<lparr>allowed = False, retry_after_seconds = max ((1 - l) / refill_rate rpm) 1, remaining = Finite 0\<rparr>),
     ml\<lparr>ml_buckets := AList.update k \<lparr>tokens = x, updated_at = t'\<rparr> (ml_buckets ml)\<rparr>))"
  using assms refill_rate_pos [of rpm] by (simp add: mem_allow_def refill_bucket_level [OF assms] result_for_bucket_def Let_def mem_inv_def)

lemma mem_preview_eq:
  assumes "mem_inv rpm t ml" and "t \<le> t'"
  shows "mem_preview k t' ml = (let l = mem_level ml t' k in
    (Inr (if map_of (ml_buckets ml) k = None then unlimited
          else if 1 \<le> l then \<lparr>allowed = True, retry_after_seconds = 0, remaining = Finite (max (py_int l) 0)\<rparr>
          else \<lparr>allowed = False, retry_after_seconds = max ((1 - l) / refill_rate rpm) 1, remaining = Finite 0\<rparr>),
     if map_of (ml_buckets ml) k = None then ml
     else ml\<lparr>ml_buckets := AList.update k \<lparr>tokens = l, updated_at = t'\<rparr> (ml_buckets ml)\<rparr>))"
  using assms refill_rate_pos [of rpm] by (simp add: mem_preview_def refill_bucket_level [OF assms] result_for_bucket_def Let_def mem_inv_def)

lemma mem_level_absent: "mem_inv rpm t ml \<Longrightarrow> map_of (ml_buckets ml) k = None \<Longrightarrow> mem_level ml t' k = of_int rpm"
  by (simp add: mem_level_def mem_inv_def)

lemma max_one_ceiling: "max 1 \<lceil>max x (1::rat)\<rceil> = max 1 \<lceil>x\<rceil>"
  by (simp add: max_def) linarith

lemma max_zero_ceiling: "max 1 \<lceil>max x (0::rat)\<rceil> = max 1 \<lceil>x\<rceil>"
  by (simp add: max_def)

lemma mem_preview_level:
  assumes "mem_inv rpm t ml" and "t \<le> t'" and "t' \<le> t''"
  shows "mem_level (snd (mem_preview k t' ml)) t'' j = mem_level ml t'' j"
proof (cases "j = k")
  case True
  then show ?thesis using mem_level_later [OF assms, of k] assms
    by (simp add: mem_preview_eq [OF assms(1,2)] mem_level_store [OF assms] Let_def)
next
  case False
  then show ?thesis by (simp add: mem_preview_eq [OF assms(1,2)] mem_level_store_other Let_def)
qed

interpretation mem: exact_rate_limiter mem_allow mem_preview mem_level "mem_inv rpm" "of_int rpm" "refill_rate rpm" H
  for rpm :: int and H :: rat
proof
  fix t t' t'' t1 t2 :: rat and s k j r
  assume i: "mem_inv rpm t s"
  show "0 < refill_rate rpm \<and> 1 \<le> rat_of_int rpm \<and> (0::rat) \<le> 0" using i refill_rate_pos [of rpm] by (simp add: mem_inv_def)
  show "t \<le> t1 \<Longrightarrow> t1 \<le> t2 \<Longrightarrow> mem_level s t2 k = min (rat_of_int rpm) (mem_level s t1 k + (t2 - t1) * refill_rate rpm)"
    by (rule mem_level_later [OF i])
  then show "t \<le> t1 \<Longrightarrow> t1 \<le> t2 \<Longrightarrow> mem_level s t2 k \<le> mem_level s t1 k + (t2 - t1) * refill_rate rpm" by simp
  assume t': "t \<le> t'"
  note b = mem_level_bounds [OF i t'] and a = mem_allow_eq [OF i t'] and p = mem_preview_eq [OF i t']
  show "mem_inv rpm t' s" by (rule mem_inv_later [OF i t'])
  then show "mem_inv rpm t' (snd (mem_preview k t' s))"
    using mem_inv_store [OF i t'] b by (simp add: p Let_def)
  show "mem_inv rpm t' (snd (mem_allow k t' s))" using mem_inv_store [OF i t'] b [of k] by (simp add: a Let_def)
  show "0 \<le> mem_level s t' k \<and> mem_level s t' k \<le> rat_of_int rpm" by (rule b)
  show "\<exists>r. fst (mem_allow k t' s) = Inr r \<and> allowed r = (1 \<le> mem_level s t' k)" by (simp add: a Let_def)
  show "\<exists>r. fst (mem_preview k t' s) = Inr r \<and> allowed r = (1 \<le> mem_level s t' k)"
    using mem_level_absent [OF i, of k t'] i by (simp add: p Let_def unlimited_def mem_inv_def)
  show ex: "mem_level (snd (mem_allow k t' s)) t' k = mem_level s t' k - (if 1 \<le> mem_level s t' k then 1 else 0)"
    using b [of k] by (simp add: a Let_def mem_level_store [OF i t' order.refl])
  then show "mem_level (snd (mem_allow k t' s)) t' k \<le> mem_level s t' k - (if 1 \<le> mem_level s t' k then 1 else 0) + 0"
    by simp
  show "t' \<le> t'' \<Longrightarrow> j \<noteq> k \<Longrightarrow> mem_level (snd (mem_allow k t' s)) t'' j = mem_level s t'' j"
    by (simp add: a Let_def mem_level_store_other)
  show "t' \<le> t'' \<Longrightarrow> mem_level (snd (mem_preview k t' s)) t'' j = mem_level s t'' j" by (rule mem_preview_level [OF i t'])
  show "fst (mem_allow k t' s) = Inr r \<Longrightarrow> \<not> allowed r \<Longrightarrow>
    max 1 \<lceil>retry_after_seconds r\<rceil> = max 1 \<lceil>(1 - mem_level s t' k) / refill_rate rpm\<rceil>"
    by (auto simp: a Let_def max_one_ceiling split: if_splits)
  show "fst (mem_preview k t' s) = Inr r \<Longrightarrow> \<not> allowed r \<Longrightarrow>
    max 1 \<lceil>retry_after_seconds r\<rceil> = max 1 \<lceil>(1 - mem_level s t' k) / refill_rate rpm\<rceil>"
    by (auto simp: p Let_def unlimited_def max_one_ceiling split: if_splits)
qed

subsection \<open>The Redis backend keeps the contract\<close>

text \<open>
  What is used of Lua's number formatting: printing and reading back moves a number of the range
  \<open>0\<close> to \<open>H\<close> by at most \<open>e\<close>, and gives a number of at least 0. With 14 significant digits and times below
  \<open>10^10\<close> seconds, \<open>e\<close> is \<open>1/20000\<close>.
\<close>

definition rounds :: "rat \<Rightarrow> rat \<Rightarrow> (rat \<Rightarrow> rat) \<Rightarrow> bool" where
  "rounds H e rt \<longleftrightarrow> 0 \<le> e \<and> e \<le> 1 \<and> (\<forall>x. 0 \<le> x \<longrightarrow> x \<le> H \<longrightarrow> \<bar>rt x - x\<bar> \<le> e \<and> 0 \<le> rt x)"

definition redis_level :: "redis_limiter \<Rightarrow> redis_store \<Rightarrow> rat \<Rightarrow> string \<Rightarrow> rat" where
  "redis_level rl store t k = script_refill (key_prefix rl @ k) (rl_capacity rl) (rl_refill rl) t t store"

definition redis_bucket_ok :: "rat \<Rightarrow> rat \<Rightarrow> redis_bucket \<Rightarrow> bool" where
  "redis_bucket_ok e t b \<longleftrightarrow> 0 \<le> rb_tokens b \<and> rb_expires b - 300 \<le> t \<and> \<bar>rb_ts b - (rb_expires b - 300)\<bar> \<le> e"

definition redis_inv :: "(rat \<Rightarrow> rat) \<Rightarrow> int \<Rightarrow> string \<Rightarrow> rat \<Rightarrow> rat \<Rightarrow> rat \<Rightarrow> redis_store \<Rightarrow> bool" where
  "redis_inv rt rpm pre H e t store \<longleftrightarrow> 0 < rpm \<and> of_int rpm \<le> H \<and> 0 \<le> t \<and> rounds H e rt \<and>
     (\<forall>k b. map_of store (pre @ k) = Some b \<longrightarrow> redis_bucket_ok e t b)"

text \<open>The worker's clock is the server's clock.\<close>

definition sync_allow where
  "sync_allow rt rl k t store = map_prod Inr id (redis_allow rt rl k t t store)"

definition sync_preview where
  "sync_preview rt rl k t store = map_prod Inr id (redis_preview rt rl k t t store)"

lemma from_url_simps [simp]:
  "0 < rpm \<Longrightarrow> rl_capacity (from_url rpm pre) = of_int rpm" "0 < rpm \<Longrightarrow> rl_refill (from_url rpm pre) = refill_rate rpm"
  "key_prefix (from_url rpm pre) = pre" "rl_rpm (from_url rpm pre) = rpm" "ttl_seconds (from_url rpm pre) = 300"
  by (simp_all add: from_url_def refill_rate_def Let_def)

lemma redis_level_eq:
  "0 < rpm \<Longrightarrow> redis_level (from_url rpm pre) store t k =
    (case map_of store (pre @ k) of
       None \<Rightarrow> of_int rpm
     | Some b \<Rightarrow> if t < rb_expires b then min (of_int rpm) (rb_tokens b + max 0 (t - rb_ts b) * refill_rate rpm)
                else of_int rpm)"
  by (auto simp: redis_level_def script_refill_def hmget_def Let_def min_def max_def split: option.split)

text \<open>A bucket that nobody touched for the time to live is full, so its expiry changes nothing.\<close>

lemma bucket_full_at_expiry:
  assumes "0 < rpm" and "redis_bucket_ok e t b" and "e \<le> 1" and "rb_expires b \<le> t2"
  shows "of_int rpm \<le> rb_tokens b + (t2 - rb_ts b) * refill_rate rpm"
proof -
  have "60 \<le> t2 - rb_ts b" and "0 \<le> rb_tokens b" using assms by (auto simp: redis_bucket_ok_def)
  moreover from this(1) have "60 * refill_rate rpm \<le> (t2 - rb_ts b) * refill_rate rpm"
    using refill_rate_pos [OF assms(1)] by (intro mult_right_mono) auto
  ultimately show ?thesis by (simp add: refill_rate_def)
qed

lemma redis_level_bounds:
  assumes "redis_inv rt rpm pre H e t store"
  shows "0 \<le> redis_level (from_url rpm pre) store t' k \<and> redis_level (from_url rpm pre) store t' k \<le> of_int rpm"
proof -
  have p: "0 < rpm" using assms by (simp add: redis_inv_def)
  then show ?thesis using assms refill_rate_pos [OF p]
    by (auto simp: redis_level_eq [OF p] redis_inv_def redis_bucket_ok_def split: option.split)
qed

lemma redis_level_grow:
  assumes inv: "redis_inv rt rpm pre H e t store" and le: "t1 \<le> t2"
  shows "redis_level (from_url rpm pre) store t2 k \<le> redis_level (from_url rpm pre) store t1 k + (t2 - t1) * refill_rate rpm"
proof -
  have p: "0 < rpm" and r: "0 < refill_rate rpm" using inv refill_rate_pos by (auto simp: redis_inv_def)
  have m: "0 \<le> (t2 - t1) * refill_rate rpm" using r le by simp
  show ?thesis
  proof (cases "map_of store (pre @ k)")
    case None
    then show ?thesis using m by (simp add: redis_level_eq [OF p])
  next
    case (Some b)
    then have ok: "redis_bucket_ok e t b" and e: "e \<le> 1" using inv by (auto simp: redis_inv_def rounds_def)
    let ?f = "\<lambda>x. rb_tokens b + max 0 (x - rb_ts b) * refill_rate rpm"
    have "max 0 (t2 - rb_ts b) * refill_rate rpm \<le> (max 0 (t1 - rb_ts b) + (t2 - t1)) * refill_rate rpm"
      using r le by (intro mult_right_mono) auto
    then have f: "?f t2 \<le> ?f t1 + (t2 - t1) * refill_rate rpm" by (simp add: algebra_simps)
    have "of_int rpm \<le> ?f t2" if "rb_expires b \<le> t2"
      using bucket_full_at_expiry [OF p ok e that] mult_right_mono [OF max.cobounded2 less_imp_le [OF r], of "t2 - rb_ts b" 0]
      by linarith
    with f m Some show ?thesis by (auto simp: redis_level_eq [OF p] min_def not_less)
  qed
qed

lemma sync_allow_eq:
  assumes "redis_inv rt rpm pre H e t store"
  shows "sync_allow rt (from_url rpm pre) k t' store =
    (let l = redis_level (from_url rpm pre) store t' k; x = l - (if 1 \<le> l then 1 else 0);
         rem = Finite (max (py_int (rt (rat_of_int \<lfloor>x\<rfloor>))) 0) in
     (Inr (if 1 \<le> l then \<lparr>allowed = True, retry_after_seconds = 0, remaining = rem\<rparr>
           else \<lparr>allowed = False, retry_after_seconds = max (rt ((1 - l) / refill_rate rpm)) 0, remaining = rem\<rparr>),
      AList.update (pre @ k) \<lparr>rb_tokens = rt x, rb_ts = rt t', rb_expires = t' + 300\<rparr> store))"
  using assms by (auto simp: sync_allow_def redis_allow_def allow_script_def script_result_def parse_script_result_def
      redis_level_def redis_inv_def Let_def)

lemma sync_preview_eq:
  assumes "redis_inv rt rpm pre H e t store"
  shows "sync_preview rt (from_url rpm pre) k t' store =
    (let l = redis_level (from_url rpm pre) store t' k;
         rem = Finite (max (py_int (rt (rat_of_int \<lfloor>l\<rfloor>))) 0) in
     (Inr (if 1 \<le> l then \<lparr>allowed = True, retry_after_seconds = 0, remaining = rem\<rparr>
           else \<lparr>allowed = False, retry_after_seconds = max (rt ((1 - l) / refill_rate rpm)) 0, remaining = rem\<rparr>),
      store))"
  using assms by (auto simp: sync_preview_def redis_preview_def preview_script_def script_result_def parse_script_result_def
      redis_level_def redis_inv_def Let_def)

lemma redis_inv_later: "redis_inv rt rpm pre H e t store \<Longrightarrow> t \<le> t' \<Longrightarrow> redis_inv rt rpm pre H e t' store"
  by (force simp: redis_inv_def redis_bucket_ok_def)

lemma redis_inv_store:
  assumes "redis_inv rt rpm pre H e t store" and "t \<le> t'" and "t' \<le> H" and "0 \<le> x" and "x \<le> of_int rpm"
  shows "redis_inv rt rpm pre H e t' (AList.update (pre @ k) \<lparr>rb_tokens = rt x, rb_ts = rt t', rb_expires = t' + 300\<rparr> store)"
  using redis_inv_later [OF assms(1,2)] assms by (auto simp: redis_inv_def redis_bucket_ok_def rounds_def)

lemma redis_level_store:
  assumes "redis_inv rt rpm pre H e t store" and "t \<le> t'" and "t' \<le> H" and "0 \<le> x" and "x \<le> of_int rpm"
  shows "redis_level (from_url rpm pre) (AList.update (pre @ k) \<lparr>rb_tokens = rt x, rb_ts = rt t', rb_expires = t' + 300\<rparr> store) t' k
    \<le> x + e * (1 + refill_rate rpm)"
proof -
  have p: "0 < rpm" and r: "0 \<le> refill_rate rpm" using assms(1) refill_rate_pos [of rpm] by (auto simp: redis_inv_def)
  have "rt x \<le> x + e" and "max 0 (t' - rt t') \<le> e" using assms by (auto simp: redis_inv_def rounds_def abs_le_iff)
  then have "rt x + max 0 (t' - rt t') * refill_rate rpm \<le> x + e + e * refill_rate rpm"
    using r by (intro add_mono mult_right_mono)
  then show ?thesis by (simp add: redis_level_eq [OF p] algebra_simps)
qed

interpretation red: rate_limiter "sync_allow rt (from_url rpm pre)" "sync_preview rt (from_url rpm pre)"
    "redis_level (from_url rpm pre)" "redis_inv rt rpm pre H e" "of_int rpm" "refill_rate rpm" "e * (1 + refill_rate rpm)" H
  for rt rpm pre H e
proof
  fix t t' t'' t1 t2 :: rat and s k j
  assume i: "redis_inv rt rpm pre H e t s"
  show "0 < refill_rate rpm \<and> 1 \<le> rat_of_int rpm \<and> 0 \<le> e * (1 + refill_rate rpm)"
    using i refill_rate_pos [of rpm] by (auto simp: redis_inv_def rounds_def)
  show "t \<le> t1 \<Longrightarrow> t1 \<le> t2 \<Longrightarrow> redis_level (from_url rpm pre) s t2 k \<le> redis_level (from_url rpm pre) s t1 k + (t2 - t1) * refill_rate rpm"
    by (rule redis_level_grow [OF i])
  assume t': "t \<le> t'"
  note a = sync_allow_eq [OF i] and p = sync_preview_eq [OF i] and b = redis_level_bounds [OF i, of t' k]
  show "redis_inv rt rpm pre H e t' s" by (rule redis_inv_later [OF i t'])
  then show "redis_inv rt rpm pre H e t' (snd (sync_preview rt (from_url rpm pre) k t' s))" by (simp add: p Let_def)
  show "0 \<le> redis_level (from_url rpm pre) s t' k \<and> redis_level (from_url rpm pre) s t' k \<le> rat_of_int rpm" by (rule b)
  show "\<exists>r. fst (sync_allow rt (from_url rpm pre) k t' s) = Inr r \<and> allowed r = (1 \<le> redis_level (from_url rpm pre) s t' k)"
    by (simp add: a Let_def)
  show "\<exists>r. fst (sync_preview rt (from_url rpm pre) k t' s) = Inr r \<and> allowed r = (1 \<le> redis_level (from_url rpm pre) s t' k)"
    by (simp add: p Let_def)
  show "j \<noteq> k \<Longrightarrow> redis_level (from_url rpm pre) (snd (sync_allow rt (from_url rpm pre) k t' s)) t'' j = redis_level (from_url rpm pre) s t'' j"
    by (simp add: a Let_def redis_level_def script_refill_def hmget_def)
  show "redis_level (from_url rpm pre) (snd (sync_preview rt (from_url rpm pre) k t' s)) t'' j = redis_level (from_url rpm pre) s t'' j"
    by (simp add: p Let_def)
  assume h: "t' \<le> H"
  show "redis_inv rt rpm pre H e t' (snd (sync_allow rt (from_url rpm pre) k t' s))"
    using redis_inv_store [OF i t' h] b by (simp add: a Let_def)
  show "redis_level (from_url rpm pre) (snd (sync_allow rt (from_url rpm pre) k t' s)) t' k
     \<le> redis_level (from_url rpm pre) s t' k - (if 1 \<le> redis_level (from_url rpm pre) s t' k then 1 else 0) + e * (1 + refill_rate rpm)"
    using redis_level_store [OF i t' h, of "redis_level (from_url rpm pre) s t' k - 1"]
      redis_level_store [OF i t' h, of "redis_level (from_url rpm pre) s t' k"] b by (simp add: a Let_def)
qed

subsection \<open>Redis without rounding is the memory backend\<close>

lemma redis_level_later:
  assumes inv: "redis_inv id rpm pre H 0 t store" and le: "t \<le> t1" "t1 \<le> t2"
  shows "redis_level (from_url rpm pre) store t2 k =
    min (of_int rpm) (redis_level (from_url rpm pre) store t1 k + (t2 - t1) * refill_rate rpm)"
proof -
  have p: "0 < rpm" and r: "0 < refill_rate rpm" using inv refill_rate_pos by (auto simp: redis_inv_def)
  have m: "0 \<le> (t2 - t1) * refill_rate rpm" using r le by simp
  show ?thesis
  proof (cases "map_of store (pre @ k)")
    case None
    then show ?thesis using m by (simp add: redis_level_eq [OF p] min_def)
  next
    case (Some b)
    then have ok: "redis_bucket_ok 0 t b" using inv by (auto simp: redis_inv_def)
    then have ts: "max 0 (t1 - rb_ts b) = t1 - rb_ts b" "max 0 (t2 - rb_ts b) = t2 - rb_ts b"
      using le by (auto simp: redis_bucket_ok_def)
    have "(t2 - rb_ts b) * refill_rate rpm = (t1 - rb_ts b) * refill_rate rpm + (t2 - t1) * refill_rate rpm"
      by (simp add: algebra_simps)
    with bucket_full_at_expiry [OF p ok, of t2] m le(2) Some show ?thesis
      by (auto simp: redis_level_eq [OF p] ts min_def not_less)
  qed
qed

interpretation redx: exact_rate_limiter "sync_allow id (from_url rpm pre)" "sync_preview id (from_url rpm pre)"
    "redis_level (from_url rpm pre)" "redis_inv id rpm pre H 0" "of_int rpm" "refill_rate rpm" H
  for rpm pre H
proof (intro exact_rate_limiter.intro exact_rate_limiter_axioms.intro)
  show "rate_limiter (sync_allow id (from_url rpm pre)) (sync_preview id (from_url rpm pre)) (redis_level (from_url rpm pre))
     (redis_inv id rpm pre H 0) (rat_of_int rpm) (refill_rate rpm) 0 H"
    using red.rate_limiter_axioms [of id rpm pre H 0] by simp
  fix t t' t1 t2 :: rat and s k r
  assume i: "redis_inv id rpm pre H 0 t s"
  note a = sync_allow_eq [OF i] and p = sync_preview_eq [OF i] and b = redis_level_bounds [OF i]
  show "t \<le> t1 \<Longrightarrow> t1 \<le> t2 \<Longrightarrow> redis_level (from_url rpm pre) s t2 k =
      min (rat_of_int rpm) (redis_level (from_url rpm pre) s t1 k + (t2 - t1) * refill_rate rpm)"
    by (rule redis_level_later [OF i])
  assume t': "t \<le> t'"
  have "0 < rpm" using i by (simp add: redis_inv_def)
  then show "redis_level (from_url rpm pre) (snd (sync_allow id (from_url rpm pre) k t' s)) t' k =
      redis_level (from_url rpm pre) s t' k - (if 1 \<le> redis_level (from_url rpm pre) s t' k then 1 else 0)"
    using b [of t' k] by (simp add: a Let_def redis_level_eq)
  show "fst (sync_allow id (from_url rpm pre) k t' s) = Inr r \<Longrightarrow> \<not> allowed r \<Longrightarrow>
      max 1 \<lceil>retry_after_seconds r\<rceil> = max 1 \<lceil>(1 - redis_level (from_url rpm pre) s t' k) / refill_rate rpm\<rceil>"
    by (auto simp: a Let_def max_zero_ceiling split: if_splits)
  show "fst (sync_preview id (from_url rpm pre) k t' s) = Inr r \<Longrightarrow> \<not> allowed r \<Longrightarrow>
      max 1 \<lceil>retry_after_seconds r\<rceil> = max 1 \<lceil>(1 - redis_level (from_url rpm pre) s t' k) / refill_rate rpm\<rceil>"
    by (auto simp: p Let_def max_zero_ceiling split: if_splits)
qed

interpretation both: limiter_pair mem_allow mem_preview mem_level "mem_inv rpm"
    "sync_allow id (from_url rpm pre)" "sync_preview id (from_url rpm pre)" "redis_level (from_url rpm pre)"
    "redis_inv id rpm pre H 0" "of_int rpm" "refill_rate rpm" H
  for rpm pre H
  by unfold_locales

lemma new_redis_inv: "0 < rpm \<Longrightarrow> of_int rpm \<le> H \<Longrightarrow> 0 \<le> t \<Longrightarrow> rounds H e rt \<Longrightarrow> redis_inv rt rpm pre H e t []"
  by (simp add: redis_inv_def)

lemma rounds_id: "rounds H 0 id"
  by (simp add: rounds_def)

text \<open>Cutting a number after four decimals is such a rounding.\<close>

lemma rounds_floor: "rounds H (1 / 10000) (\<lambda>x. of_int \<lfloor>10000 * x\<rfloor> / 10000)"
proof -
  have "\<bar>of_int \<lfloor>10000 * x\<rfloor> / 10000 - x\<bar> \<le> 1 / 10000" for x :: rat
  proof -
    have "of_int \<lfloor>10000 * x\<rfloor> \<le> 10000 * x" "10000 * x < of_int \<lfloor>10000 * x\<rfloor> + 1" by linarith+
    then show ?thesis by linarith
  qed
  then show ?thesis by (simp add: rounds_def)
qed

subsection \<open>Properties\<close>

text \<open>C4: over any sequence of operations on any keys, the memory backend raises nothing and grants a key at
  most its capacity plus the tokens that the elapsed time has refilled.\<close>

theorem memory_rate_bound:
  assumes "0 < rpm" and "clock_ok t T ops"
  shows "(\<forall>r \<in> set (fst (rl_run mem_allow mem_preview (new_memory_limiter rpm) ops)). \<exists>x. r = Inr x) \<and>
    rat_of_nat (granted k ops (fst (rl_run mem_allow mem_preview (new_memory_limiter rpm) ops))) \<le>
      of_int rpm + (T - t) * (of_int rpm / 60)"
  using mem.run_total [OF new_mem_inv [OF assms(1)] assms(2) order.refl]
    mem.rate_bound [OF new_mem_inv [OF assms(1)] assms(2) order.refl, of k] assms(1)
  by (simp add: new_mem_level) (simp add: refill_rate_def)

theorem memory_rate_bound_witness:
  "rat_of_nat (granted ''a'' [(0, OpAllow ''a''), (0, OpAllow ''a''), (0, OpAllow ''a'')]
     (fst (rl_run mem_allow mem_preview (new_memory_limiter 2) [(0, OpAllow ''a''), (0, OpAllow ''a''), (0, OpAllow ''a'')]))) \<le> 2"
  using memory_rate_bound [of 2 0 0 "[(0, OpAllow ''a''), (0, OpAllow ''a''), (0, OpAllow ''a'')]" "''a''"] by (simp add: requested_def del: granted.simps rl_run_Cons)



text \<open>C16: with exact numbers and one clock the Redis scripts and the memory backend are interchangeable: every
  sequence of operations on any keys gives callers the same answers, with the same \<open>Retry-After\<close>.\<close>

theorem redis_matches_memory:
  assumes "0 < rpm" and "0 \<le> t" and "clock_ok t T ops"
  shows "map outcome (fst (rl_run (sync_allow id (from_url rpm pre)) (sync_preview id (from_url rpm pre)) [] ops)) =
    map outcome (fst (rl_run mem_allow mem_preview (new_memory_limiter rpm) ops))"
  using both.same_outcomes [OF new_mem_inv [OF assms(1)]
      new_redis_inv [OF assms(1) max.cobounded1 assms(2) rounds_id] assms(3) max.cobounded2, of pre] assms(1)
  by (simp add: new_mem_level redis_level_eq)

theorem redis_matches_memory_witness:
  "map outcome (fst (rl_run (sync_allow id (from_url 1 ''rl:'')) (sync_preview id (from_url 1 ''rl:'')) []
     [(1, OpAllow ''a''), (2, OpAllow ''a''), (400, OpPreview ''a'')])) =
   map outcome (fst (rl_run mem_allow mem_preview (new_memory_limiter 1)
     [(1, OpAllow ''a''), (2, OpAllow ''a''), (400, OpPreview ''a'')]))"
  using redis_matches_memory [of 1 1 400 "[(1, OpAllow ''a''), (2, OpAllow ''a''), (400, OpPreview ''a'')]" "''rl:''"]
  by simp

lemma enforce_header:
  assumes "enforce_rate_limit r who = Inl e" and "map_of (e_headers e) ''Retry-After'' = Some h" and "py_int_digits h = Some w"
  shows "\<not> allowed r \<and> rat_of_nat w = of_int (max 1 \<lceil>retry_after_seconds r\<rceil>)"
  using assms by (auto simp: enforce_rate_limit_def api_error_init_def py_int_nat_str split: if_splits)



text \<open>The answers of Redis to requests for one key whose workers read their own clocks.\<close>

fun worker_run :: "redis_limiter \<Rightarrow> string \<Rightarrow> (rat \<times> rat) list \<Rightarrow> redis_store \<Rightarrow> bool list" where
  "worker_run rl k [] store = []"
| "worker_run rl k ((now, srv) # reqs) store =
     (let (r, store') = redis_allow id rl k now srv store in allowed r # worker_run rl k reqs store')"

text \<open>C39: with a limit of 60 requests per minute, two workers whose clocks are two seconds apart grant any
  number of requests at one instant when requests alternate between them: the script stores the earlier
  clock reading as the new time stamp and refills the difference again at the next request.\<close>

theorem redis_skewed_clocks_unlimited:
  "worker_run (from_url 60 ''rl:'') ''a'' (concat (replicate n [(t, srv), (t + 2, srv)])) [] = replicate (2 * n) True"
proof -
  let ?run = "\<lambda>n. worker_run (from_url 60 ''rl:'') ''a'' (concat (replicate n [(t, srv), (t + 2, srv)]))"
  let ?full = "[(''rl:a'', \<lparr>rb_tokens = 59, rb_ts = t + 2, rb_expires = srv + 300\<rparr>)]"
  note defs = redis_allow_def allow_script_def script_refill_def hmget_def script_result_def parse_script_result_def
    refill_rate_def Let_def
  have full: "?run n ?full = replicate (2 * n) True" for n
    by (induction n) (simp_all add: defs)
  show ?thesis
    by (cases n) (simp_all add: defs full [simplified defs, simplified])
qed

text \<open>With strict rate limiting on, a gateway configured for Redis never counts in process memory: it gets a
  Redis backend or does not start.\<close>

theorem strict_never_falls_back:
  assumes "rate_limit_strict st" and "py_lower (settings.rate_limit_backend st) = ''redis''"
  shows "\<nexists>ml. build_rate_limit_backend connect st n pre = Inr (MemoryBackend ml)"
  using assms by (auto simp: build_rate_limit_backend_def Let_def split: option.splits sum.splits if_splits)

theorem strict_never_falls_back_witness:
  "\<nexists>ml. build_rate_limit_backend (\<lambda>u. Inl ValueError)
     (default_settings\<lparr>rate_limit_strict := True, rate_limit_backend := ''Redis'', redis_url := Some ''r''\<rparr>) None None =
     Inr (MemoryBackend ml)"
  by (rule strict_never_falls_back) code_simp+

end
