(* ===== verification/Chat.thy ===== *)
theory Chat
  imports Policy Providers Streaming RateLimit Auth
begin

text \<open>
  \<open>app/routers/chat.py\<close>: the chat endpoint from its dependencies to the last frame of a stream. The handler runs to its
  end here, with the response generator driven by the client: \<open>pulls\<close> are the seconds the client takes before it asks
  for the next frame, and when the list is used up the client has gone. Other requests interleave at the stream
  limiter only, whose interleavings \<open>Streaming\<close> covers. Frames are kept structured; their text is JSON.
\<close>

subsection \<open>Request state\<close>

record policy_note =
  pn_event_type :: string
  pn_action :: string
  pn_rule_id :: string
  pn_count :: nat
  pn_severity :: string

text \<open>The attributes of \<open>request.state\<close> that the handler sets and the audit log reads.\<close>

record request_state =
  q_principal_hash :: "string option"
  q_api_key_id :: "string option"
  q_org_id :: "string option"
  q_model :: "string option"
  q_stream :: bool
  q_policy_events :: "policy_note list"
  q_error_type :: "string option"
  q_stored_messages :: "(nat \<times> normalized_message) list"
  q_pii_masked :: "(string, nat) dict"
  q_provider :: "string option"
  q_token_usage :: "normalized_usage option"
  q_audit_status :: "int option"

definition new_request_state :: request_state where
  "new_request_state = \<lparr>q_principal_hash = None, q_api_key_id = None, q_org_id = None, q_model = None, q_stream = False,
     q_policy_events = [], q_error_type = None, q_stored_messages = [], q_pii_masked = [], q_provider = None,
     q_token_usage = None, q_audit_status = None\<rparr>"

definition set_request_principal :: "api_key_principal \<Rightarrow> request_state \<Rightarrow> request_state" where
  "set_request_principal p q = q\<lparr>q_principal_hash := Some (p_hash p), q_api_key_id := p_key_id p, q_org_id := p_org_id p\<rparr>"

subsection \<open>Dependencies\<close>

text \<open>The body: \<open>None\<close> is text that is not JSON; \<open>schema_errors\<close> are the entries pydantic reports.\<close>

definition parse_chat_completion_request :: "(chat_request \<Rightarrow> validation_entry list) \<Rightarrow> settings \<Rightarrow> chat_request option \<Rightarrow> exc + chat_request" where
  "parse_chat_completion_request schema_errors st body =
     (case body of
        None \<Rightarrow> Inl (ValidationExc [(Some [''body''], Some ''Invalid JSON'')])
      | Some r \<Rightarrow> if chat_request_valid st r then Inr r else Inl (ValidationExc (schema_errors r)))"

text \<open>
  The dependencies in order: authentication, one token of the caller's rate limit, the scope, the body.
  \<open>allow\<close> is the answer of the rate limiter.
\<close>

definition chat_dependencies :: "(chat_request \<Rightarrow> validation_entry list) \<Rightarrow> settings \<Rightarrow> exc + api_key_principal \<Rightarrow>
    (string \<Rightarrow> py_error + rate_limit_result) \<Rightarrow> chat_request option \<Rightarrow> exc + (api_key_principal \<times> chat_request)" where
  "chat_dependencies schema_errors st auth allow body =
     bind_res auth (\<lambda>p.
     bind_res (case allow (p_hash p) of Inl _ \<Rightarrow> Inl OtherExc
               | Inr r \<Rightarrow> (case enforce_rate_limit r p of Inl e \<Rightarrow> Inl (ApiExc e) | Inr p' \<Rightarrow> Inr p')) (\<lambda>p'.
     bind_res (require_scope ''chat'' p') (\<lambda>_.
     bind_res (parse_chat_completion_request schema_errors st body) (\<lambda>r. Inr (p', r)))))"

subsection \<open>Policy and masking\<close>

text \<open>What the handler calls: the regular-expression engine and the providers by name, and values drawn for a response.\<close>

record 'pat world =
  w_compile :: "string \<Rightarrow> 'pat option"
  w_matches :: "'pat \<Rightarrow> string \<Rightarrow> nat"
  w_chat :: "string \<Rightarrow> normalized_request \<Rightarrow> exc + normalized_response"
  w_stream :: "string \<Rightarrow> normalized_request \<Rightarrow> normalized_chunk stream_event timed"
  w_created :: int
  w_fallback_id :: string

definition policy_matches :: "'pat world \<Rightarrow> settings \<Rightarrow> normalized_message list \<Rightarrow> policy_match list" where
  "policy_matches w st ms =
     (if policy_mode st \<noteq> ''disabled'' \<and> forbidden_patterns st \<noteq> []
      then scan_messages (w_matches w) ms (compile_rules (w_compile w) (forbidden_patterns st)) else [])"

definition policy_notes :: "settings \<Rightarrow> policy_match list \<Rightarrow> policy_note list" where
  "policy_notes st pms = map (\<lambda>pm. \<lparr>pn_event_type = ''forbidden_content'',
     pn_action = (if policy_mode st = ''block'' then ''block'' else ''log''),
     pn_rule_id = pm_rule_id pm, pn_count = pm_count pm, pn_severity = pm_severity pm\<rparr>) pms"

definition apply_policy :: "'pat world \<Rightarrow> settings \<Rightarrow> normalized_request \<Rightarrow> request_state \<Rightarrow> exc option \<times> request_state" where
  "apply_policy w st n q =
     (let pms = policy_matches w st (nr_messages n) in
      if pms = [] then (None, q)
      else let q' = q\<lparr>q_policy_events := q_policy_events q @ policy_notes st pms\<rparr> in
        if policy_mode st = ''block''
        then (Some (ApiExc policy_violation_error), q'\<lparr>q_error_type := Some ''content_policy_violation''\<rparr>)
        else (None, q'))"

definition apply_pii :: "settings \<Rightarrow> normalized_request \<Rightarrow> request_state \<Rightarrow> (exc + normalized_request) \<times> request_state" where
  "apply_pii st n q =
     (if pii_masking_enabled st then
        (case mask_messages (nr_messages n) (pii_types st) of
           Inl _ \<Rightarrow> (Inl OtherExc, q)
         | Inr (masked, summary) \<Rightarrow>
             (Inr (n\<lparr>nr_messages := masked\<rparr>),
              q\<lparr>q_stored_messages := List.enumerate 0 masked, q_pii_masked := summary\<rparr>))
      else (Inr n, q))"

subsection \<open>Streaming\<close>

datatype sse = SseData chat_chunk | SseError error_body | SseTimeout | SseDone

datatype stream_kind = Completed "normalized_usage option" | TimedOut | Failed exc | Disconnected

text \<open>\<open>_next_chunk_with_deadline\<close> on the rest of a stream: \<open>None\<close> is the timeout.\<close>

definition next_chunk_with_deadline :: "rat \<Rightarrow> rat \<Rightarrow> 'c stream_event timed \<Rightarrow> ('c stream_event \<times> rat \<times> 'c stream_event timed) option" where
  "next_chunk_with_deadline deadline now s =
     (if deadline - now \<le> 0 then None
      else case s of
        [] \<Rightarrow> None
      | (d, ev) # s' \<Rightarrow> if d > deadline - now then None else Some (ev, now + d, s'))"

definition error_frame :: "exc \<Rightarrow> sse" where
  "error_frame x =
     (case x of
        ApiExc e \<Rightarrow> SseError (openai_error_body (e_message e) (e_type e) (e_code e))
      | _ \<Rightarrow> SseError (openai_error_body ''Internal server error'' ''server_error'' (Some ''internal_error'')))"

definition merge_usage :: "normalized_chunk \<Rightarrow> normalized_usage option \<Rightarrow> normalized_usage option" where
  "merge_usage c usage = (case nc_usage c of None \<Rightarrow> usage | Some u \<Rightarrow> Some u)"

text \<open>The loop of \<open>_stream_chunks\<close>, and the loop after a chunk has been yielded.\<close>

function stream_loop :: "(normalized_chunk \<Rightarrow> chat_chunk) \<Rightarrow> rat \<Rightarrow> rat \<Rightarrow> normalized_chunk stream_event timed \<Rightarrow> rat list \<Rightarrow>
    normalized_usage option \<Rightarrow> sse list \<times> stream_kind" where
  "stream_loop f deadline now s pulls usage =
     (case next_chunk_with_deadline deadline now s of
        None \<Rightarrow> ([SseTimeout], TimedOut)
      | Some (EvStop, now', s') \<Rightarrow> ([SseDone], Completed usage)
      | Some (EvRaise x, now', s') \<Rightarrow> ([error_frame x], Failed x)
      | Some (EvChunk c, now', s') \<Rightarrow>
          (case pulls of
             [] \<Rightarrow> ([SseData (f c)], Disconnected)
           | p # ps \<Rightarrow> let (frames, kind) = stream_loop f deadline (now' + p) s' ps (merge_usage c usage)
                      in (SseData (f c) # frames, kind)))"
  by pat_completeness auto
termination
  by (relation "measure (\<lambda>(f, deadline, now, s, pulls, usage). length pulls)") auto

declare stream_loop.simps [simp del]

definition stream_chunks :: "(normalized_chunk \<Rightarrow> chat_chunk) \<Rightarrow> rat \<Rightarrow> rat \<Rightarrow> normalized_chunk option \<Rightarrow>
    normalized_chunk stream_event timed \<Rightarrow> rat list \<Rightarrow> sse list \<times> stream_kind" where
  "stream_chunks f deadline now first s pulls =
     (case first of
        None \<Rightarrow> stream_loop f deadline now s pulls None
      | Some c \<Rightarrow>
          (case pulls of
             [] \<Rightarrow> ([SseData (f c)], Disconnected)
           | p # ps \<Rightarrow> let (frames, kind) = stream_loop f deadline (now + p) s ps (merge_usage c None)
                      in (SseData (f c) # frames, kind)))"

text \<open>What the generator leaves in the request state.\<close>

definition stream_state :: "stream_kind \<Rightarrow> request_state \<Rightarrow> request_state" where
  "stream_state kind q =
     (case kind of
        Completed usage \<Rightarrow> q\<lparr>q_token_usage := usage\<rparr>
      | TimedOut \<Rightarrow> q\<lparr>q_error_type := Some ''stream_timeout'', q_audit_status := Some 504\<rparr>
      | Failed (ApiExc e) \<Rightarrow> q\<lparr>q_error_type := Some (e_type e), q_audit_status := Some (e_status e)\<rparr>
      | Failed _ \<Rightarrow> q\<lparr>q_error_type := Some ''server_error'', q_audit_status := Some 500\<rparr>
      | Disconnected \<Rightarrow> q)"

subsection \<open>The handler\<close>

datatype chat_outcome = ChatRaised exc | ChatCancelled | ChatJson chat_response | ChatStream int "sse list" stream_kind

text \<open>The body of the answer when not even the first chunk came in time.\<close>

definition stream_timeout_only :: "request_state \<Rightarrow> sse list \<times> request_state" where
  "stream_timeout_only q = ([SseTimeout], q\<lparr>q_error_type := Some ''stream_timeout'', q_audit_status := Some 504\<rparr>)"

lemma stream_timeout_only_eq [simp]: "stream_timeout_only q = ([SseTimeout], stream_state TimedOut q)"
  by (simp add: stream_timeout_only_def stream_state_def)

text \<open>
  The streaming branch. \<open>cancelled\<close>: the request's task is cancelled while it waits for the first chunk; \<open>CancelledError\<close> is not an
  \<open>Exception\<close>, so none of the handlers below catches it. After \<open>StopAsyncIteration\<close> the exhausted generator stops again at once.
\<close>

definition chat_stream_response :: "'pat world \<Rightarrow> settings \<Rightarrow> string \<Rightarrow> string \<Rightarrow> normalized_request \<Rightarrow> rat \<Rightarrow> rat list \<Rightarrow> bool \<Rightarrow>
    request_state \<Rightarrow> stream_limiter \<Rightarrow> chat_outcome \<times> request_state \<times> stream_limiter" where
  "chat_stream_response w st key name n now pulls cancelled q sl =
     (case acquire key sl of
        (None, sl1) \<Rightarrow> (ChatRaised (ApiExc (plain_error RateLimitError ''Too many concurrent streams'')), q, sl1)
      | (Some lease, sl1) \<Rightarrow>
          let deadline = now + of_int (stream_max_duration_seconds st);
              f = chunk_from_normalized (w_created w) (w_fallback_id w) (nr_model n);
              run = (\<lambda>t first rest. let (frames, kind) = stream_chunks f deadline t first rest pulls
                                   in (ChatStream 200 frames kind, stream_state kind q, release lease sl1))
          in if cancelled then (ChatCancelled, q, sl1)
             else case next_chunk_with_deadline deadline now (w_stream w name n) of
               None \<Rightarrow> (let (frames, q') = stream_timeout_only q in (ChatStream 504 frames TimedOut, q', release lease sl1))
             | Some (EvStop, t, rest) \<Rightarrow> run t None [(0, EvStop)]
             | Some (EvRaise x, t, rest) \<Rightarrow> (ChatRaised x, q, release lease sl1)
             | Some (EvChunk c, t, rest) \<Rightarrow> run t (Some c) rest)"

text \<open>The whole handler; the last component is the request that was handed to a provider, if any.\<close>

definition create_chat_completion :: "'pat world \<Rightarrow> settings \<Rightarrow> api_key_principal \<Rightarrow> chat_request \<Rightarrow> rat \<Rightarrow> rat list \<Rightarrow> bool \<Rightarrow>
    request_state \<Rightarrow> stream_limiter \<Rightarrow> (chat_outcome \<times> request_state \<times> stream_limiter) \<times> normalized_request option" where
  "create_chat_completion w st p payload now pulls cancelled q sl =
     (let n = to_normalized payload;
          q1 = q\<lparr>q_model := Some (nr_model n), q_stream := nr_stream n\<rparr>
      in case apply_policy w st n q1 of
        (Some e, q2) \<Rightarrow> ((ChatRaised e, q2, sl), None)
      | (None, q2) \<Rightarrow>
          (case apply_pii st n q2 of
             (Inl e, q3) \<Rightarrow> ((ChatRaised e, q3, sl), None)
           | (Inr n', q3) \<Rightarrow>
               (case provider_for_model st (nr_model n') of
                  Inl e \<Rightarrow> ((ChatRaised e, q3, sl), None)
                | Inr name \<Rightarrow>
                    let q4 = q3\<lparr>q_provider := Some name\<rparr> in
                    if nr_stream n' then
                      (let res = chat_stream_response w st (p_hash p) name n' now pulls cancelled q4 sl
                       in (res, if fst (acquire (p_hash p) sl) = None then None else Some n'))
                    else (case w_chat w name n' of
                            Inl e \<Rightarrow> ((ChatRaised e, q4, sl), Some n')
                          | Inr resp \<Rightarrow> ((ChatJson (response_from_normalized (w_created w) resp),
                              q4\<lparr>q_token_usage := Some (ns_usage resp)\<rparr>, sl), Some n')))))"

text \<open>The providers of the program over the two client libraries.\<close>

definition provider_chat where
  "provider_chat st openai_create anthropic_create name n =
     (if name = ''openai'' then openai_chat openai_create (new_openai (openai_api_key st)) n
      else anthropic_chat anthropic_create (new_anthropic (anthropic_api_key st) (default_max_tokens st)) n)"

definition provider_stream where
  "provider_stream st openai_create anthropic_create name n =
     (if name = ''openai'' then openai_stream openai_create (new_openai (openai_api_key st)) n
      else anthropic_stream anthropic_create (new_anthropic (anthropic_api_key st) (default_max_tokens st)) n)"

subsection \<open>Facts\<close>

lemma policy_matches_nil:
  "policy_matches w st ms = [] \<longleftrightarrow> policy_mode st = ''disabled'' \<or> forbidden_patterns st = [] \<or>
    (\<forall>r \<in> set (compile_rules (w_compile w) (forbidden_patterns st)). \<forall>m \<in> set ms. w_matches w (pattern r) (nm_content m) = 0)"
  by (simp add: policy_matches_def scan_messages_nil)

text \<open>What is handed to the provider has gone through masking.\<close>

lemma apply_pii_eq:
  "apply_pii st n q =
    (if pii_masking_enabled st
     then (Inr (n\<lparr>nr_messages := map (masked_by (final_mask (pii_types st) (nr_messages n)) (enabled_of (pii_types st))) (nr_messages n)\<rparr>),
           q\<lparr>q_stored_messages := List.enumerate 0 (map (masked_by (final_mask (pii_types st) (nr_messages n)) (enabled_of (pii_types st))) (nr_messages n)),
             q_pii_masked := counts (final_mask (pii_types st) (nr_messages n))\<rparr>)
     else (Inr n, q))"
  by (simp add: apply_pii_def mask_messages_eq)

text \<open>The handler after the policy check let the request through.\<close>

definition masked_request :: "settings \<Rightarrow> chat_request \<Rightarrow> normalized_request" where
  "masked_request st payload = (case fst (apply_pii st (to_normalized payload) new_request_state) of Inr n \<Rightarrow> n | Inl _ \<Rightarrow> to_normalized payload)"

lemma masked_request_eq:
  "masked_request st payload =
    (if pii_masking_enabled st
     then (to_normalized payload)\<lparr>nr_messages := map (masked_by (final_mask (pii_types st) (nr_messages (to_normalized payload)))
        (enabled_of (pii_types st))) (nr_messages (to_normalized payload))\<rparr>
     else to_normalized payload)"
  by (simp add: masked_request_def apply_pii_eq)

lemma apply_pii_request: "fst (apply_pii st (to_normalized payload) q) = Inr (masked_request st payload)"
  by (simp add: masked_request_eq apply_pii_eq)

lemma sent_masked:
  assumes "create_chat_completion w st p payload now pulls cancelled q sl = (res, Some sent)"
  shows "sent = masked_request st payload"
proof -
  let ?n = "to_normalized payload" let ?q1 = "q\<lparr>q_model := Some (nr_model ?n), q_stream := nr_stream ?n\<rparr>"
  obtain eo q2 where pol: "apply_policy w st ?n ?q1 = (eo, q2)" by (cases "apply_policy w st ?n ?q1")
  obtain q3 where pii: "apply_pii st ?n q2 = (Inr (masked_request st payload), q3)"
    using apply_pii_request [of st payload q2] by (metis prod.collapse)
  show ?thesis
    using assms by (cases eo) (auto simp: create_chat_completion_def Let_def pol pii split: sum.splits if_splits)
qed

text \<open>What the handler hands on: the model and the parameters of the client's request, the roles, and with masking on the masked messages.\<close>

lemma sent_only_masked:
  assumes "create_chat_completion w st p payload now pulls cancelled q sl = (res, Some sent)" and "pii_masking_enabled st"
  shows "mask_messages (nr_messages (to_normalized payload)) (pii_types st) = Inr (nr_messages sent, counts (final_mask (pii_types st) (nr_messages (to_normalized payload)))) \<and>
    map nm_role (nr_messages sent) = map cm_role (cr_messages payload) \<and> nr_model sent = cr_model payload \<and>
    nr_temperature sent = cr_temperature payload \<and> nr_max_tokens sent = cr_max_tokens payload \<and> nr_stream sent = cr_stream payload"
proof -
  have "map nm_role (map (masked_by st' en) ms) = map nm_role ms" for st' en ms by (simp add: masked_by_def)
  then show ?thesis
    using sent_masked [OF assms(1)] assms(2) by (simp add: masked_request_eq mask_messages_eq to_normalized_def comp_def masked_by_def)
qed

text \<open>The handler's answer, the limiter and what is sent do not depend on what the request state holds.\<close>

definition visible :: "(chat_outcome \<times> request_state \<times> stream_limiter) \<times> normalized_request option \<Rightarrow>
    chat_outcome \<times> stream_limiter \<times> normalized_request option" where
  "visible r = (fst (fst r), snd (snd (fst r)), snd r)"

lemma stream_response_state:
  "fst (chat_stream_response w st k name n now pulls cancelled q sl) = fst (chat_stream_response w st k name n now pulls cancelled q' sl)"
  "snd (snd (chat_stream_response w st k name n now pulls cancelled q sl)) = snd (snd (chat_stream_response w st k name n now pulls cancelled q' sl))"
  by (simp_all add: chat_stream_response_def Let_def split: prod.split option.split stream_event.split)

lemma stream_response_settings:
  "chat_stream_response w (st\<lparr>policy_mode := m\<rparr>) k name n now pulls cancelled q sl = chat_stream_response w st k name n now pulls cancelled q sl"
proof -
  have s: "stream_max_duration_seconds (st\<lparr>policy_mode := m\<rparr>) = stream_max_duration_seconds st" by simp
  show ?thesis unfolding chat_stream_response_def s by (rule refl)
qed

text \<open>The part of the handler after the policy check.\<close>

definition serve :: "'pat world \<Rightarrow> settings \<Rightarrow> api_key_principal \<Rightarrow> chat_request \<Rightarrow> rat \<Rightarrow> rat list \<Rightarrow> bool \<Rightarrow>
    request_state \<Rightarrow> stream_limiter \<Rightarrow> (chat_outcome \<times> request_state \<times> stream_limiter) \<times> normalized_request option" where
  "serve w st p payload now pulls cancelled q sl =
     (let n = masked_request st payload; q3 = snd (apply_pii st (to_normalized payload) q) in
      case provider_for_model st (nr_model n) of
        Inl e \<Rightarrow> ((ChatRaised e, q3, sl), None)
      | Inr name \<Rightarrow>
          let q4 = q3\<lparr>q_provider := Some name\<rparr> in
          if nr_stream n
          then (chat_stream_response w st (p_hash p) name n now pulls cancelled q4 sl,
                if fst (acquire (p_hash p) sl) = None then None else Some n)
          else case w_chat w name n of
            Inl e \<Rightarrow> ((ChatRaised e, q4, sl), Some n)
          | Inr resp \<Rightarrow> ((ChatJson (response_from_normalized (w_created w) resp), q4\<lparr>q_token_usage := Some (ns_usage resp)\<rparr>, sl), Some n))"

lemma create_chat_eq:
  "create_chat_completion w st p payload now pulls cancelled q sl =
    (let n = to_normalized payload in
     case apply_policy w st n (q\<lparr>q_model := Some (nr_model n), q_stream := nr_stream n\<rparr>) of
       (Some e, q2) \<Rightarrow> ((ChatRaised e, q2, sl), None)
     | (None, q2) \<Rightarrow> serve w st p payload now pulls cancelled q2 sl)"
proof -
  let ?n = "to_normalized payload"
  obtain eo q2 where pol: "apply_policy w st ?n (q\<lparr>q_model := Some (nr_model ?n), q_stream := nr_stream ?n\<rparr>) = (eo, q2)" by fastforce
  have pii: "apply_pii st ?n q2 = (Inr (masked_request st payload), snd (apply_pii st ?n q2))"
    by (metis apply_pii_request prod.collapse)
  show ?thesis
  proof (cases eo)
    case None
    show ?thesis
      unfolding create_chat_completion_def serve_def Let_def pol None prod.case option.case
      by (subst pii) (simp only: prod.case sum.case)
  next
    case (Some e)
    then show ?thesis by (simp add: create_chat_completion_def pol)
  qed
qed

lemma visible_serve: "visible (serve w st p payload now pulls cancelled q sl) = visible (serve w st p payload now pulls cancelled q' sl)"
proof (cases "provider_for_model st (nr_model (masked_request st payload))")
  case (Inl e)
  then show ?thesis by (simp add: serve_def visible_def)
next
  case (Inr name)
  let ?n = "masked_request st payload"
  let ?q = "\<lambda>q. (snd (apply_pii st (to_normalized payload) q))\<lparr>q_provider := Some name\<rparr>"
  show ?thesis
  proof (cases "nr_stream ?n")
    case True
    then show ?thesis
      using stream_response_state [of w st "p_hash p" name ?n now pulls cancelled "?q q" sl "?q q'"]
      by (simp add: serve_def visible_def Inr Let_def)
  next
    case False
    then show ?thesis by (simp add: serve_def visible_def Inr Let_def split: sum.split)
  qed
qed

lemma serve_settings: "serve w (st\<lparr>policy_mode := m\<rparr>) p payload now pulls cancelled q sl = serve w st p payload now pulls cancelled q sl"
proof -
  have a: "masked_request (st\<lparr>policy_mode := m\<rparr>) payload = masked_request st payload" by (simp add: masked_request_eq)
  have b: "apply_pii (st\<lparr>policy_mode := m\<rparr>) n q = apply_pii st n q" for n q by (simp add: apply_pii_eq)
  have c: "provider_for_model (st\<lparr>policy_mode := m\<rparr>) x = provider_for_model st x" for x
    by (simp add: provider_for_model_def model_providers_eq)
  show ?thesis unfolding serve_def a b c stream_response_settings by (rule refl)
qed

lemma visible_unblocked:
  assumes "policy_mode st \<noteq> ''block''"
  shows "visible (create_chat_completion w st p payload now pulls cancelled q sl) = visible (serve w st p payload now pulls cancelled q sl)"
proof -
  let ?n = "to_normalized payload" let ?q1 = "q\<lparr>q_model := Some (nr_model ?n), q_stream := nr_stream ?n\<rparr>"
  have "fst (apply_policy w st ?n ?q1) = None" using assms by (simp add: apply_policy_def Let_def split: if_split)
  then obtain q2 where "apply_policy w st ?n ?q1 = (None, q2)" by (cases "apply_policy w st ?n ?q1") auto
  then show ?thesis using visible_serve by (simp add: create_chat_eq)
qed

text \<open>C5: in blocking mode a conversation in which some rule matches is refused with 403, nothing is sent to a provider
  and no stream slot is taken; in any other mode the rules change neither the answer nor what is sent.\<close>

theorem policy_decides:
  "(policy_mode st = ''block'' \<and> (\<exists>r \<in> set (compile_rules (w_compile w) (forbidden_patterns st)). \<exists>m \<in> set (cr_messages payload).
      w_matches w (pattern r) (cm_content m) > 0) \<longrightarrow>
    (\<exists>q'. create_chat_completion w st p payload now pulls cancelled q sl = ((ChatRaised (ApiExc policy_violation_error), q', sl), None)) \<and>
    er_status (handle_exc (ApiExc policy_violation_error)) = 403) \<and>
   (policy_mode st \<noteq> ''block'' \<longrightarrow>
    visible (create_chat_completion w st p payload now pulls cancelled q sl) =
      visible (create_chat_completion w (st\<lparr>policy_mode := ''disabled''\<rparr>) p payload now pulls cancelled q sl))"
proof (intro conjI impI)
  assume b: "policy_mode st = ''block'' \<and> (\<exists>r \<in> set (compile_rules (w_compile w) (forbidden_patterns st)). \<exists>m \<in> set (cr_messages payload).
      w_matches w (pattern r) (cm_content m) > 0)"
  then have "forbidden_patterns st \<noteq> []" by (auto simp: compile_rules_def List.map_filter_def)
  with b have "policy_matches w st (nr_messages (to_normalized payload)) \<noteq> []"
    unfolding policy_matches_nil by (force simp: to_normalized_def)
  with b show "\<exists>q'. create_chat_completion w st p payload now pulls cancelled q sl = ((ChatRaised (ApiExc policy_violation_error), q', sl), None)"
    by (simp add: create_chat_eq apply_policy_def Let_def)
  show "er_status (handle_exc (ApiExc policy_violation_error)) = 403"
    by (simp add: handle_api_status policy_violation_error_def)
next
  assume "policy_mode st \<noteq> ''block''"
  then show "visible (create_chat_completion w st p payload now pulls cancelled q sl) =
      visible (create_chat_completion w (st\<lparr>policy_mode := ''disabled''\<rparr>) p payload now pulls cancelled q sl)"
    by (simp add: visible_unblocked serve_settings)
qed

subsection \<open>Stream slots\<close>

lemma stream_response_limiter:
  "snd (snd (chat_stream_response w st k name n now pulls cancelled q sl)) =
    (case acquire k sl of (None, sl1) \<Rightarrow> sl1 | (Some l, sl1) \<Rightarrow> if cancelled then sl1 else release l sl1)"
  by (simp add: chat_stream_response_def Let_def split: prod.split option.split stream_event.split)

lemma stream_response_held:
  assumes "limiter_inv sl"
  shows "held (snd (snd (chat_stream_response w st k name n now pulls cancelled q sl))) =
    (if cancelled \<and> held sl k < max_concurrent_streams sl then (held sl)(k := held sl k + 1) else held sl)"
proof (cases "acquire k sl")
  case (Pair r sl1)
  show ?thesis
  proof (cases r)
    case None
    then show ?thesis
      using slots.refused [OF assms, of k sl1] slots.acq_iff [OF assms, of k] Pair by (simp add: stream_response_limiter)
  next
    case (Some l)
    then have g: "held sl1 = (held sl)(k := held sl k + 1)" "owner sl1 l = Some k" "limiter_inv sl1" "held sl k < max_concurrent_streams sl"
      using slots.granted [OF assms, of k l sl1] slots.acq_iff [OF assms, of k] slots.inv_acq [OF assms, of k] Pair by auto
    then show ?thesis
      using slots.freed [OF g(3,2)] Pair Some by (auto simp: stream_response_limiter)
  qed
qed

text \<open>Whatever the handler does, it touches the limiter through the streaming branch only.\<close>

lemma handler_held:
  assumes "limiter_inv sl"
  shows "held (snd (snd (fst (create_chat_completion w st p payload now pulls cancelled q sl)))) \<in>
    {held sl, (if cancelled \<and> held sl (p_hash p) < max_concurrent_streams sl then (held sl)(p_hash p := held sl (p_hash p) + 1) else held sl)}"
proof -
  have s: "held (snd (snd (fst (serve w st p payload now pulls cancelled q2 sl)))) \<in>
      {held sl, (if cancelled \<and> held sl (p_hash p) < max_concurrent_streams sl then (held sl)(p_hash p := held sl (p_hash p) + 1) else held sl)}" for q2
    unfolding serve_def Let_def
    by (cases "provider_for_model st (nr_model (masked_request st payload))")
      (simp_all add: stream_response_held [OF assms] split: sum.split)
  show ?thesis
  proof (cases "apply_policy w st (to_normalized payload) (q\<lparr>q_model := Some (nr_model (to_normalized payload)), q_stream := nr_stream (to_normalized payload)\<rparr>)")
    case (Pair eo q2)
    then show ?thesis using s [of q2] by (cases eo) (simp_all add: create_chat_eq)
  qed
qed



subsection \<open>The stream protocol\<close>

fun upstream_chunks :: "normalized_chunk stream_event timed \<Rightarrow> normalized_chunk list" where
  "upstream_chunks ((d, EvChunk c) # es) = c # upstream_chunks es"
| "upstream_chunks _ = []"

fun end_frames :: "stream_kind \<Rightarrow> sse list" where
  "end_frames (Completed u) = [SseDone]"
| "end_frames TimedOut = [SseTimeout]"
| "end_frames (Failed x) = [error_frame x]"
| "end_frames Disconnected = []"

text \<open>What the frames of a stream must look like, given the chunks of the upstream stream and the usage so far.\<close>

definition well_streamed :: "(normalized_chunk \<Rightarrow> chat_chunk) \<Rightarrow> normalized_chunk list \<Rightarrow> normalized_usage option \<Rightarrow> sse list \<times> stream_kind \<Rightarrow> bool" where
  "well_streamed f cs usage r \<longleftrightarrow>
     (\<exists>k. fst r = map (\<lambda>c. SseData (f c)) (take k cs) @ end_frames (snd r) \<and>
       (\<forall>u. snd r = Completed u \<longrightarrow> take k cs = cs \<and> u = fold merge_usage cs usage))"

lemma well_streamed_Cons:
  assumes "well_streamed f cs (merge_usage c usage) (frames, kind)"
  shows "well_streamed f (c # cs) usage (SseData (f c) # frames, kind)"
proof -
  obtain k where "frames = map (\<lambda>c. SseData (f c)) (take k cs) @ end_frames kind"
    "\<forall>u. kind = Completed u \<longrightarrow> take k cs = cs \<and> u = fold merge_usage cs (merge_usage c usage)"
    using assms by (auto simp: well_streamed_def)
  then show ?thesis unfolding well_streamed_def by (intro exI [of _ "Suc k"]) simp
qed

lemma well_streamed_end: "(\<And>u. kind = Completed u \<Longrightarrow> cs = [] \<and> u = usage) \<Longrightarrow> well_streamed f cs usage (end_frames kind, kind)"
  unfolding well_streamed_def by (intro exI [of _ 0]) auto

lemma stream_loop_well: "well_streamed f (upstream_chunks s) usage (stream_loop f deadline now s pulls usage)"
proof (induction f deadline now s pulls usage rule: stream_loop.induct)
  case (1 f deadline now s pulls usage)
  show ?case
  proof (cases "next_chunk_with_deadline deadline now s")
    case None
    then show ?thesis using well_streamed_end [of TimedOut "upstream_chunks s" usage f] by (subst stream_loop.simps) simp
  next
    case (Some x)
    obtain ev t s' where x: "x = (ev, t, s')" by (cases x)
    then obtain d where s: "s = (d, ev) # s'"
      using Some by (auto simp: next_chunk_with_deadline_def split: if_splits list.splits)
    show ?thesis
    proof (cases ev)
      case (EvChunk c)
      show ?thesis
      proof (cases pulls)
        case Nil
        then show ?thesis using Some x EvChunk s well_streamed_Cons [OF well_streamed_end [of Disconnected "upstream_chunks s'"]]
          by (subst stream_loop.simps) simp
      next
        case (Cons p ps)
        obtain fr kd where r: "stream_loop f deadline (t + p) s' ps (merge_usage c usage) = (fr, kd)" by fastforce
        with 1 [OF Some x [symmetric] EvChunk refl Cons] have "well_streamed f (upstream_chunks s') (merge_usage c usage) (fr, kd)" by simp
        then show ?thesis using Some x EvChunk s Cons r well_streamed_Cons by (subst stream_loop.simps) simp
      qed
    next
      case EvStop
      then show ?thesis using Some x s well_streamed_end [of "Completed usage" "[]" usage f] by (subst stream_loop.simps) simp
    next
      case (EvRaise e)
      then show ?thesis using Some x s well_streamed_end [of "Failed e" "[]" usage f] by (subst stream_loop.simps) simp
    qed
  qed
qed

lemma stream_chunks_well:
  "well_streamed f (case first of None \<Rightarrow> upstream_chunks s | Some c \<Rightarrow> c # upstream_chunks s) None (stream_chunks f deadline now first s pulls)"
proof (cases first)
  case None
  then show ?thesis using stream_loop_well [of f s None deadline now pulls] by (simp add: stream_chunks_def)
next
  case (Some c)
  show ?thesis
  proof (cases pulls)
    case Nil
    then show ?thesis using Some well_streamed_Cons [OF well_streamed_end [of Disconnected "upstream_chunks s"]] by (simp add: stream_chunks_def)
  next
    case (Cons p ps)
    obtain fr kd where r: "stream_loop f deadline (now + p) s ps (merge_usage c None) = (fr, kd)" by fastforce
    then have "well_streamed f (upstream_chunks s) (merge_usage c None) (fr, kd)" using stream_loop_well by metis
    then show ?thesis using Some Cons r well_streamed_Cons by (simp add: stream_chunks_def)
  qed
qed

lemma stream_response_well:
  assumes "chat_stream_response w st k name n now pulls cancelled q sl = (ChatStream status frames kind, q', sl')"
  shows "well_streamed (chunk_from_normalized (w_created w) (w_fallback_id w) (nr_model n)) (upstream_chunks (w_stream w name n)) None (frames, kind) \<and>
    q' = stream_state kind q \<and> (status = 200 \<or> status = 504 \<and> kind = TimedOut)"
proof -
  let ?f = "chunk_from_normalized (w_created w) (w_fallback_id w) (nr_model n)"
  let ?dl = "now + of_int (stream_max_duration_seconds st)"
  obtain l sl1 where a: "acquire k sl = (Some l, sl1)" and c: "\<not> cancelled"
    using assms by (auto simp: chat_stream_response_def Let_def split: prod.splits option.splits if_splits)
  show ?thesis
  proof (cases "next_chunk_with_deadline ?dl now (w_stream w name n)")
    case None
    with assms a c show ?thesis
      using well_streamed_end [of TimedOut "upstream_chunks (w_stream w name n)" None ?f] by (auto simp: chat_stream_response_def)
  next
    case (Some x)
    obtain ev t rest where x: "x = (ev, t, rest)" by (cases x)
    then obtain d where s: "w_stream w name n = (d, ev) # rest"
      using Some by (auto simp: next_chunk_with_deadline_def split: if_splits list.splits)
    show ?thesis
    proof (cases ev)
      case (EvChunk ck)
      obtain fr kd where r: "stream_chunks ?f ?dl t (Some ck) rest pulls = (fr, kd)" by fastforce
      with assms a c Some x EvChunk have "frames = fr" "kind = kd" "q' = stream_state kind q" "status = 200" by (auto simp: chat_stream_response_def)
      with stream_chunks_well [where f = ?f and first = "Some ck" and s = rest and deadline = ?dl and now = t and pulls = pulls] r s EvChunk show ?thesis by simp
    next
      case EvStop
      obtain fr kd where r: "stream_chunks ?f ?dl t None [(0, EvStop)] pulls = (fr, kd)" by fastforce
      with assms a c Some x EvStop have "frames = fr" "kind = kd" "q' = stream_state kind q" "status = 200" by (auto simp: chat_stream_response_def)
      with stream_chunks_well [where f = ?f and first = None and s = "[(0, EvStop)]" and deadline = ?dl and now = t and pulls = pulls] r s EvStop show ?thesis by simp
    next
      case (EvRaise e)
      with assms a c Some x show ?thesis by (simp add: chat_stream_response_def)
    qed
  qed
qed

text \<open>C15: a streamed answer is a prefix of the upstream chunks, in order and nothing in between, followed by exactly one closing
  frame (none when the client went away): \<open>[DONE]\<close> only after all chunks, and then the recorded usage is the last one upstream
  reported; a timeout or a failure closes with its error frame, and the audit status says so.\<close>

theorem stream_protocol:
  assumes "chat_stream_response w st key name n now pulls cancelled q sl = (ChatStream status frames kind, q', sl')"
  shows "\<exists>k. frames = map (\<lambda>c. SseData (chunk_from_normalized (w_created w) (w_fallback_id w) (nr_model n) c))
        (take k (upstream_chunks (w_stream w name n))) @ end_frames kind \<and>
    (\<forall>u. kind = Completed u \<longrightarrow> take k (upstream_chunks (w_stream w name n)) = upstream_chunks (w_stream w name n) \<and>
       q_token_usage q' = fold merge_usage (upstream_chunks (w_stream w name n)) None) \<and>
    (kind = TimedOut \<longrightarrow> q_audit_status q' = Some 504) \<and>
    (\<forall>e. kind = Failed (ApiExc e) \<longrightarrow> q_audit_status q' = Some (e_status e))"
  using stream_response_well [OF assms] by (auto simp: well_streamed_def stream_state_def)

text \<open>How many frames fit before the deadline when each event of the upstream takes at least \<open>\<delta>\<close> seconds.\<close>

lemma stream_loop_frames:
  assumes "0 < \<delta>" and "\<forall>(d, ev) \<in> set s. \<delta> \<le> d" and "\<forall>p \<in> set pulls. 0 \<le> p"
  shows "of_nat (length (fst (stream_loop f deadline now s pulls usage))) \<le> max 0 (deadline - now) / \<delta> + 1"
  using assms(2,3)
proof (induction f deadline now s pulls usage rule: stream_loop.induct)
  case (1 f deadline now s pulls usage)
  show ?case
  proof (cases "\<exists>c t rest p ps. next_chunk_with_deadline deadline now s = Some (EvChunk c, t, rest) \<and> pulls = p # ps")
    case False
    then have "length (fst (stream_loop f deadline now s pulls usage)) = 1"
      by (cases pulls) (auto simp: stream_loop.simps [of f deadline now s] split: option.split stream_event.split)
    then show ?thesis using assms(1) by (simp add: divide_nonneg_pos)
  next
    case True
    then obtain c t rest p ps where n: "next_chunk_with_deadline deadline now s = Some (EvChunk c, t, rest)" and p: "pulls = p # ps" by blast
    then obtain d where d: "s = (d, EvChunk c) # rest" "t = now + d" "d \<le> deadline - now"
      by (auto simp: next_chunk_with_deadline_def split: if_splits list.splits)
    have "of_nat (length (fst (stream_loop f deadline (t + p) rest ps (merge_usage c usage)))) \<le> max 0 (deadline - (t + p)) / \<delta> + 1"
      using 1 n p d(1) by auto
    also have "\<dots> \<le> (deadline - now - \<delta>) / \<delta> + 1"
      using 1(2,3) p d assms(1) by (intro add_right_mono divide_right_mono) auto
    also have "\<dots> = (deadline - now) / \<delta>" using assms(1) by (simp add: diff_divide_distrib)
    finally have "of_nat (length (fst (stream_loop f deadline now s pulls usage))) \<le> (deadline - now) / \<delta> + 1"
      by (cases "stream_loop f deadline (t + p) rest ps (merge_usage c usage)") (simp add: stream_loop.simps [of f deadline now s] n p)
    also have "\<dots> \<le> max 0 (deadline - now) / \<delta> + 1" using assms(1) by (intro add_right_mono divide_right_mono) auto
    finally show ?thesis .
  qed
qed

text \<open>C26: a stream comes to its end by itself: however long the upstream would go on and however many frames the client asks for, if every
  upstream event takes at least \<open>\<delta>\<close> seconds then the response has at most \<open>stream_max_duration_seconds / \<delta>\<close> frames and the closing one.\<close>

theorem stream_ends_by_deadline:
  assumes "chat_stream_response w st key name n now pulls cancelled q sl = (ChatStream status frames kind, q', sl')"
    and "0 < \<delta>" and "\<forall>(d, ev) \<in> set (w_stream w name n). \<delta> \<le> d" and "\<forall>p \<in> set pulls. 0 \<le> p" and "1 \<le> stream_max_duration_seconds st"
  shows "of_nat (length frames) \<le> of_int (stream_max_duration_seconds st) / \<delta> + 1"
proof -
  let ?D = "of_int (stream_max_duration_seconds st) :: rat" let ?f = "chunk_from_normalized (w_created w) (w_fallback_id w) (nr_model n)"
  have D: "0 \<le> ?D / \<delta>" using assms(2,5) by simp
  consider "frames = [SseTimeout]" |
    t where "stream_chunks ?f (now + ?D) t None [(0, EvStop)] pulls = (frames, kind)" |
    t c rest where "next_chunk_with_deadline (now + ?D) now (w_stream w name n) = Some (EvChunk c, t, rest)"
      "stream_chunks ?f (now + ?D) t (Some c) rest pulls = (frames, kind)"
    using assms(1) by (auto simp: chat_stream_response_def Let_def split: prod.splits option.splits if_splits stream_event.splits)
  then show ?thesis
  proof cases
    case 2
    then show ?thesis using D by (auto simp: stream_chunks_def stream_loop.simps next_chunk_with_deadline_def split: if_splits)
  next
    case 3
    then obtain d where d: "w_stream w name n = (d, EvChunk c) # rest" "t = now + d" "d \<le> ?D" "\<delta> \<le> d"
      using assms(3) by (auto simp: next_chunk_with_deadline_def split: if_splits list.splits)
    show ?thesis
    proof (cases pulls)
      case (Cons p ps)
      have "of_nat (length (fst (stream_loop ?f (now + ?D) (t + p) rest ps (merge_usage c None)))) \<le> max 0 (now + ?D - (t + p)) / \<delta> + 1"
        using assms(3,4) d(1) Cons by (intro stream_loop_frames assms(2)) auto
      also have "\<dots> \<le> (?D - \<delta>) / \<delta> + 1" using assms(2,4) d Cons by (intro add_right_mono divide_right_mono) auto
      also have "\<dots> = ?D / \<delta>" using assms(2) by (simp add: diff_divide_distrib)
      finally show ?thesis using 3(2) Cons
        by (cases "stream_loop ?f (now + ?D) (t + p) rest ps (merge_usage c None)") (auto simp: stream_chunks_def)
    qed (use 3(2) D in \<open>auto simp: stream_chunks_def\<close>)
  qed (use D in simp)
qed

subsection \<open>Concrete runs\<close>

text \<open>A provider that streams two chunks and ends, and one rule engine in which a pattern matches a text that begins with it.\<close>

definition sample_chunk :: "string \<Rightarrow> normalized_chunk" where
  "sample_chunk s = empty_chunk\<lparr>nc_delta := s, nc_usage := Some \<lparr>prompt_tokens = 1, completion_tokens = int (length s), total_tokens = 1 + int (length s)\<rparr>\<rparr>"

definition sample_world :: "string world" where
  "sample_world = \<lparr>w_compile = Some, w_matches = (\<lambda>p s. if take (length p) s = p then 1 else 0),
     w_chat = (\<lambda>_ _. Inl OtherExc), w_stream = (\<lambda>_ _. [(1, EvChunk (sample_chunk ''ab'')), (2, EvChunk (sample_chunk ''c'')), (1, EvStop)]),
     w_created = 0, w_fallback_id = ''id''\<rparr>"

definition sample_chat :: chat_request where
  "sample_chat = \<lparr>cr_model = ''gpt-4o'', cr_messages = [\<lparr>cm_role = ''user'', cm_content = ''mail a@b.co''\<rparr>], cr_stream = True,
     cr_temperature = None, cr_max_tokens = None\<rparr>"

definition sample_user :: api_key_principal where
  "sample_user = \<lparr>p_hash = ''u'', p_key_id = None, p_org_id = None, p_scopes = {''chat''}\<rparr>"

theorem policy_decides_witness:
  "\<exists>q'. create_chat_completion sample_world (default_settings\<lparr>policy_mode := ''block'', forbidden_patterns := [''m=mail'']\<rparr>) sample_user sample_chat
     0 [] False new_request_state (new_limiter 4) = ((ChatRaised (ApiExc policy_violation_error), q', new_limiter 4), None)"
proof -
  let ?st = "default_settings\<lparr>policy_mode := ''block'', forbidden_patterns := [''m=mail'']\<rparr>"
  have "list_ex (\<lambda>r. list_ex (\<lambda>m. w_matches sample_world (pattern r) (cm_content m) > 0) (cr_messages sample_chat))
      (compile_rules (w_compile sample_world) (forbidden_patterns ?st))" by code_simp
  then have "\<exists>r \<in> set (compile_rules (w_compile sample_world) (forbidden_patterns ?st)). \<exists>m \<in> set (cr_messages sample_chat).
      w_matches sample_world (pattern r) (cm_content m) > 0" by (simp add: list_ex_iff)
  then show ?thesis using policy_decides [of ?st sample_world sample_chat sample_user 0 "[]" False new_request_state "new_limiter 4"] by simp
qed



theorem stream_protocol_witness:
  "\<exists>frames kind q' sl'. chat_stream_response sample_world default_settings ''u'' ''openai'' (to_normalized sample_chat) 0 [1, 1] False new_request_state (new_limiter 4) =
     (ChatStream 200 frames kind, q', sl') \<and> last frames = SseDone \<and> map_option total_tokens (q_token_usage q') = Some 2"
proof -
  let ?r = "chat_stream_response sample_world default_settings ''u'' ''openai'' (to_normalized sample_chat) 0 [1, 1] False new_request_state (new_limiter 4)"
  let ?out = "case fst ?r of ChatStream s fr k \<Rightarrow> (fr, k)" let ?u = "Some \<lparr>prompt_tokens = 1, completion_tokens = 1, total_tokens = 2\<rparr>"
  have k: "fst ?r = ChatStream 200 (fst ?out) (Completed ?u)" by code_simp
  then have r: "?r = (ChatStream 200 (fst ?out) (Completed ?u), fst (snd ?r), snd (snd ?r))" by (metis prod.collapse)
  have "fold merge_usage (upstream_chunks (w_stream sample_world ''openai'' (to_normalized sample_chat))) None = ?u" by code_simp
  with stream_protocol [OF r] have "last (fst ?out) = SseDone" "q_token_usage (fst (snd ?r)) = ?u" by auto
  then show ?thesis using r by (metis option.simps(9) normalized_usage.select_convs(3))
qed

theorem stream_ends_by_deadline_witness:
  "\<exists>frames kind q' sl'. chat_stream_response sample_world default_settings ''u'' ''openai'' (to_normalized sample_chat) 0 [1, 1] False new_request_state (new_limiter 4) =
     (ChatStream 200 frames kind, q', sl') \<and> of_nat (length frames) \<le> (301 :: rat)"
proof -
  let ?r = "chat_stream_response sample_world default_settings ''u'' ''openai'' (to_normalized sample_chat) 0 [1, 1] False new_request_state (new_limiter 4)"
  let ?out = "case fst ?r of ChatStream s fr k \<Rightarrow> (fr, k)"
  have "fst ?r = ChatStream 200 (fst ?out) (snd ?out)" by code_simp
  then have r: "?r = (ChatStream 200 (fst ?out) (snd ?out), fst (snd ?r), snd (snd ?r))" by (metis prod.collapse)
  have "of_nat (length (fst ?out)) \<le> of_int (stream_max_duration_seconds default_settings) / (1 :: rat) + 1"
    by (rule stream_ends_by_deadline [OF r]) (auto simp: sample_world_def default_settings_def)
  moreover have "stream_max_duration_seconds default_settings = 300" by (simp add: default_settings_def)
  ultimately have "of_nat (length (fst ?out)) \<le> (301 :: rat)" by simp
  with r show ?thesis by blast
qed

end
