(* ===== verification/Json.thy ===== *)
theory Json
  imports Pricing
begin

text \<open>
  Python values as the logging and audit code passes them around, and the text forms it uses: \<open>json.dumps\<close> with
  \<open>ensure_ascii=False\<close> and \<open>default=str\<close>, \<open>json.loads\<close>, \<open>int(str)\<close> and \<open>str.splitlines\<close>. A \<open>float\<close> is the rational it
  denotes, so its printed form is a parameter of \<open>json_dumps\<close>; an object other than the built-in ones is its
  attributes and its \<open>str\<close>. Texts are over U+0000 to U+00FF: an escape that denotes a code point beyond is outside
  the model and read as an error, as are the literals \<open>NaN\<close> and \<open>Infinity\<close>.
\<close>

datatype pyval =
    PyNone
  | PyBool bool
  | PyInt int
  | PyFloat rat
  | PyDec decimal
  | PyStr string
  | PyList "pyval list"
  | PyTuple "pyval list"
  | PyDict "(string \<times> pyval) list"
  | PyObj string "(string \<times> pyval) list"

subsection \<open>Truth and \<open>int\<close>\<close>

fun py_truthy :: "pyval \<Rightarrow> bool" where
  "py_truthy PyNone = False"
| "py_truthy (PyBool b) = b"
| "py_truthy (PyInt n) = (n \<noteq> 0)"
| "py_truthy (PyFloat r) = (r \<noteq> 0)"
| "py_truthy (PyDec d) = (dec_val d \<noteq> 0)"
| "py_truthy (PyStr s) = (s \<noteq> [])"
| "py_truthy (PyList xs) = (xs \<noteq> [])"
| "py_truthy (PyTuple xs) = (xs \<noteq> [])"
| "py_truthy (PyDict d) = (d \<noteq> [])"
| "py_truthy (PyObj s a) = True"

text \<open>\<open>int(s)\<close>: blanks around, a sign, digits with single underscores between them, at most 4300 of them.\<close>

fun underscores_ok :: "bool \<Rightarrow> string \<Rightarrow> bool" where
  "underscores_ok after_digit [] = after_digit"
| "underscores_ok after_digit (c # cs) =
     (if py_isdecimal c then underscores_ok True cs
      else c = CHR ''_'' \<and> after_digit \<and> underscores_ok False cs)"

definition py_int_str :: "string \<Rightarrow> int option" where
  "py_int_str s =
     (let (neg, body) = split_sign (py_strip s); ds = filter py_isdecimal body in
      if underscores_ok False body \<and> int (length ds) \<le> 4300
      then Some (if neg then - int (digits_val ds) else int (digits_val ds)) else None)"

definition py_trunc :: "rat \<Rightarrow> int" where
  "py_trunc r = (if 0 \<le> r then \<lfloor>r\<rfloor> else \<lceil>r\<rceil>)"

fun py_int_of :: "pyval \<Rightarrow> py_error + int" where
  "py_int_of (PyBool b) = Inr (if b then 1 else 0)"
| "py_int_of (PyInt n) = Inr n"
| "py_int_of (PyFloat r) = Inr (py_trunc r)"
| "py_int_of (PyDec d) = Inr (py_trunc (dec_val d))"
| "py_int_of (PyStr s) = (case py_int_str s of Some n \<Rightarrow> Inr n | None \<Rightarrow> Inl ValueError)"
| "py_int_of _ = Inl TypeError"

subsection \<open>Printing\<close>

definition hex_digit :: "nat \<Rightarrow> char" where
  "hex_digit n = (if n < 10 then digit_char n else char_of (87 + n))"

definition json_escape :: "char \<Rightarrow> string" where
  "json_escape c =
     (if c = CHR 0x22 then [CHR 0x5C, CHR 0x22]
      else if c = CHR 0x5C then [CHR 0x5C, CHR 0x5C]
      else if code c = 10 then [CHR 0x5C, CHR ''n'']
      else if code c = 13 then [CHR 0x5C, CHR ''r'']
      else if code c = 9 then [CHR 0x5C, CHR ''t'']
      else if code c = 8 then [CHR 0x5C, CHR ''b'']
      else if code c = 12 then [CHR 0x5C, CHR ''f'']
      else if code c < 32 then [CHR 0x5C, CHR ''u'', CHR ''0'', CHR ''0'', hex_digit (code c div 16), hex_digit (code c mod 16)]
      else [c])"

definition json_str :: "string \<Rightarrow> string" where
  "json_str s = [CHR 0x22] @ concat (map json_escape s) @ [CHR 0x22]"

definition int_str :: "int \<Rightarrow> string" where
  "int_str n = (if n < 0 then ''-'' else []) @ dec_str \<bar>n\<bar>"

fun json_dumps :: "(rat \<Rightarrow> string) \<Rightarrow> pyval \<Rightarrow> string" where
  "json_dumps fr PyNone = ''null''"
| "json_dumps fr (PyBool b) = (if b then ''true'' else ''false'')"
| "json_dumps fr (PyInt n) = int_str n"
| "json_dumps fr (PyFloat r) = fr r"
| "json_dumps fr (PyDec d) = json_str (dec_to_str d)"
| "json_dumps fr (PyStr s) = json_str s"
| "json_dumps fr (PyList xs) = ''['' @ py_join '', '' (map (json_dumps fr) xs) @ '']''"
| "json_dumps fr (PyTuple xs) = ''['' @ py_join '', '' (map (json_dumps fr) xs) @ '']''"
| "json_dumps fr (PyDict d) = ''{'' @ py_join '', '' (map (\<lambda>(k, v). json_str k @ '': '' @ json_dumps fr v) d) @ ''}''"
| "json_dumps fr (PyObj s a) = json_str s"

subsection \<open>Reading\<close>

definition json_space :: "char \<Rightarrow> bool" where
  "json_space c \<longleftrightarrow> code c \<in> {9, 10, 13, 32}"

definition json_ws :: "string \<Rightarrow> string" where
  "json_ws s = dropWhile json_space s"

definition hex_value :: "char \<Rightarrow> nat option" where
  "hex_value c = (if py_isdecimal c then Some (digit_val c)
     else if 97 \<le> code c \<and> code c \<le> 102 then Some (code c - 87)
     else if 65 \<le> code c \<and> code c \<le> 70 then Some (code c - 55) else None)"

text \<open>The code point of four hexadecimal digits, when it is below 256.\<close>

definition hex4 :: "char \<Rightarrow> char \<Rightarrow> char \<Rightarrow> char \<Rightarrow> char option" where
  "hex4 a b c d =
     (case (hex_value a, hex_value b, hex_value c, hex_value d) of
        (Some 0, Some 0, Some h, Some l) \<Rightarrow> Some (char_of (16 * h + l))
      | _ \<Rightarrow> None)"

definition json_unescape :: "char \<Rightarrow> char option" where
  "json_unescape c =
     (if c = CHR 0x22 \<or> c = CHR 0x5C \<or> c = CHR ''/'' then Some c
      else if c = CHR ''n'' then Some (char_of (10::nat))
      else if c = CHR ''r'' then Some (char_of (13::nat))
      else if c = CHR ''t'' then Some (char_of (9::nat))
      else if c = CHR ''b'' then Some (char_of (8::nat))
      else if c = CHR ''f'' then Some (char_of (12::nat)) else None)"

abbreviation cons_fst :: "'a \<Rightarrow> ('a list \<times> 'b) option \<Rightarrow> ('a list \<times> 'b) option" where
  "cons_fst c r \<equiv> map_option (\<lambda>(t, rest). (c # t, rest)) r"

text \<open>The rest of a string literal after its opening quote: its value and what follows the closing quote.\<close>

fun json_string :: "string \<Rightarrow> (string \<times> string) option" where
  "json_string [] = None"
| "json_string (x # xs) =
     (if x = CHR 0x22 then Some ([], xs)
      else if x = CHR 0x5C then
        (case xs of
           [] \<Rightarrow> None
         | e # es \<Rightarrow>
             if e = CHR ''u'' then
               (case es of
                  a # b # c # d # rest \<Rightarrow>
                    (case hex4 a b c d of None \<Rightarrow> None | Some ch \<Rightarrow> cons_fst ch (json_string rest))
                | _ \<Rightarrow> None)
             else (case json_unescape e of None \<Rightarrow> None | Some ch \<Rightarrow> cons_fst ch (json_string es)))
      else if code x < 32 then None
      else cons_fst x (json_string xs))"

text \<open>A number literal, \<open>-?(0|[1-9][0-9]*)(\.[0-9]+)?([eE][-+]?[0-9]+)?\<close>, scanned greedily.\<close>

definition scan_fraction :: "string \<Rightarrow> string option \<times> string" where
  "scan_fraction s =
     (case s of
        c # d # cs \<Rightarrow> if c = CHR ''.'' \<and> py_isdecimal d then (Some (takeWhile py_isdecimal (d # cs)), dropWhile py_isdecimal (d # cs)) else (None, s)
      | _ \<Rightarrow> (None, s))"

definition scan_exponent :: "string \<Rightarrow> int option \<times> string" where
  "scan_exponent s =
     (case s of
        c # cs \<Rightarrow>
          let (neg, ds) = split_sign cs; e = takeWhile py_isdecimal ds in
          if (c = CHR ''e'' \<or> c = CHR ''E'') \<and> e \<noteq> []
          then (Some (if neg then - int (digits_val e) else int (digits_val e)), dropWhile py_isdecimal ds)
          else (None, s)
      | [] \<Rightarrow> (None, s))"

definition json_number :: "string \<Rightarrow> (pyval \<times> string) option" where
  "json_number s =
     (let (neg, body) = (case s of c # cs \<Rightarrow> if c = CHR ''-'' then (True, cs) else (False, s) | [] \<Rightarrow> (False, []));
          ip = (case body of c # cs \<Rightarrow> if c = CHR ''0'' then [c] else takeWhile py_isdecimal body | [] \<Rightarrow> []);
          (fp, r1) = scan_fraction (drop (length ip) body);
          (ex, r2) = scan_exponent r1
      in if ip = [] then None
         else case (fp, ex) of
           (None, None) \<Rightarrow> if int (length ip) \<le> 4300 then Some (PyInt (if neg then - int (digits_val ip) else int (digits_val ip)), r2) else None
         | _ \<Rightarrow> let fs = (case fp of Some f \<Rightarrow> f | None \<Rightarrow> []);
                    m = int (digits_val (ip @ fs)); e = (case ex of Some x \<Rightarrow> x | None \<Rightarrow> 0)
                in Some (PyFloat (dec_val (Dec (if neg then - m else m) (e - int (length fs)))), r2))"

definition json_literal :: "string \<Rightarrow> (pyval \<times> string) option" where
  "json_literal s =
     (if take 4 s = ''null'' then Some (PyNone, drop 4 s)
      else if take 4 s = ''true'' then Some (PyBool True, drop 4 s)
      else if take 5 s = ''false'' then Some (PyBool False, drop 5 s)
      else json_number s)"

text \<open>Duplicate keys: the last value at the place of the first.\<close>

definition dict_of :: "(string \<times> pyval) list \<Rightarrow> (string \<times> pyval) list" where
  "dict_of ms = fold (\<lambda>(k, v) d. AList.update k v d) ms []"

function json_value :: "string \<Rightarrow> (pyval \<times> string) option"
  and json_elems :: "string \<Rightarrow> (pyval list \<times> string) option"
  and json_members :: "string \<Rightarrow> ((string \<times> pyval) list \<times> string) option" where
  "json_value s =
     (case s of
        [] \<Rightarrow> None
      | c # cs \<Rightarrow>
          if c = CHR 0x22 then map_option (\<lambda>(t, r). (PyStr t, r)) (json_string cs)
          else if c = CHR ''['' then
            (if take 1 (json_ws cs) = '']'' then Some (PyList [], drop 1 (json_ws cs))
             else map_option (\<lambda>(vs, r). (PyList vs, r)) (json_elems (json_ws cs)))
          else if c = CHR ''{'' then
            (if take 1 (json_ws cs) = ''}'' then Some (PyDict [], drop 1 (json_ws cs))
             else map_option (\<lambda>(ms, r). (PyDict (dict_of ms), r)) (json_members (json_ws cs)))
          else json_literal s)"
| "json_elems s =
     (case json_value s of
        None \<Rightarrow> None
      | Some (v, r) \<Rightarrow>
          if take 1 (json_ws r) = '']'' then Some ([v], drop 1 (json_ws r))
          else if take 1 (json_ws r) = '','' then cons_fst v (json_elems (json_ws (drop 1 (json_ws r))))
          else None)"
| "json_members s =
     (case s of
        [] \<Rightarrow> None
      | q # cs \<Rightarrow>
          if q \<noteq> CHR 0x22 then None
          else case json_string cs of
            None \<Rightarrow> None
          | Some (k, r) \<Rightarrow>
              if take 1 (json_ws r) \<noteq> '':'' then None
              else case json_value (json_ws (drop 1 (json_ws r))) of
                None \<Rightarrow> None
              | Some (v, r2) \<Rightarrow>
                  if take 1 (json_ws r2) = ''}'' then Some ([(k, v)], drop 1 (json_ws r2))
                  else if take 1 (json_ws r2) = '','' then cons_fst (k, v) (json_members (json_ws (drop 1 (json_ws r2))))
                  else None)"
  by pat_completeness auto

text \<open>Every reader takes something off its input, which is why reading ends.\<close>

lemma json_ws_le: "length (json_ws s) \<le> length s"
  by (simp add: json_ws_def length_dropWhile_le)

lemma json_string_shrinks: "json_string s = Some (t, r) \<Longrightarrow> length r < length s"
proof (induction s arbitrary: t r rule: json_string.induct)
  case (2 x xs)
  then show ?case by (fastforce split: if_splits list.splits option.splits)
qed simp

lemma scan_fraction_le: "length (snd (scan_fraction s)) \<le> length s"
  using length_dropWhile_le [of py_isdecimal "tl s"] by (auto simp: scan_fraction_def split: list.splits)

lemma split_sign_le: "length (snd (split_sign s)) \<le> length s"
  by (auto simp: split_sign_def split: list.splits)

lemma scan_exponent_le: "length (snd (scan_exponent s)) \<le> length s"
proof (cases s)
  case (Cons c cs)
  then show ?thesis using split_sign_le [of cs] length_dropWhile_le [of py_isdecimal "snd (split_sign cs)"]
    by (auto simp: scan_exponent_def Let_def split: prod.splits)
qed (simp add: scan_exponent_def)

lemma json_number_shrinks: "json_number s = Some (v, r) \<Longrightarrow> length r < length s"
proof -
  assume a: "json_number s = Some (v, r)"
  obtain neg body where b: "(case s of c # cs \<Rightarrow> if c = CHR ''-'' then (True, cs) else (False, s) | [] \<Rightarrow> (False, [])) = (neg, body)" by fastforce
  then have "length body \<le> length s" by (auto split: list.splits if_splits)
  define ip where "ip = (case body of c # cs \<Rightarrow> if c = CHR ''0'' then [c] else takeWhile py_isdecimal body | [] \<Rightarrow> [])"
  obtain fp r1 where f: "scan_fraction (drop (length ip) body) = (fp, r1)" by fastforce
  obtain ex r2 where x: "scan_exponent r1 = (ex, r2)" by fastforce
  have "ip \<noteq> []" "r = r2" using a unfolding json_number_def b prod.case Let_def ip_def [symmetric] f x
    by (auto split: if_splits option.splits)
  moreover have "length r1 \<le> length (drop (length ip) body)" using scan_fraction_le [of "drop (length ip) body"] f by simp
  moreover have "length r2 \<le> length r1" using scan_exponent_le [of r1] x by simp
  moreover have "length ip \<le> length body" by (auto simp: ip_def length_takeWhile_le split: list.splits)
  ultimately show ?thesis using \<open>length body \<le> length s\<close> by (cases ip) auto
qed

lemma json_literal_shrinks: "json_literal s = Some (v, r) \<Longrightarrow> length r < length s"
  by (auto simp: json_literal_def json_number_shrinks split: if_splits) (cases s; simp)+

lemma take_one_shrinks: "take 1 s = [c] \<Longrightarrow> length (drop 1 s) < length s"
  by (cases s) auto

abbreviation json_dom :: "string + string + string \<Rightarrow> bool" where
  "json_dom \<equiv> json_value_json_elems_json_members_dom"

lemma json_elems_shrinks_step:
  assumes e: "json_dom (Inr (Inl s))" "json_elems s = Some (vs, r)"
    and i: "\<And>v r. json_value s = Some (v, r) \<Longrightarrow> length r < length s"
    and j: "\<And>v r1 vs r. json_value s = Some (v, r1) \<Longrightarrow> take 1 (json_ws r1) = '','' \<Longrightarrow>
      json_elems (json_ws (drop 1 (json_ws r1))) = Some (vs, r) \<Longrightarrow> length r < length (json_ws (drop 1 (json_ws r1)))"
  shows "length r < length s"
proof -
  obtain v r1 where v: "json_value s = Some (v, r1)" using e by (auto simp: json_elems.psimps split: option.splits)
  have l: "length r1 < length s" using i v by blast
  show ?thesis
  proof (cases "take 1 (json_ws r1) = '']''")
    case True
    then show ?thesis using e v l json_ws_le [of r1] by (auto simp: json_elems.psimps)
  next
    case False
    then have c: "take 1 (json_ws r1) = '',''" using e v by (auto simp: json_elems.psimps split: if_splits)
    then obtain vs' where "json_elems (json_ws (drop 1 (json_ws r1))) = Some (vs', r)"
      using e v False by (auto simp: json_elems.psimps)
    then show ?thesis using j [OF v c] l json_ws_le [of r1] json_ws_le [of "drop 1 (json_ws r1)"] by force
  qed
qed

lemma json_members_shrinks_step:
  assumes e: "json_dom (Inr (Inr s))" "json_members s = Some (ms, r)"
    and i: "\<And>cs k r1 v r2. s = CHR 0x22 # cs \<Longrightarrow> json_string cs = Some (k, r1) \<Longrightarrow> take 1 (json_ws r1) = '':'' \<Longrightarrow>
      json_value (json_ws (drop 1 (json_ws r1))) = Some (v, r2) \<Longrightarrow> length r2 < length (json_ws (drop 1 (json_ws r1)))"
    and j: "\<And>cs k r1 v r2 ms r. s = CHR 0x22 # cs \<Longrightarrow> json_string cs = Some (k, r1) \<Longrightarrow> take 1 (json_ws r1) = '':'' \<Longrightarrow>
      json_value (json_ws (drop 1 (json_ws r1))) = Some (v, r2) \<Longrightarrow> take 1 (json_ws r2) = '','' \<Longrightarrow>
      json_members (json_ws (drop 1 (json_ws r2))) = Some (ms, r) \<Longrightarrow> length r < length (json_ws (drop 1 (json_ws r2)))"
  shows "length r < length s"
proof -
  obtain cs k r1 where k: "s = CHR 0x22 # cs" "json_string cs = Some (k, r1)" "take 1 (json_ws r1) = '':''"
    using e by (auto simp: json_members.psimps split: list.splits if_splits option.splits)
  let ?t = "json_ws (drop 1 (json_ws r1))"
  obtain v r2 where v: "json_value ?t = Some (v, r2)"
    using e k by (auto simp: json_members.psimps split: option.splits)
  have l: "length r2 < length s"
    using i [OF k v] json_string_shrinks [OF k(2)] json_ws_le [of r1] json_ws_le [of "drop 1 (json_ws r1)"] k(1) by simp
  show ?thesis
  proof (cases "take 1 (json_ws r2) = ''}''")
    case True
    then show ?thesis using e k v l json_ws_le [of r2] by (auto simp: json_members.psimps)
  next
    case False
    then have c: "take 1 (json_ws r2) = '',''" using e k v by (auto simp: json_members.psimps split: if_splits)
    then obtain ms' where "json_members (json_ws (drop 1 (json_ws r2))) = Some (ms', r)"
      using e k v False by (auto simp: json_members.psimps)
    then show ?thesis using j [OF k v c] l json_ws_le [of r2] json_ws_le [of "drop 1 (json_ws r2)"] by force
  qed
qed

lemma json_value_shrinks_step:
  assumes e: "json_dom (Inl s)" "json_value s = Some (v, r)"
    and i: "\<And>cs vs r. s = CHR ''['' # cs \<Longrightarrow> take 1 (json_ws cs) \<noteq> '']'' \<Longrightarrow> json_elems (json_ws cs) = Some (vs, r) \<Longrightarrow> length r < length (json_ws cs)"
    and j: "\<And>cs ms r. s = CHR ''{'' # cs \<Longrightarrow> take 1 (json_ws cs) \<noteq> ''}'' \<Longrightarrow> json_members (json_ws cs) = Some (ms, r) \<Longrightarrow> length r < length (json_ws cs)"
  shows "length r < length s"
proof (cases s)
  case Nil then show ?thesis using e by (simp add: json_value.psimps)
next
  case (Cons c cs)
  have ws: "length (json_ws cs) < length s" using json_ws_le [of cs] Cons by simp
  consider "c = CHR 0x22" | "c = CHR ''[''" | "c = CHR ''{''" | "c \<noteq> CHR 0x22" "c \<noteq> CHR ''[''" "c \<noteq> CHR ''{''" by blast
  then show ?thesis
  proof cases
    case 1
    then show ?thesis using e Cons json_string_shrinks by (fastforce simp: json_value.psimps)
  next
    case 2
    then show ?thesis using e Cons ws i [of cs] by (force simp: json_value.psimps split: if_splits dest!: take_one_shrinks)
  next
    case 3
    then show ?thesis using e Cons ws j [of cs] by (force simp: json_value.psimps split: if_splits dest!: take_one_shrinks)
  next
    case 4
    then show ?thesis using e Cons json_literal_shrinks [of s v r] by (simp add: json_value.psimps)
  qed
qed

lemma json_dom_shrinks:
  "json_dom (Inl s) \<Longrightarrow> json_value s = Some (v, r) \<Longrightarrow> length r < length s"
  "json_dom (Inr (Inl s)) \<Longrightarrow> json_elems s = Some (vs, r) \<Longrightarrow> length r < length s"
  "json_dom (Inr (Inr s)) \<Longrightarrow> json_members s = Some (ms, r) \<Longrightarrow> length r < length s"
proof (induction s and s and s arbitrary: v r and vs r and ms r rule: json_value_json_elems_json_members.pinduct)
  case (1 s)
  show ?case by (rule json_value_shrinks_step [OF 1(1,4)]) (use 1(2,3) in simp_all)
next
  case (2 s)
  show ?case by (rule json_elems_shrinks_step [OF 2(1,4)]) (use 2(2,3) in simp_all)
next
  case (3 s)
  show ?case by (rule json_members_shrinks_step [OF 3(1,4)]) (use 3(2,3) in simp_all)
qed

termination json_value
proof (relation "measure (\<lambda>x. case x of Inl s \<Rightarrow> 2 * length s | Inr (Inl s) \<Rightarrow> 2 * length s + 1 | Inr (Inr s) \<Rightarrow> 2 * length s + 1)",
    goal_cases)
  case (2 s c cs)
  then show ?case using json_ws_le [of cs] by simp
next
  case (3 s c cs)
  then show ?case using json_ws_le [of cs] by simp
next
  case (5 s a v r)
  then have "length r < length s" using json_dom_shrinks(1) by blast
  then show ?case using json_ws_le [of r] json_ws_le [of "drop 1 (json_ws r)"] by simp
next
  case (6 s q cs a k r)
  then show ?case using json_string_shrinks [of cs k r] json_ws_le [of r] json_ws_le [of "drop 1 (json_ws r)"] by simp
next
  case (7 s q cs a k r a2 v r2)
  then have "length r2 < length (json_ws (drop 1 (json_ws r)))" using json_dom_shrinks(1) by blast
  then show ?case
    using 7 json_string_shrinks [of cs k r] json_ws_le [of r] json_ws_le [of "drop 1 (json_ws r)"]
      json_ws_le [of r2] json_ws_le [of "drop 1 (json_ws r2)"] by simp
qed simp_all

declare json_value.simps [simp del] json_elems.simps [simp del] json_members.simps [simp del]

text \<open>\<open>json.loads\<close>.\<close>

definition json_loads :: "string \<Rightarrow> pyval option" where
  "json_loads s =
     (case json_value (json_ws s) of
        Some (v, r) \<Rightarrow> if json_ws r = [] then Some v else None
      | None \<Rightarrow> None)"

text \<open>\<open>str.splitlines()\<close>: \<open>\r\n\<close> is one line end; besides it the line ends are U+000A to U+000D, U+001C to U+001E and U+0085.\<close>

definition line_end :: "char \<Rightarrow> bool" where
  "line_end c \<longleftrightarrow> (10 \<le> code c \<and> code c \<le> 13) \<or> (28 \<le> code c \<and> code c \<le> 30) \<or> code c = 133"

fun splitlines_from :: "string \<Rightarrow> string \<Rightarrow> string list" where
  "splitlines_from cur [] = (if cur = [] then [] else [rev cur])"
| "splitlines_from cur (c # cs) =
     (if line_end c then
        (case cs of
           d # ds \<Rightarrow> if code c = 13 \<and> code d = 10 then rev cur # splitlines_from [] ds else rev cur # splitlines_from [] cs
         | [] \<Rightarrow> [rev cur])
      else splitlines_from (c # cur) cs)"

definition splitlines :: "string \<Rightarrow> string list" where
  "splitlines s = splitlines_from [] s"

subsection \<open>Reading undoes printing\<close>

lemma hex_value_digit: "n < 16 \<Longrightarrow> hex_value (hex_digit n) = Some n"
  by (cases "n < 10") (auto simp: hex_value_def hex_digit_def code_digit_char digit_val_def py_isdecimal_def)

lemma hex4_control: "code c < 32 \<Longrightarrow> hex4 (CHR ''0'') (CHR ''0'') (hex_digit (code c div 16)) (hex_digit (code c mod 16)) = Some c"
proof -
  assume c: "code c < 32"
  have z: "hex_value (CHR ''0'') = Some 0" by (simp add: hex_value_def py_isdecimal_def digit_val_def)
  have "hex_value (hex_digit (code c div 16)) = Some (code c div 16)" "hex_value (hex_digit (code c mod 16)) = Some (code c mod 16)"
    using c by (auto intro!: hex_value_digit)
  with z show ?thesis by (simp add: hex4_def)
qed

lemma char_of_code: "code c = n \<Longrightarrow> char_of n = c"
  by (metis char_of_char)

lemma json_string_escape: "json_string (json_escape c @ t) = cons_fst c (json_string t)"
proof -
  consider "c = CHR 0x22" | "c = CHR 0x5C" | "code c \<in> {8, 9, 10, 12, 13}" |
    "code c < 32" "code c \<notin> {8, 9, 10, 12, 13}" "c \<noteq> CHR 0x22" "c \<noteq> CHR 0x5C" |
    "32 \<le> code c" "c \<noteq> CHR 0x22" "c \<noteq> CHR 0x5C" by linarith
  then show ?thesis
  proof cases
    case 3
    then show ?thesis by (auto simp: json_escape_def json_unescape_def dest: char_of_code)
  next
    case 4
    then show ?thesis using hex4_control [of c] by (auto simp: json_escape_def)
  next
    case 5
    then show ?thesis by (auto simp: json_escape_def)
  qed (auto simp: json_escape_def json_unescape_def)
qed

lemma json_string_str: "json_string (concat (map json_escape s) @ CHR 0x22 # r) = Some (s, r)"
proof (induction s)
  case (Cons c s)
  have "json_string (concat (map json_escape (c # s)) @ CHR 0x22 # r) = cons_fst c (json_string (concat (map json_escape s) @ CHR 0x22 # r))"
    using json_string_escape [of c "concat (map json_escape s) @ CHR 0x22 # r"] by simp
  with Cons show ?case by simp
qed simp

text \<open>What may follow a value.\<close>

definition json_stop :: "string \<Rightarrow> bool" where
  "json_stop r \<longleftrightarrow> r = [] \<or> hd r \<in> {CHR '','', CHR '']'', CHR ''}''}"

lemma nat_str_hd_zero: "0 < n \<Longrightarrow> hd (nat_str n) \<noteq> CHR ''0''"
proof (induction n rule: nat_str.induct)
  case (1 n)
  then show ?case by (cases "n < 10") (auto simp: nat_str.simps [of n] digit_char_zero)
qed

lemma scan_none: "json_stop r \<Longrightarrow> scan_fraction r = (None, r) \<and> scan_exponent r = (None, r)"
  by (auto simp: json_stop_def scan_fraction_def scan_exponent_def Let_def split: list.splits prod.splits)

lemma json_number_nat:
  assumes "json_stop r" and "int (length (nat_str n)) \<le> 4300"
  shows "json_number ((if neg then ''-'' else []) @ nat_str n @ r) = Some (PyInt (if neg then - int n else int n), r)"
proof -
  obtain d ds where d: "nat_str n = d # ds" by (cases "nat_str n") auto
  have dd: "list_all py_isdecimal (nat_str n)" by (auto simp: list_all_iff intro: nat_str_decimal)
  have "d \<noteq> CHR ''-''" using dd d by (auto simp: py_isdecimal_def)
  then have s: "(case (if neg then ''-'' else []) @ nat_str n @ r of c # cs \<Rightarrow> if c = CHR ''-'' then (True, cs)
       else (False, (if neg then ''-'' else []) @ nat_str n @ r) | [] \<Rightarrow> (False, [])) = (neg, nat_str n @ r)"
    using d by simp
  have "r = [] \<or> \<not> py_isdecimal (hd r)" using assms(1) by (auto simp: json_stop_def py_isdecimal_def)
  then have tw: "takeWhile py_isdecimal (nat_str n @ r) = nat_str n" using takeWhile_digits [OF dd] by blast
  have ip: "(case nat_str n @ r of c # cs \<Rightarrow> if c = CHR ''0'' then [c] else takeWhile py_isdecimal (nat_str n @ r) | [] \<Rightarrow> []) = nat_str n"
  proof (cases "n = 0")
    case True
    then show ?thesis by (simp add: nat_str_small digit_char_zero)
  next
    case False
    then show ?thesis using nat_str_hd_zero [of n] d tw by simp
  qed
  show ?thesis unfolding json_number_def s prod.case Let_def ip using scan_none [OF assms(1)] assms(2) by simp
qed

lemma json_literal_int:
  assumes "json_stop r" and "int (length (dec_str \<bar>n\<bar>)) \<le> 4300"
  shows "json_literal (int_str n @ r) = Some (PyInt n, r)"
proof -
  have "json_number (int_str n @ r) = Some (PyInt n, r)"
    using json_number_nat [OF assms(1), of "nat \<bar>n\<bar>" "n < 0"] assms(2) by (simp add: int_str_def dec_str_nonneg split: if_splits)
  moreover obtain d ds where "int_str n = d # ds" "py_isdecimal d \<or> d = CHR ''-''"
    by (cases "dec_str \<bar>n\<bar>"; cases "n < 0") (use dec_str_digits [of n] in \<open>auto simp: int_str_def dec_str_nonneg\<close>)
  ultimately show ?thesis by (auto simp: json_literal_def py_isdecimal_def)
qed


text \<open>What is read back: a decimal and an object come back as their text, a tuple as a list.\<close>

fun json_norm :: "pyval \<Rightarrow> pyval" where
  "json_norm (PyDec d) = PyStr (dec_to_str d)"
| "json_norm (PyObj s a) = PyStr s"
| "json_norm (PyList xs) = PyList (map json_norm xs)"
| "json_norm (PyTuple xs) = PyList (map json_norm xs)"
| "json_norm (PyDict d) = PyDict (map (\<lambda>(k, v). (k, json_norm v)) d)"
| "json_norm v = v"

text \<open>Values without floats, with dictionaries that have distinct keys, and no integer beyond the digit limit.\<close>

fun json_plain :: "pyval \<Rightarrow> bool" where
  "json_plain (PyFloat r) = False"
| "json_plain (PyInt n) = (int (length (dec_str \<bar>n\<bar>)) \<le> 4300)"
| "json_plain (PyList xs) = list_all json_plain xs"
| "json_plain (PyTuple xs) = list_all json_plain xs"
| "json_plain (PyDict d) = (distinct (map fst d) \<and> list_all (\<lambda>(k, v). json_plain v) d)"
| "json_plain v = True"

lemma dict_of_id: "distinct (map fst ms) \<Longrightarrow> dict_of ms = ms"
proof -
  have "distinct (map fst (d @ ms)) \<Longrightarrow> fold (\<lambda>(k, v) d. AList.update k v d) ms d = d @ ms" for d
  proof (induction ms arbitrary: d)
    case (Cons m ms)
    obtain k v where m: "m = (k, v)" by (cases m)
    have "k \<notin> fst ` set d" using Cons.prems m by auto
    then have "AList.update k v d = d @ [(k, v)]" by (induction d) auto
    with Cons.IH [of "d @ [m]"] Cons.prems m show ?case by simp
  qed simp
  from this [of "[]"] show "distinct (map fst ms) \<Longrightarrow> ?thesis" by (simp add: dict_of_def)
qed

lemma json_dumps_hd: "json_plain v \<Longrightarrow> json_dumps fr v \<noteq> [] \<and> \<not> json_space (hd (json_dumps fr v)) \<and> hd (json_dumps fr v) \<notin> {CHR '']'', CHR ''}''}"
proof (cases v)
  case (PyInt n)
  have "nat_str (nat \<bar>n\<bar>) \<noteq> []" by simp
  moreover have "py_isdecimal (hd (nat_str (nat \<bar>n\<bar>)))" using nat_str_decimal hd_in_set calculation by blast
  ultimately show ?thesis using PyInt by (auto simp: int_str_def dec_str_nonneg json_space_def py_isdecimal_def)
qed (auto simp: json_str_def json_space_def)

lemma json_ws_id: "s = [] \<or> \<not> json_space (hd s) \<Longrightarrow> json_ws s = s"
  by (cases s) (auto simp: json_ws_def)

lemma json_ws_dumps: "json_plain v \<Longrightarrow> json_ws (CHR '' '' # json_dumps fr v @ r) = json_dumps fr v @ r \<and> json_ws (json_dumps fr v @ r) = json_dumps fr v @ r"
proof -
  assume "json_plain v"
  then have "json_ws (json_dumps fr v @ r) = json_dumps fr v @ r" using json_dumps_hd [of v fr] by (intro json_ws_id) auto
  moreover have "json_ws (CHR '' '' # s) = json_ws s" for s by (simp add: json_ws_def json_space_def)
  ultimately show ?thesis by simp
qed

lemma json_elems_dumps:
  assumes "\<And>v r. v \<in> set vs \<Longrightarrow> json_stop r \<Longrightarrow> json_value (json_dumps fr v @ r) = Some (json_norm v, r)"
    and "list_all json_plain vs" and "vs \<noteq> []"
  shows "json_elems (py_join '', '' (map (json_dumps fr) vs) @ CHR '']'' # r) = Some (map json_norm vs, r)"
  using assms
proof (induction vs)
  case (Cons v vs)
  have ws: "json_ws (CHR '']'' # t) = CHR '']'' # t" "json_ws (CHR '','' # t) = CHR '','' # t" for t
    by (simp_all add: json_ws_def json_space_def)
  show ?case
  proof (cases vs)
    case Nil
    then show ?thesis using Cons.prems(1) [of v "CHR '']'' # r"] by (simp add: json_elems.simps json_stop_def ws)
  next
    case (Cons w ws')
    let ?t = "py_join '', '' (map (json_dumps fr) vs) @ CHR '']'' # r"
    have t: "json_ws (CHR '' '' # ?t) = ?t"
      using Cons Cons.prems(2) json_ws_dumps [of w fr] by (cases ws') auto
    have "json_elems ?t = Some (map json_norm vs, r)" using Cons.IH Cons.prems Cons by simp
    then show ?thesis using Cons Cons.prems(1) [of v "CHR '','' # CHR '' '' # ?t"] t
      by (simp add: json_elems.simps [of "json_dumps fr v @ _"] json_stop_def ws)
  qed
qed simp


abbreviation json_member :: "(rat \<Rightarrow> string) \<Rightarrow> string \<times> pyval \<Rightarrow> string" where
  "json_member fr m \<equiv> (case m of (k, v) \<Rightarrow> json_str k @ '': '' @ json_dumps fr v)"

lemma json_members_one:
  assumes "json_plain v" and "json_value (json_dumps fr v @ r) = Some (json_norm v, r)" and "json_ws r = r"
  shows "json_members (json_member fr (k, v) @ r) =
    (if take 1 r = ''}'' then Some ([(k, json_norm v)], drop 1 r)
     else if take 1 r = '','' then cons_fst (k, json_norm v) (json_members (json_ws (drop 1 r))) else None)"
proof -
  have "json_string (concat (map json_escape k) @ CHR 0x22 # CHR '':'' # CHR '' '' # json_dumps fr v @ r) = Some (k, CHR '':'' # CHR '' '' # json_dumps fr v @ r)"
    by (rule json_string_str)
  moreover have "json_ws (CHR '':'' # t) = CHR '':'' # t" for t by (simp add: json_ws_def json_space_def)
  ultimately show ?thesis using assms json_ws_dumps [OF assms(1), of fr r]
    by (subst json_members.simps) (simp add: json_str_def)
qed

lemma json_members_dumps:
  assumes "\<And>k v r. (k, v) \<in> set ms \<Longrightarrow> json_stop r \<Longrightarrow> json_value (json_dumps fr v @ r) = Some (json_norm v, r)"
    and "list_all (\<lambda>(k, v). json_plain v) ms" and "ms \<noteq> []"
  shows "json_members (py_join '', '' (map (json_member fr) ms) @ CHR ''}'' # r) = Some (map (\<lambda>(k, v). (k, json_norm v)) ms, r)"
  using assms
proof (induction ms)
  case (Cons m ms)
  obtain k v where m: "m = (k, v)" by (cases m)
  have ws: "json_ws (CHR ''}'' # t) = CHR ''}'' # t" "json_ws (CHR '','' # t) = CHR '','' # t" for t
    by (simp_all add: json_ws_def json_space_def)
  have pv: "json_plain v" using Cons.prems(2) m by simp
  show ?case
  proof (cases ms)
    case Nil
    then show ?thesis using json_members_one [OF pv Cons.prems(1) [of k] ws(1)] m by (simp add: json_stop_def)
  next
    case (Cons w ws')
    let ?t = "py_join '', '' (map (json_member fr) ms) @ CHR ''}'' # r"
    have t: "json_ws (CHR '' '' # ?t) = ?t"
      using Cons by (cases ws') (auto simp: json_str_def json_ws_def json_space_def split: prod.splits)
    have "json_members ?t = Some (map (\<lambda>(k, v). (k, json_norm v)) ms, r)"
      by (rule Cons.IH) (use Cons.prems Cons in auto)
    then show ?thesis
      using Cons json_members_one [where r = "CHR '','' # CHR '' '' # ?t" and k = k, OF pv Cons.prems(1) [of k] ws(2)] t m by (simp add: json_stop_def)
  qed
qed simp

lemma json_value_list:
  assumes "\<And>v r. v \<in> set xs \<Longrightarrow> json_stop r \<Longrightarrow> json_value (json_dumps fr v @ r) = Some (json_norm v, r)" and "list_all json_plain xs"
  shows "json_value (''['' @ py_join '', '' (map (json_dumps fr) xs) @ '']'' @ r) = Some (PyList (map json_norm xs), r)"
proof (cases xs)
  case Nil then show ?thesis by (subst json_value.simps) (simp add: json_ws_def json_space_def)
next
  case (Cons x xs')
  have "json_ws (py_join '', '' (map (json_dumps fr) xs) @ CHR '']'' # r) = py_join '', '' (map (json_dumps fr) xs) @ CHR '']'' # r"
    using Cons assms(2) json_ws_dumps [of x fr] by (cases xs') auto
  moreover have "take 1 (py_join '', '' (map (json_dumps fr) xs) @ CHR '']'' # r) \<noteq> '']''"
    using Cons assms(2) json_dumps_hd [of x fr] by (cases xs'; cases "json_dumps fr x") auto
  moreover have "json_elems (py_join '', '' (map (json_dumps fr) xs) @ CHR '']'' # r) = Some (map json_norm xs, r)"
    by (rule json_elems_dumps) (use assms Cons in \<open>auto simp: list_all_iff\<close>)
  ultimately show ?thesis by (subst json_value.simps) simp
qed

lemma json_value_dict:
  assumes "\<And>k v r. (k, v) \<in> set d \<Longrightarrow> json_stop r \<Longrightarrow> json_value (json_dumps fr v @ r) = Some (json_norm v, r)" and "json_plain (PyDict d)"
  shows "json_value (''{'' @ py_join '', '' (map (json_member fr) d) @ ''}'' @ r) = Some (PyDict (map (\<lambda>(k, v). (k, json_norm v)) d), r)"
proof (cases d)
  case Nil then show ?thesis by (subst json_value.simps) (simp add: json_ws_def json_space_def)
next
  case (Cons m d')
  have "json_ws (py_join '', '' (map (json_member fr) d) @ CHR ''}'' # r) = py_join '', '' (map (json_member fr) d) @ CHR ''}'' # r"
    using Cons by (cases d') (auto simp: json_str_def json_ws_def json_space_def split: prod.splits)
  moreover have "take 1 (py_join '', '' (map (json_member fr) d) @ CHR ''}'' # r) \<noteq> ''}''"
    using Cons by (cases d') (auto simp: json_str_def split: prod.splits)
  moreover have "json_members (py_join '', '' (map (json_member fr) d) @ CHR ''}'' # r) = Some (map (\<lambda>(k, v). (k, json_norm v)) d, r)"
    by (rule json_members_dumps) (use assms Cons in auto)
  moreover have "dict_of (map (\<lambda>(k, v). (k, json_norm v)) d) = map (\<lambda>(k, v). (k, json_norm v)) d"
    by (rule dict_of_id) (use assms(2) in \<open>simp add: comp_def case_prod_beta\<close>)
  ultimately show ?thesis by (subst json_value.simps) simp
qed

lemma json_value_dumps: "json_plain v \<Longrightarrow> json_stop r \<Longrightarrow> json_value (json_dumps fr v @ r) = Some (json_norm v, r)"
proof (induction v arbitrary: r)
  case (PyInt n)
  obtain d ds where "int_str n = d # ds" "py_isdecimal d \<or> d = CHR ''-''"
    by (cases "dec_str \<bar>n\<bar>"; cases "n < 0") (use dec_str_digits [of n] in \<open>auto simp: int_str_def dec_str_nonneg\<close>)
  then show ?case using json_literal_int [of r n] PyInt by (subst json_value.simps) (auto simp: py_isdecimal_def)
next
  case (PyList xs)
  then show ?case using json_value_list [of xs fr r] by (force simp: list_all_iff)
next
  case (PyTuple xs)
  then show ?case using json_value_list [of xs fr r] by (force simp: list_all_iff)
next
  case (PyDict d)
  have "json_value (''{'' @ py_join '', '' (map (json_member fr) d) @ ''}'' @ r) = Some (PyDict (map (\<lambda>(k, v). (k, json_norm v)) d), r)"
    by (rule json_value_dict) (use PyDict in \<open>fastforce simp: list_all_iff\<close>)+
  then show ?case by simp
qed (subst json_value.simps, simp add: json_str_def json_literal_def json_string_str split: if_splits)+

text \<open>Reading undoes printing.\<close>

lemma json_roundtrip: "json_plain v \<Longrightarrow> json_loads (json_dumps fr v) = Some (json_norm v)"
proof -
  assume v: "json_plain v"
  have "json_ws (json_dumps fr v) = json_dumps fr v" using json_ws_dumps [OF v, of fr "[]"] by simp
  then show ?thesis using json_value_dumps [OF v, of "[]" fr] by (simp add: json_loads_def json_stop_def json_ws_def)
qed

subsection \<open>Lines\<close>

lemma splitlines_line: "\<forall>c \<in> set x. \<not> line_end c \<Longrightarrow> splitlines_from cur (x @ CHR 0x0A # s) = (rev cur @ x) # splitlines_from [] s"
  by (induction x arbitrary: cur) (auto simp: line_end_def split: list.splits)

lemma splitlines_lines:
  "\<forall>x \<in> set xs. \<forall>c \<in> set x. \<not> line_end c \<Longrightarrow> splitlines (concat (map (\<lambda>x. x @ [CHR 0x0A]) xs) @ s) = xs @ splitlines s"
  by (induction xs) (simp_all add: splitlines_def splitlines_line)

text \<open>A printed value has no control characters; the one line end it may contain is U+0085.\<close>

fun no_nel :: "pyval \<Rightarrow> bool" where
  "no_nel (PyStr s) = (CHR 0x85 \<notin> set s)"
| "no_nel (PyObj s a) = (CHR 0x85 \<notin> set s)"
| "no_nel (PyList xs) = list_all no_nel xs"
| "no_nel (PyTuple xs) = list_all no_nel xs"
| "no_nel (PyDict d) = list_all (\<lambda>(k, v). CHR 0x85 \<notin> set k \<and> no_nel v) d"
| "no_nel v = True"

definition line_safe :: "string \<Rightarrow> bool" where
  "line_safe s \<longleftrightarrow> (\<forall>c \<in> set s. \<not> line_end c)"

lemma line_safe_simps [simp]: "line_safe (a @ b) \<longleftrightarrow> line_safe a \<and> line_safe b" "line_safe []"
  "line_safe (c # s) \<longleftrightarrow> \<not> line_end c \<and> line_safe s"
  by (auto simp: line_safe_def)

lemma digits_line_safe: "list_all py_isdecimal s \<Longrightarrow> line_safe s"
  by (auto simp: line_safe_def list_all_iff py_isdecimal_def line_end_def)

lemma json_str_line_safe: "CHR 0x85 \<notin> set s \<Longrightarrow> line_safe (json_str s)"
proof -
  have h: "n < 16 \<Longrightarrow> \<not> line_end (hex_digit n)" for n
    by (cases "n < 10") (auto simp: hex_digit_def line_end_def code_digit_char)
  have nel: "code c = 133 \<longleftrightarrow> c = CHR 0x85" for c
    by (subst of_char_eq_iff [symmetric, where ?'a = nat]) simp
  have e: "line_safe (json_escape c)" if "c \<noteq> CHR 0x85" for c
  proof (cases "code c < 32")
    case True
    then have "\<not> line_end (hex_digit (code c div 16))" "\<not> line_end (hex_digit (code c mod 16))" using h by simp_all
    then show ?thesis using True unfolding json_escape_def by (simp add: line_end_def)
  next
    case False
    then have "\<not> line_end c" using nel [of c] that by (simp add: line_end_def)
    then show ?thesis using False unfolding json_escape_def by (simp add: line_end_def)
  qed
  assume "CHR 0x85 \<notin> set s"
  then have "line_safe (json_escape c)" if "c \<in> set s" for c using e that by metis
  then have "\<forall>x \<in> set (map json_escape s). line_safe x" by simp
  then have "line_safe (concat (map json_escape s))" by (simp only: line_safe_def set_concat) blast
  then show ?thesis by (simp add: json_str_def line_end_def)
qed

lemma join_line_safe: "line_safe sep \<Longrightarrow> \<forall>x \<in> set xs. line_safe x \<Longrightarrow> line_safe (py_join sep xs)"
  by (induction sep xs rule: py_join.induct) auto

lemma dec_to_str_chars: "c \<in> set (dec_to_str d) \<Longrightarrow> py_isdecimal c \<or> c \<in> {CHR ''.'', CHR ''-'', CHR ''+'', CHR ''E''}"
proof (cases d)
  case (Dec a e)
  have *: "x \<in> set (dec_str n) \<Longrightarrow> py_isdecimal x" for x n
    by (cases "0 \<le> n") (simp add: dec_str_nonneg nat_str_decimal, simp add: dec_str.simps [of n] digit_char_decimal)
  have "py_isdecimal (CHR ''0'')" by (simp add: py_isdecimal_def)
  then show "c \<in> set (dec_to_str d) \<Longrightarrow> ?thesis"
    unfolding Dec dec_to_str.simps Let_def signed_str_def
    by (auto split: if_splits dest!: in_set_takeD in_set_dropD dest: * simp: set_replicate_conv_if)
qed

lemma json_line_safe: "json_plain v \<Longrightarrow> no_nel v \<Longrightarrow> line_safe (json_dumps fr v)"
proof (induction v)
  case (PyInt n)
  then show ?case using digits_line_safe [OF dec_str_digits [of n]] by (simp add: int_str_def line_end_def)
next
  case (PyDec d)
  then show ?case using json_str_line_safe [of "dec_to_str d"] dec_to_str_chars [of "CHR 0x85" d] by (auto simp: py_isdecimal_def)
next
  case (PyDict d)
  then show ?case by (fastforce simp: line_end_def list_all_iff intro!: join_line_safe json_str_line_safe)
qed (auto simp: line_end_def list_all_iff json_str_line_safe intro!: join_line_safe)

end
