(* ===== verification/Observability.thy ===== *)
theory Observability
  imports Chat Json
begin

text \<open>
  \<open>app/observability.py\<close> and \<open>app/audit_fallback.py\<close>: what a log entry may contain, the audit record of a chat request with its
  two places (the database, and the fallback file when the database refuses it), and the middleware that closes a request.
  Files are a map from paths to contents. Random identifiers (\<open>uid n\<close> is the n-th drawn for a record), the clock and
  whether the disk accepts a write are arguments.
\<close>

subsection \<open>Log entries\<close>

text \<open>A literal under \<open>re.IGNORECASE\<close>; the pattern is in lower case.\<close>

primrec LitI :: "string \<Rightarrow> rx" where
  "LitI [] = Eps"
| "LitI (c # cs) = Cat (Cls (\<lambda>x. py_lower_char x = c)) (LitI cs)"

definition SECRET_FIELD_RE :: rx where
  "SECRET_FIELD_RE =
     Alt (Cat (LitI ''api'') (Cat (Opt (Cls (\<lambda>c. c = CHR ''_'' \<or> c = CHR ''-''))) (LitI ''key'')))
    (Alt (LitI ''authorization'')
    (Alt (LitI ''token'')
    (Alt (LitI ''secret'')
         (Cat WordB (Cat (LitI ''key'') WordB)))))"

definition secret_field :: "string \<Rightarrow> bool" where
  "secret_field key = rx_search SECRET_FIELD_RE key"

fun sanitize_extra_value :: "pyval \<Rightarrow> pyval"
  and sanitize_extra_fields :: "(string \<times> pyval) list \<Rightarrow> (string \<times> pyval) list" where
  "sanitize_extra_value (PyDict d) = PyDict (sanitize_extra_fields d)"
| "sanitize_extra_value (PyList xs) = PyList (map sanitize_extra_value xs)"
| "sanitize_extra_value (PyTuple xs) = PyList (map sanitize_extra_value xs)"
| "sanitize_extra_value v = v"
| "sanitize_extra_fields [] = []"
| "sanitize_extra_fields ((key, v) # fds) =
     (if v = PyNone \<or> secret_field key then sanitize_extra_fields fds
      else (key, sanitize_extra_value v) # sanitize_extra_fields fds)"

record log_record =
  lr_level :: string
  lr_name :: string
  lr_message :: string
  lr_extra :: "pyval option"
  lr_exc :: "string option"

text \<open>\<open>JsonFormatter.format\<close>: the payload, and the line.\<close>

definition log_payload :: "string \<Rightarrow> log_record \<Rightarrow> (string, pyval) dict" where
  "log_payload timestamp r =
     (let payload = [(''timestamp'', PyStr timestamp), (''level'', PyStr (lr_level r)),
            (''logger'', PyStr (lr_name r)), (''message'', PyStr (lr_message r))];
          payload = (case lr_extra r of
             Some (PyDict d) \<Rightarrow> fold (\<lambda>(k, v) p. AList.update k v p) (sanitize_extra_fields d) payload
           | _ \<Rightarrow> payload)
      in case lr_exc r of None \<Rightarrow> payload | Some c \<Rightarrow> AList.update ''exception_class'' (PyStr c) payload)"

definition log_format :: "(rat \<Rightarrow> string) \<Rightarrow> string \<Rightarrow> log_record \<Rightarrow> string" where
  "log_format fr timestamp r = json_dumps fr (PyDict (log_payload timestamp r))"

definition log_event :: "string \<Rightarrow> string \<Rightarrow> (string \<times> pyval) list \<Rightarrow> log_record" where
  "log_event logger event fds = \<lparr>lr_level = ''INFO'', lr_name = logger, lr_message = event, lr_extra = Some (PyDict fds), lr_exc = None\<rparr>"

subsection \<open>Set-up of the logging module\<close>

text \<open>
  The process-wide state of the \<open>logging\<close> module as far as the program sets it: the handlers of the root logger, its level, and the levels
  of other loggers. The level names are compared after \<open>upper\<close>, of which the part on ASCII letters decides. A logger without a level of
  its own takes the one of the next logger above it in its dotted name, at last the root's, and its records go to the root's handlers.
\<close>

datatype log_handler = StdoutJson | OtherHandler string

record logging_state =
  lg_handlers :: "log_handler list"
  lg_level :: int
  lg_levels :: "(string, int) dict"

definition LOG_LEVELS :: "(string, int) dict" where
  "LOG_LEVELS = [(''CRITICAL'', 50), (''FATAL'', 50), (''ERROR'', 40), (''WARNING'', 30), (''WARN'', 30), (''INFO'', 20), (''DEBUG'', 10), (''NOTSET'', 0)]"

definition upper_ascii :: "string \<Rightarrow> string" where
  "upper_ascii s = map (\<lambda>c. if ascii_lower c then char_of (code c - 32) else c) s"

definition setup_logging :: "string \<Rightarrow> logging_state \<Rightarrow> (py_error + unit) \<times> logging_state" where
  "setup_logging level g =
     (let g1 = g\<lparr>lg_handlers := []\<rparr>;
          g2 = g1\<lparr>lg_handlers := lg_handlers g1 @ [StdoutJson]\<rparr>
      in case map_of LOG_LEVELS (upper_ascii level) of
           None \<Rightarrow> (Inl ValueError, g2)
         | Some n \<Rightarrow> (Inr (), g2\<lparr>lg_level := n, lg_levels := AList.update ''httpx'' 30 (lg_levels g2)\<rparr>))"

text \<open>The names of a logger and of those above it, without the root.\<close>

definition logger_names :: "string \<Rightarrow> string list" where
  "logger_names name = name # rev (map (\<lambda>i. take i name) (filter (\<lambda>i. name ! i = CHR ''.'') [0..<length name]))"

definition effective_level :: "logging_state \<Rightarrow> string \<Rightarrow> int" where
  "effective_level g name =
     (case filter (\<lambda>n. n \<noteq> 0) (List.map_filter (map_of (lg_levels g)) (logger_names name)) of [] \<Rightarrow> lg_level g | n # _ \<Rightarrow> n)"

text \<open>What a record puts on the standard output.\<close>

definition emitted :: "(rat \<Rightarrow> string) \<Rightarrow> string \<Rightarrow> logging_state \<Rightarrow> log_record \<Rightarrow> string list" where
  "emitted fr timestamp g r =
     (case map_of LOG_LEVELS (lr_level r) of
        None \<Rightarrow> []
      | Some n \<Rightarrow> if n < effective_level g (lr_name r) then []
                else map (\<lambda>_. log_format fr timestamp r @ [CHR 0x0A]) (filter (\<lambda>h. h = StdoutJson) (lg_handlers g)))"

text \<open>However often the program sets logging up, and whatever stood there before, a record is one line of JSON or nothing.\<close>

lemma logging_once:
  assumes "setup_logging level g = (Inr (), g')"
  shows "length (emitted fr timestamp g' r) \<le> 1" and "lg_handlers g' = [StdoutJson]" and "setup_logging level g' = (Inr (), g')"
proof -
  from assms obtain n where n: "map_of LOG_LEVELS (upper_ascii level) = Some n"
    and g': "g' = g\<lparr>lg_handlers := [StdoutJson], lg_level := n, lg_levels := AList.update ''httpx'' 30 (lg_levels g)\<rparr>"
    by (auto simp: setup_logging_def Let_def split: option.splits)
  show "lg_handlers g' = [StdoutJson]" by (simp add: g')
  then show "length (emitted fr timestamp g' r) \<le> 1" by (simp add: emitted_def split: option.split)
  have "AList.update k v (AList.update k v d) = AList.update k v d" for k :: string and v :: int and d by (induction d) auto
  with n show "setup_logging level g' = (Inr (), g')" by (simp add: setup_logging_def g' Let_def)
qed

text \<open>Entries of the program's own loggers appear exactly from the configured level on.\<close>

lemma own_entries:
  assumes "setup_logging level g = (Inr (), g')" and "lg_levels g = []" and "map_of LOG_LEVELS (upper_ascii level) = Some n"
    and "map_of LOG_LEVELS (lr_level r) = Some m" and "''httpx'' \<notin> set (logger_names (lr_name r))"
  shows "emitted fr timestamp g' r = (if n \<le> m then [log_format fr timestamp r @ [CHR 0x0A]] else [])"
proof -
  have g': "g' = g\<lparr>lg_handlers := [StdoutJson], lg_level := n, lg_levels := [(''httpx'', 30)]\<rparr>"
    using assms(1-3) by (simp add: setup_logging_def Let_def)
  have "List.map_filter (map_of (lg_levels g')) (logger_names (lr_name r)) = []"
    using assms(5) by (auto simp: g' List.map_filter_def filter_empty_conv)
  then have "effective_level g' (lr_name r) = n" by (simp add: effective_level_def g')
  then show ?thesis using assms(4) by (simp add: emitted_def g')
qed

subsection \<open>The audit record\<close>

definition AUDIT_PATH :: string where
  "AUDIT_PATH = ''/v1/chat/completions''"

text \<open>\<open>_usage_int\<close>: the count under \<open>key\<close> in a dictionary or an object, zero when it is missing or not a number.\<close>

definition usage_int :: "pyval \<Rightarrow> string \<Rightarrow> int" where
  "usage_int token_usage key =
     (let value = (case token_usage of
            PyNone \<Rightarrow> PyInt 0
          | PyDict d \<Rightarrow> (case map_of d key of Some v \<Rightarrow> v | None \<Rightarrow> PyNone)
          | PyObj s attrs \<Rightarrow> (case map_of attrs key of Some v \<Rightarrow> v | None \<Rightarrow> PyInt 0)
          | _ \<Rightarrow> PyInt 0)
      in case py_int_of (if py_truthy value then value else PyInt 0) of Inr n \<Rightarrow> n | Inl _ \<Rightarrow> 0)"

text \<open>\<open>model_dump\<close> of a usage, as the chat handler leaves it in the request state.\<close>

definition usage_dump :: "normalized_usage option \<Rightarrow> pyval" where
  "usage_dump u =
     (case u of
        None \<Rightarrow> PyNone
      | Some u \<Rightarrow> PyDict [(''prompt_tokens'', PyInt (prompt_tokens u)), (''completion_tokens'', PyInt (completion_tokens u)),
          (''total_tokens'', PyInt (total_tokens u))])"

definition opt_str :: "string option \<Rightarrow> pyval" where
  "opt_str s = (case s of None \<Rightarrow> PyNone | Some x \<Rightarrow> PyStr x)"

text \<open>The \<open>fields\<close> of the audit row, in the order of the dictionary.\<close>

definition audit_fields :: "string \<Rightarrow> request_state \<Rightarrow> int \<Rightarrow> int \<Rightarrow> decimal \<Rightarrow> (string, pyval) dict" where
  "audit_fields request_id q status_code latency_ms cost =
     (let usage = usage_dump (q_token_usage q);
          p = usage_int usage ''prompt_tokens''; c = usage_int usage ''completion_tokens''; t = usage_int usage ''total_tokens''
      in [(''request_id'', PyStr request_id), (''principal_hash'', opt_str (q_principal_hash q)), (''org_id'', opt_str (q_org_id q)),
          (''api_key_id'', opt_str (q_api_key_id q)), (''provider'', opt_str (q_provider q)), (''model'', opt_str (q_model q)),
          (''status_code'', PyInt status_code), (''error_type'', opt_str (q_error_type q)), (''prompt_tokens'', PyInt p),
          (''completion_tokens'', PyInt c), (''total_tokens'', PyInt (if t = 0 then p + c else t)), (''cost_usd'', PyDec cost),
          (''latency_ms'', PyInt latency_ms), (''stream'', PyBool (q_stream q))])"

text \<open>
  \<open>AuditLog(**fields)\<close> with the columns of the table: \<open>request_id\<close> and \<open>status_code\<close> have no default; the others have one or may be
  null. A value of another type than its column's is refused here, as PostgreSQL does.
\<close>

definition str_col :: "(string, pyval) dict \<Rightarrow> string \<Rightarrow> string option option" where
  "str_col fds key = (case map_of fds key of None \<Rightarrow> Some None | Some PyNone \<Rightarrow> Some None | Some (PyStr s) \<Rightarrow> Some (Some s) | _ \<Rightarrow> None)"

definition int_col :: "(string, pyval) dict \<Rightarrow> string \<Rightarrow> int option \<Rightarrow> int option" where
  "int_col fds key dflt = (case map_of fds key of None \<Rightarrow> dflt | Some (PyInt n) \<Rightarrow> Some n | _ \<Rightarrow> None)"

definition dec_col :: "(string, pyval) dict \<Rightarrow> string \<Rightarrow> rat option" where
  "dec_col fds key = (case map_of fds key of None \<Rightarrow> Some 0 | Some (PyDec d) \<Rightarrow> Some (dec_val d) | Some (PyFloat r) \<Rightarrow> Some r | _ \<Rightarrow> None)"

definition bool_col :: "(string, pyval) dict \<Rightarrow> string \<Rightarrow> bool option" where
  "bool_col fds key = (case map_of fds key of None \<Rightarrow> Some False | Some (PyBool b) \<Rightarrow> Some b | _ \<Rightarrow> None)"

text \<open>A point in time is an object with its microseconds.\<close>

definition py_datetime_obj :: "int \<Rightarrow> pyval" where
  "py_datetime_obj t = PyObj [] [(''timestamp'', PyInt t)]"

definition time_col :: "(string, pyval) dict \<Rightarrow> string \<Rightarrow> int \<Rightarrow> int option" where
  "time_col fds key dflt =
     (case map_of fds key of
        None \<Rightarrow> Some dflt
      | Some (PyObj s attrs) \<Rightarrow> (case map_of attrs ''timestamp'' of Some (PyInt t) \<Rightarrow> Some t | _ \<Rightarrow> None)
      | _ \<Rightarrow> None)"

text \<open>A mandatory text column: \<open>request_id\<close>, and \<open>id\<close> with the identifier drawn for it.\<close>

definition text_col :: "(string, pyval) dict \<Rightarrow> string \<Rightarrow> string option \<Rightarrow> string option" where
  "text_col fds key dflt = (case map_of fds key of None \<Rightarrow> dflt | Some (PyStr s) \<Rightarrow> Some s | _ \<Rightarrow> None)"

definition audit_row :: "string \<Rightarrow> int \<Rightarrow> (string, pyval) dict \<Rightarrow> audit_log option" where
  "audit_row new_id now fds =
     (case (text_col fds ''id'' (Some new_id), text_col fds ''request_id'' None, time_col fds ''ts'' now) of
        (Some i, Some rid, Some ts) \<Rightarrow>
     (case (str_col fds ''principal_hash'', str_col fds ''org_id'', str_col fds ''api_key_id'', str_col fds ''provider'') of
        (Some ph, Some org, Some key, Some pr) \<Rightarrow>
     (case (str_col fds ''model'', int_col fds ''status_code'' None, str_col fds ''error_type'', int_col fds ''prompt_tokens'' (Some 0)) of
        (Some m, Some sc, Some et, Some pt) \<Rightarrow>
     (case (int_col fds ''completion_tokens'' (Some 0), int_col fds ''total_tokens'' (Some 0), dec_col fds ''cost_usd'',
            int_col fds ''latency_ms'' (Some 0), bool_col fds ''stream'') of
        (Some ct, Some tt, Some cost, Some lat, Some sm) \<Rightarrow>
          Some \<lparr>a_id = i, a_request_id = rid, a_ts = ts, a_principal_hash = ph, a_org_id = org, a_api_key_id = key, a_provider = pr,
            a_model = m, a_status_code = sc, a_error_type = et, a_prompt_tokens = pt, a_completion_tokens = ct, a_total_tokens = tt,
            a_cost_usd = cost, a_latency_ms = lat, a_stream = sm\<rparr>
      | _ \<Rightarrow> None) | _ \<Rightarrow> None) | _ \<Rightarrow> None) | _ \<Rightarrow> None)"

text \<open>The policy events and the stored messages of a request; \<open>uid\<close> gives their identifiers.\<close>

definition policy_rows :: "(nat \<Rightarrow> string) \<Rightarrow> int \<Rightarrow> string \<Rightarrow> request_state \<Rightarrow> policy_event list" where
  "policy_rows uid now request_id q =
     (let notes = map (\<lambda>n. (pn_event_type n, pn_action n, Some (pn_rule_id n), int (pn_count n),
                            if pn_severity n = [] then ''medium'' else pn_severity n)) (q_policy_events q);
          masks = map (\<lambda>(ty, n). (''pii_mask'', ''mask'', Some ty, int n, ''info'')) (q_pii_masked q)
      in map (\<lambda>(i, et, act, rule, n, sev). \<lparr>pe_id = uid i, pe_request_id = request_id, pe_ts = now,
           pe_principal_hash = q_principal_hash q, pe_org_id = q_org_id q, pe_api_key_id = q_api_key_id q, pe_event_type = et,
           pe_action = act, pe_rule_id = rule, pe_count = n, pe_severity = sev, pe_stream = q_stream q\<rparr>)
         (List.enumerate 1 (notes @ masks)))"

definition message_rows :: "(nat \<Rightarrow> string) \<Rightarrow> int \<Rightarrow> settings \<Rightarrow> string \<Rightarrow> request_state \<Rightarrow> audit_message list" where
  "message_rows uid now st request_id q =
     (if audit_store_messages st
      then map (\<lambda>(i, seq, m). \<lparr>am_id = uid i, am_request_id = request_id, am_ts = now, am_seq = int seq, am_role = nm_role m, am_content = nm_content m\<rparr>)
        (List.enumerate (1 + length (q_policy_events q) + length (q_pii_masked q)) (q_stored_messages q))
      else [])"

subsection \<open>Writing it down\<close>

type_synonym files = "string \<Rightarrow> string option"

definition file_append :: "string \<Rightarrow> string \<Rightarrow> files \<Rightarrow> files" where
  "file_append path t fs = fs(path \<mapsto> (case fs path of None \<Rightarrow> [] | Some c \<Rightarrow> c) @ t)"

definition audit_line :: "(rat \<Rightarrow> string) \<Rightarrow> (string, pyval) dict \<Rightarrow> string" where
  "audit_line fr fds = json_dumps fr (PyDict fds)"

definition write_audit_fallback :: "(rat \<Rightarrow> string) \<Rightarrow> string \<Rightarrow> (string, pyval) dict \<Rightarrow> files \<Rightarrow> files" where
  "write_audit_fallback fr path fds fs = file_append path (audit_line fr fds @ [CHR 0x0A]) fs"

text \<open>Everything the audit code writes to.\<close>

record audit_store =
  st_conn :: sessionmaker
  st_files :: files
  st_disk_ok :: bool

record audit_job =
  j_fields :: "(string, pyval) dict"
  j_events :: "policy_event list"
  j_messages :: "audit_message list"
  j_id :: string
  j_now :: int

text \<open>\<open>_write_audit_fallback\<close>: the line, or nothing but a log entry when the disk refuses it.\<close>

definition try_audit_fallback :: "(rat \<Rightarrow> string) \<Rightarrow> settings \<Rightarrow> (string, pyval) dict \<Rightarrow> audit_store \<Rightarrow> audit_store" where
  "try_audit_fallback fr st fds s =
     (if st_disk_ok s then s\<lparr>st_files := write_audit_fallback fr (audit_fallback_path st) fds (st_files s)\<rparr> else s)"

text \<open>\<open>_insert_audit_log\<close>: one transaction, and the fallback when it fails for any reason.\<close>

definition commit_audit :: "audit_job \<Rightarrow> sessionmaker \<Rightarrow> connection option" where
  "commit_audit j sm =
     (case sm of
        None \<Rightarrow> None
      | Some c \<Rightarrow>
          (case audit_row (j_id j) (j_now j) (j_fields j) of
             None \<Rightarrow> None
           | Some r \<Rightarrow> (case insert_audit r (j_events j) (j_messages j) (conn_db c) of
                Inr db \<Rightarrow> if write_ok c then Some (c\<lparr>conn_db := db\<rparr>) else None
              | Inl _ \<Rightarrow> None)))"

definition insert_audit_log :: "(rat \<Rightarrow> string) \<Rightarrow> settings \<Rightarrow> audit_job \<Rightarrow> audit_store \<Rightarrow> audit_store" where
  "insert_audit_log fr st j s =
     (case commit_audit j (st_conn s) of
        Some c \<Rightarrow> s\<lparr>st_conn := Some c\<rparr>
      | None \<Rightarrow> try_audit_fallback fr st (j_fields j) s)"

text \<open>\<open>_schedule_audit_log\<close> up to the insert: the job, if this request is audited at all.\<close>

definition audit_job_of :: "(nat \<Rightarrow> string) \<Rightarrow> int \<Rightarrow> settings \<Rightarrow> string \<Rightarrow> string \<Rightarrow> request_state \<Rightarrow> int \<Rightarrow> int \<Rightarrow> sessionmaker \<Rightarrow>
    string option set \<Rightarrow> audit_job option \<times> string option set" where
  "audit_job_of uid now st path request_id q status_code latency_ms sm warned =
     (if \<not> audit_enabled st \<or> path \<noteq> AUDIT_PATH then (None, warned)
      else let usage = usage_dump (q_token_usage q) in
        (case calculate_cost (q_model q) (usage_int usage ''prompt_tokens'') (usage_int usage ''completion_tokens'') warned of
           (Inl _, warned') \<Rightarrow> (None, warned')
         | (Inr cost, warned') \<Rightarrow>
             (if sm = None then None
              else Some \<lparr>j_fields = audit_fields request_id q status_code latency_ms cost, j_events = policy_rows uid now request_id q,
                j_messages = message_rows uid now st request_id q, j_id = uid 0, j_now = now\<rparr>, warned')))"

text \<open>With \<open>audit_sync\<close> the insert runs at once; otherwise it becomes a task of the application.\<close>

record audit_state =
  as_store :: audit_store
  as_tasks :: "audit_job list"
  as_warned :: "string option set"

definition schedule_audit_log :: "(rat \<Rightarrow> string) \<Rightarrow> (nat \<Rightarrow> string) \<Rightarrow> int \<Rightarrow> settings \<Rightarrow> string \<Rightarrow> string \<Rightarrow> request_state \<Rightarrow> int \<Rightarrow> int \<Rightarrow>
    audit_state \<Rightarrow> audit_state" where
  "schedule_audit_log fr uid now st path request_id q status_code latency_ms a =
     (case audit_job_of uid now st path request_id q status_code latency_ms (st_conn (as_store a)) (as_warned a) of
        (None, w) \<Rightarrow> a\<lparr>as_warned := w\<rparr>
      | (Some j, w) \<Rightarrow>
          if audit_sync st then a\<lparr>as_store := insert_audit_log fr st j (as_store a), as_warned := w\<rparr>
          else a\<lparr>as_tasks := as_tasks a @ [j], as_warned := w\<rparr>)"

text \<open>Running the tasks to their end, as the shutdown does with \<open>gather\<close>.\<close>

definition drain_tasks :: "(rat \<Rightarrow> string) \<Rightarrow> settings \<Rightarrow> audit_state \<Rightarrow> audit_state" where
  "drain_tasks fr st a = a\<lparr>as_store := fold (insert_audit_log fr st) (as_tasks a) (as_store a), as_tasks := []\<rparr>"

subsection \<open>Closing a request\<close>

definition latency_ms :: "rat \<Rightarrow> rat \<Rightarrow> int" where
  "latency_ms start stop = round_half_even ((stop - start) * 1000)"

definition audit_status_code :: "int \<Rightarrow> request_state \<Rightarrow> int" where
  "audit_status_code status_code q = (case q_audit_status q of Some n \<Rightarrow> n | None \<Rightarrow> status_code)"

definition request_complete :: "string \<Rightarrow> string \<Rightarrow> string \<Rightarrow> request_state \<Rightarrow> int \<Rightarrow> int \<Rightarrow> log_record" where
  "request_complete request_id meth path q status latency = log_event ''ai_serving.requests'' ''request_complete''
     [(''request_id'', PyStr request_id), (''method'', PyStr meth), (''path'', PyStr path), (''status'', PyInt status),
      (''latency_ms'', PyInt latency), (''provider'', opt_str (q_provider q)), (''model'', opt_str (q_model q)),
      (''token_usage'', usage_dump (q_token_usage q)), (''error_type'', opt_str (q_error_type q))]"

definition finalize_request :: "(rat \<Rightarrow> string) \<Rightarrow> (nat \<Rightarrow> string) \<Rightarrow> int \<Rightarrow> settings \<Rightarrow> string \<Rightarrow> string \<Rightarrow> string \<Rightarrow> request_state \<Rightarrow>
    rat \<Rightarrow> rat \<Rightarrow> int \<Rightarrow> audit_state \<Rightarrow> log_record \<times> audit_state" where
  "finalize_request fr uid now st request_id meth path q start stop status_code a =
     (let latency = latency_ms start stop; status = audit_status_code status_code q
      in (request_complete request_id meth path q status latency,
          schedule_audit_log fr uid now st path request_id q status latency a))"

text \<open>
  The middleware. \<open>call\<close> is what the application did with the request: it raised, or it returned a response with this status;
  then \<open>pulled\<close> says how the server used the body: \<open>None\<close> when it never asked for the first chunk, \<open>Some n\<close> when it asked for
  at least one and the iteration ended after \<open>n\<close> chunks. \<open>finalize\<close> appends the status it is called with.
\<close>

datatype call_result = CallRaised exc | CallReturned int "string list" bool

record 'b mw_state =
  mw_finalized :: bool
  mw_done :: "'b list"

definition finalize_once :: "'b \<Rightarrow> 'b mw_state \<Rightarrow> 'b mw_state" where
  "finalize_once x m = (if mw_finalized m then m else m\<lparr>mw_finalized := True, mw_done := mw_done m @ [x]\<rparr>)"

text \<open>\<open>_wrap_body_iterator\<close>: a generator that was never started does not run its \<open>finally\<close>.\<close>

definition wrap_body_iterator :: "string list \<Rightarrow> nat option \<Rightarrow> ('s \<Rightarrow> 's) \<Rightarrow> 's \<Rightarrow> string list \<times> 's" where
  "wrap_body_iterator body pulled finalize m =
     (case pulled of None \<Rightarrow> ([], m) | Some n \<Rightarrow> (take n body, finalize m))"

definition request_id_of :: "string option \<Rightarrow> string \<Rightarrow> string" where
  "request_id_of header fresh = (case header of Some h \<Rightarrow> if h \<noteq> [] then h else fresh | None \<Rightarrow> fresh)"

definition request_id_middleware :: "string option \<Rightarrow> string \<Rightarrow> call_result \<Rightarrow> nat option \<Rightarrow>
    (exc + (int \<times> (string \<times> string) list \<times> string list)) \<times> int mw_state" where
  "request_id_middleware header fresh call pulled =
     (let request_id = request_id_of header fresh; m = \<lparr>mw_finalized = False, mw_done = []\<rparr> in
      case call of
        CallRaised x \<Rightarrow> (Inl x, finalize_once 500 m)
      | CallReturned status body has_iterator \<Rightarrow>
          if has_iterator then
            let (sent, m') = wrap_body_iterator body pulled (finalize_once status) m
            in (Inr (status, [(''x-request-id'', request_id)], sent), m')
          else (Inr (status, [(''x-request-id'', request_id)], body), finalize_once status m))"

subsection \<open>No secret in a log entry\<close>

lemma consumes_LitI [simp]: "consumes (LitI l) w \<longleftrightarrow> map py_lower_char w = l"
proof (induction l arbitrary: w)
  case (Cons c l)
  show ?case by (cases w) (auto simp: consumes_simps Cons intro: exI [of _ "[_]"])
qed (auto simp: consumes_simps)

lemma rx_ok_LitI [simp]: "rx_ok (LitI l)"
  by (induction l) auto

lemma ends_LitI: "map py_lower_char w = l \<Longrightarrow> ends (LitI l) (b, w @ a) = [(rev w @ b, a)]"
  by (induction l arbitrary: w b) auto

lemma secret_re_facts: "rx_ok SECRET_FIELD_RE" "\<not> consumes SECRET_FIELD_RE []"
  by (auto simp: SECRET_FIELD_RE_def consumes_simps)

definition secret_words :: "string list" where
  "secret_words = [''api_key'', ''api-key'', ''apikey'', ''authorization'', ''token'', ''secret'']"

lemma lower_other: "py_lower_char c = d \<Longrightarrow> code d < 97 \<Longrightarrow> c = d"
proof (rule ccontr)
  assume *: "py_lower_char c = d" "code d < 97" "c \<noteq> d"
  then have "65 \<le> code c" "code c \<le> 222" "d = char_of (code c + 32)"
    by (auto simp: py_lower_char_def ascii_upper_def split: if_splits)
  then have "code d = code c + 32" by simp
  with *(2) \<open>65 \<le> code c\<close> show False by simp
qed

lemma ends_api_key:
  assumes "map py_lower_char x = ''api''" and "y \<in> {[], ''_'', ''-''}" and "map py_lower_char z = ''key''"
  shows "ends (Cat (LitI ''api'') (Cat (Opt (Cls (\<lambda>c. c = CHR ''_'' \<or> c = CHR ''-''))) (LitI ''key''))) (b, x @ y @ z @ a) \<noteq> []"
proof -
  have z: "z @ a \<noteq> [] \<and> hd (z @ a) \<notin> {CHR ''_'', CHR ''-''}"
    using assms(3) by (cases z) (auto simp: py_lower_char_def ascii_upper_def)
  obtain t where k: "(rev y @ rev x @ b, z @ a) # t = rep_ends (ends (Cls (\<lambda>c. c = CHR ''_'' \<or> c = CHR ''-''))) 1 0 (rev x @ b, y @ z @ a)"
    using assms(2) z by (cases "z @ a") auto
  show ?thesis using ends_LitI [OF assms(1), of b "y @ z @ a"] ends_LitI [OF assms(3), of "rev y @ rev x @ b" a] k [symmetric]
    by simp
qed

lemma secret_words_cases:
  "w \<in> set secret_words \<Longrightarrow> (\<exists>y \<in> {[], ''_'', ''-''}. w = ''api'' @ y @ ''key'') \<or> w \<in> {''authorization'', ''token'', ''secret''}"
  unfolding secret_words_def by simp satx

lemma secret_word_ends:
  assumes "map py_lower_char w \<in> set secret_words"
  shows "ends SECRET_FIELD_RE (b, w @ a) \<noteq> []"
proof (cases "map py_lower_char w \<in> {''authorization'', ''token'', ''secret''}")
  case True
  then show ?thesis using ends_LitI [OF refl, of w b a] by (auto simp: SECRET_FIELD_RE_def)
next
  case False
  then obtain y where y: "y \<in> {[], ''_'', ''-''}" "map py_lower_char w = ''api'' @ y @ ''key''"
    using secret_words_cases [OF assms] by blast
  obtain x r where x: "w = x @ r" "map py_lower_char x = ''api''" "map py_lower_char r = y @ ''key''"
    using iffD1 [OF map_eq_append_conv y(2)] by (elim exE conjE) metis
  obtain y' z where z: "r = y' @ z" "map py_lower_char y' = y" "map py_lower_char z = ''key''"
    using iffD1 [OF map_eq_append_conv x(3)] by (elim exE conjE) metis
  have "y' = y" using z(2) y(1) lower_other [of _ "CHR ''_''"] lower_other [of _ "CHR ''-''"] by (cases y') auto
  then show ?thesis using ends_api_key [OF x(2) y(1) z(3), of b a] x(1) z(1) by (simp add: SECRET_FIELD_RE_def)
qed

lemma secret_field_contains:
  assumes "py_lower key = x @ w @ y" and "w \<in> set secret_words"
  shows "secret_field key"
proof -
  obtain x' w' y' where k: "key = x' @ w' @ y'" "map py_lower_char w' = w"
    using iffD1 [OF map_eq_append_conv assms(1) [unfolded py_lower_def]] iffD1 [OF map_eq_append_conv] by metis
  have "ends SECRET_FIELD_RE (rev (take (length x') key), drop (length x') key) \<noteq> []"
    using secret_word_ends [of w'] k assms(2) by simp
  then have "\<exists>(s, e, w) \<in> set (finditer SECRET_FIELD_RE key). s \<le> length x' \<and> length x' < e"
    using finditer_complete [OF secret_re_facts] k(1) by (metis length_append le_add1)
  then show ?thesis by (auto simp: secret_field_def rx_search_def)
qed

text \<open>A value as it may stand in a log entry.\<close>

fun log_clean :: "pyval \<Rightarrow> bool" where
  "log_clean (PyDict d) = list_all (\<lambda>(k, v). \<not> secret_field k \<and> v \<noteq> PyNone \<and> log_clean v) d"
| "log_clean (PyList xs) = list_all log_clean xs"
| "log_clean (PyTuple xs) = False"
| "log_clean v = True"

lemma sanitize_not_none: "v \<noteq> PyNone \<Longrightarrow> sanitize_extra_value v \<noteq> PyNone"
  by (cases v) auto

lemma sanitize_clean: "log_clean (sanitize_extra_value v)" "log_clean (PyDict (sanitize_extra_fields d))"
  by (induction v and d rule: sanitize_extra_value_sanitize_extra_fields.induct) (auto simp: list_all_iff sanitize_not_none)

lemma sanitize_id: "log_clean v \<Longrightarrow> sanitize_extra_value v = v" "log_clean (PyDict d) \<Longrightarrow> sanitize_extra_fields d = d"
  by (induction v and d rule: sanitize_extra_value_sanitize_extra_fields.induct) (auto simp: list_all_iff map_idI)

lemma update_clean: "log_clean (PyDict p) \<Longrightarrow> \<not> secret_field k \<Longrightarrow> v \<noteq> PyNone \<Longrightarrow> log_clean v \<Longrightarrow> log_clean (PyDict (AList.update k v p))"
  by (induction p) auto

lemma updates_clean: "log_clean (PyDict d) \<Longrightarrow> log_clean (PyDict p) \<Longrightarrow> log_clean (PyDict (fold (\<lambda>(k, v) p. AList.update k v p) d p))"
proof (induction d arbitrary: p)
  case (Cons m d)
  obtain k v where m: "m = (k, v)" by (cases m)
  with Cons.prems have "log_clean (PyDict (AList.update k v p))" by (intro update_clean) auto
  with Cons m show ?case by simp
qed simp

lemma log_payload_clean: "log_clean (PyDict (log_payload ts r))"
proof -
  have "\<not> secret_field ''timestamp''" "\<not> secret_field ''level''" "\<not> secret_field ''logger''" "\<not> secret_field ''message''"
    "\<not> secret_field ''exception_class''" by code_simp+
  then have b: "log_clean (PyDict [(''timestamp'', PyStr ts), (''level'', PyStr (lr_level r)), (''logger'', PyStr (lr_name r)), (''message'', PyStr (lr_message r))])"
    and e: "\<And>p c. log_clean (PyDict p) \<Longrightarrow> log_clean (PyDict (AList.update ''exception_class'' (PyStr c) p))" 
    by (simp, intro update_clean, auto)
  show ?thesis
    using b e updates_clean [OF sanitize_clean(2) b] unfolding log_payload_def Let_def
    by (auto split: option.split pyval.split simp del: log_clean.simps(1))
qed



text \<open>For the same reason the token counts of a request never reach its own log line.\<close>

lemma token_usage_never_logged: "''token_usage'' \<notin> fst ` set (log_payload timestamp (request_complete request_id meth path q status latency))"
proof -
  have "secret_field ''token_usage''" by code_simp
  then show ?thesis using log_payload_clean [of timestamp "request_complete request_id meth path q status latency"] by (auto simp: list_all_iff)
qed

subsection \<open>The audit row\<close>

definition total_of :: "normalized_usage option \<Rightarrow> int" where
  "total_of u = (case u of None \<Rightarrow> 0 | Some u \<Rightarrow> if total_tokens u = 0 then prompt_tokens u + completion_tokens u else total_tokens u)"

definition prompt_of :: "normalized_usage option \<Rightarrow> int" where
  "prompt_of u = (case u of None \<Rightarrow> 0 | Some u \<Rightarrow> prompt_tokens u)"

definition completion_of :: "normalized_usage option \<Rightarrow> int" where
  "completion_of u = (case u of None \<Rightarrow> 0 | Some u \<Rightarrow> completion_tokens u)"

lemma usage_int_dump [simp]:
  "usage_int (usage_dump u) ''prompt_tokens'' = prompt_of u"
  "usage_int (usage_dump u) ''completion_tokens'' = completion_of u"
  "usage_int (usage_dump u) ''total_tokens'' = (case u of None \<Rightarrow> 0 | Some u \<Rightarrow> total_tokens u)"
  by (simp_all add: usage_int_def usage_dump_def prompt_of_def completion_of_def split: option.split)

definition the_row :: "string \<Rightarrow> int \<Rightarrow> string \<Rightarrow> request_state \<Rightarrow> int \<Rightarrow> int \<Rightarrow> decimal \<Rightarrow> audit_log" where
  "the_row i now request_id q status_code latency cost = \<lparr>a_id = i, a_request_id = request_id, a_ts = now, a_principal_hash = q_principal_hash q,
     a_org_id = q_org_id q, a_api_key_id = q_api_key_id q, a_provider = q_provider q, a_model = q_model q, a_status_code = status_code,
     a_error_type = q_error_type q, a_prompt_tokens = prompt_of (q_token_usage q), a_completion_tokens = completion_of (q_token_usage q),
     a_total_tokens = total_of (q_token_usage q), a_cost_usd = dec_val cost, a_latency_ms = latency, a_stream = q_stream q\<rparr>"

lemma str_col_opt: "map_of fds key = Some (opt_str s) \<Longrightarrow> str_col fds key = Some s"
  by (cases s) (simp_all add: str_col_def opt_str_def)

lemma audit_row_fields: "audit_row i now (audit_fields request_id q status_code latency cost) = Some (the_row i now request_id q status_code latency cost)"
proof -
  let ?f = "audit_fields request_id q status_code latency cost"
  have "str_col ?f ''principal_hash'' = Some (q_principal_hash q)" "str_col ?f ''org_id'' = Some (q_org_id q)"
    "str_col ?f ''api_key_id'' = Some (q_api_key_id q)" "str_col ?f ''provider'' = Some (q_provider q)"
    "str_col ?f ''model'' = Some (q_model q)" "str_col ?f ''error_type'' = Some (q_error_type q)"
    by (rule str_col_opt, simp add: audit_fields_def Let_def)+
  moreover have "text_col ?f ''id'' (Some i) = Some i" "text_col ?f ''request_id'' None = Some request_id"
    by (simp_all add: text_col_def audit_fields_def Let_def)
  moreover have "time_col ?f ''ts'' now = Some now" by (simp add: time_col_def audit_fields_def Let_def)
  moreover have "int_col ?f ''status_code'' None = Some status_code"
    "int_col ?f ''prompt_tokens'' (Some 0) = Some (prompt_of (q_token_usage q))"
    "int_col ?f ''completion_tokens'' (Some 0) = Some (completion_of (q_token_usage q))"
    "int_col ?f ''total_tokens'' (Some 0) = Some (total_of (q_token_usage q))" "int_col ?f ''latency_ms'' (Some 0) = Some latency"
    by (simp_all add: int_col_def audit_fields_def Let_def total_of_def prompt_of_def completion_of_def split: option.split)
  moreover have "dec_col ?f ''cost_usd'' = Some (dec_val cost)" "bool_col ?f ''stream'' = Some (q_stream q)"
    by (simp_all add: dec_col_def bool_col_def audit_fields_def Let_def)
  ultimately show ?thesis by (simp add: audit_row_def the_row_def)
qed


definition cost_of :: "string option \<Rightarrow> normalized_usage option \<Rightarrow> decimal" where
  "cost_of m u = (case fst (calculate_cost m (prompt_of u) (completion_of u) {}) of Inr d \<Rightarrow> d | Inl _ \<Rightarrow> Dec 0 0)"

lemma calculate_cost_total: "\<exists>d w'. calculate_cost m p c w = (Inr d, w') \<and> fst (calculate_cost m p c {}) = Inr d"
proof -
  have "\<exists>d. dec_div x (Dec 1000000 0) = Inr d" for x by (cases x) (auto simp: Let_def split: prod.split)
  then show ?thesis by (auto simp: calculate_cost_def split: option.splits)
qed

lemma audit_job_cases:
  assumes "audit_enabled st" and "path = AUDIT_PATH" and "sm = Some c"
  shows "\<exists>w'. audit_job_of uid now st path request_id q status_code latency sm w =
    (Some \<lparr>j_fields = audit_fields request_id q status_code latency (cost_of (q_model q) (q_token_usage q)),
       j_events = policy_rows uid now request_id q, j_messages = message_rows uid now st request_id q, j_id = uid 0, j_now = now\<rparr>, w')"
proof -
  obtain d w' where "calculate_cost (q_model q) (prompt_of (q_token_usage q)) (completion_of (q_token_usage q)) w = (Inr d, w')"
    "fst (calculate_cost (q_model q) (prompt_of (q_token_usage q)) (completion_of (q_token_usage q)) {}) = Inr d"
    using calculate_cost_total by blast
  then show ?thesis using assms by (simp add: audit_job_of_def cost_of_def)
qed

text \<open>What one job does to the store.\<close>

lemma insert_audit_log_cases:
  assumes "st_conn s = Some c"
  shows "(\<exists>r db. audit_row (j_id j) (j_now j) (j_fields j) = Some r \<and> insert_audit r (j_events j) (j_messages j) (conn_db c) = Inr db \<and> write_ok c \<and>
      insert_audit_log fr st j s = s\<lparr>st_conn := Some (c\<lparr>conn_db := db\<rparr>)\<rparr>) \<or>
    insert_audit_log fr st j s = (if st_disk_ok s
      then s\<lparr>st_files := write_audit_fallback fr (audit_fallback_path st) (j_fields j) (st_files s)\<rparr> else s)"
proof (cases "commit_audit j (st_conn s)")
  case None
  then show ?thesis by (simp add: insert_audit_log_def try_audit_fallback_def)
next
  case (Some c')
  then show ?thesis using assms by (auto simp: insert_audit_log_def try_audit_fallback_def commit_audit_def split: option.splits sum.splits if_splits)
qed

subsection \<open>One closing per request\<close>

text \<open>A request is closed at most once, with the status of its response or 500 when the application raised; it is not closed at
  all exactly when the server never asks for the body.\<close>

theorem finalized_exactly_once:
  "mw_done (snd (request_id_middleware header fresh call pulled)) =
     (case call of
        CallRaised e \<Rightarrow> [500]
      | CallReturned status body has_iterator \<Rightarrow> if has_iterator \<and> pulled = None then [] else [status])"
  by (auto simp: request_id_middleware_def finalize_once_def wrap_body_iterator_def Let_def split: call_result.split option.split)

subsection \<open>What is stored of the messages\<close>

lemma stream_state_stored [simp]: "q_stored_messages (stream_state kind q) = q_stored_messages q"
  by (auto simp: stream_state_def split: stream_kind.splits exc.splits)

lemma stream_response_stored:
  "q_stored_messages (fst (snd (chat_stream_response w st k name n now pulls cancelled q sl))) = q_stored_messages q"
  by (auto simp: chat_stream_response_def Let_def split: prod.splits option.splits stream_event.splits)

lemma apply_policy_stored: "q_stored_messages (snd (apply_policy w st n q)) = q_stored_messages q"
  by (simp add: apply_policy_def Let_def)

lemma serve_stored:
  "q_stored_messages (fst (snd (fst (serve w st p payload now pulls cancelled q sl)))) = q_stored_messages (snd (apply_pii st (to_normalized payload) q))"
  by (auto simp: serve_def Let_def stream_response_stored split: sum.split)

lemma chat_stored:
  assumes "q_stored_messages q = []"
  shows "q_stored_messages (fst (snd (fst (create_chat_completion w st p payload now pulls cancelled q sl)))) = [] \<or>
    pii_masking_enabled st \<and> q_stored_messages (fst (snd (fst (create_chat_completion w st p payload now pulls cancelled q sl)))) =
      List.enumerate 0 (nr_messages (masked_request st payload))"
proof -
  let ?n = "to_normalized payload" let ?q1 = "q\<lparr>q_model := Some (nr_model ?n), q_stream := nr_stream ?n\<rparr>"
  obtain eo q2 where pol: "apply_policy w st ?n ?q1 = (eo, q2)" by (cases "apply_policy w st ?n ?q1")
  then have q2: "q_stored_messages q2 = []" using apply_policy_stored [of w st ?n ?q1] assms by simp
  show ?thesis
  proof (cases eo)
    case None
    then have "create_chat_completion w st p payload now pulls cancelled q sl = serve w st p payload now pulls cancelled q2 sl"
      using pol by (simp add: create_chat_eq)
    then show ?thesis using serve_stored [of w st p payload now pulls cancelled q2 sl] q2
      by (simp add: apply_pii_eq masked_request_eq)
  next
    case (Some e)
    then show ?thesis using pol q2 by (simp add: create_chat_eq)
  qed
qed

lemma message_rows_content: "map am_content (message_rows uid now st request_id q) = (if audit_store_messages st then map (nm_content \<circ> snd) (q_stored_messages q) else [])"
proof -
  have "map (am_content \<circ> (\<lambda>(i, seq, m). \<lparr>am_id = uid i, am_request_id = request_id, am_ts = now, am_seq = int seq, am_role = nm_role m, am_content = nm_content m\<rparr>))
      (List.enumerate k xs) = map (nm_content \<circ> snd) xs" for k and xs :: "(nat \<times> normalized_message) list"
    by (induction xs arbitrary: k) auto
  then show ?thesis by (simp add: message_rows_def)
qed

text \<open>C22: message text reaches the audit tables only when storing is switched on, only with masking on, and then it is the masked
  text, message by message.\<close>

theorem stored_messages_masked:
  assumes "create_chat_completion w st p payload now pulls cancelled q sl = ((out, q', sl'), sent)" and "q_stored_messages q = []"
    and "message_rows uid t st request_id q' \<noteq> []"
  shows "audit_store_messages st \<and> pii_masking_enabled st \<and>
    (\<exists>masked summary. mask_messages (nr_messages (to_normalized payload)) (pii_types st) = Inr (masked, summary) \<and>
       map am_content (message_rows uid t st request_id q') = map nm_content masked)"
proof -
  have s: "audit_store_messages st" "q_stored_messages q' \<noteq> []" using assms(3) by (auto simp: message_rows_def split: if_splits)
  then have m: "pii_masking_enabled st" "q_stored_messages q' = List.enumerate 0 (nr_messages (masked_request st payload))"
    using chat_stored [OF assms(2), of w st p payload now pulls cancelled sl] assms(1) by auto
  then have "map am_content (message_rows uid t st request_id q') = map nm_content (nr_messages (masked_request st payload))"
    using s(1) by (simp add: message_rows_content flip: map_map)
  then show ?thesis using s m(1) by (simp add: masked_request_eq mask_messages_eq)
qed

subsection \<open>Interrupted streams\<close>

lemma unused_stream_cost: "cost_of m None = (case model_price m of None \<Rightarrow> Dec 0 0 | Some _ \<Rightarrow> Dec 0 (-2))"
proof (cases "model_price m")
  case None
  then show ?thesis by (simp add: cost_of_def calculate_cost_def)
next
  case (Some x)
  then obtain a b where "x = (Dec a (-2), Dec b (-2))" using model_price_bounds by (cases x) blast
  with Some show ?thesis by (simp add: cost_of_def calculate_cost_def prompt_of_def completion_of_def dec_fix_id)
qed

text \<open>When a client drops a stream it has read part of, the audit row records a success with no tokens and no cost, although the
  frames were delivered.\<close>

theorem disconnected_stream_unbilled:
  assumes "chat_stream_response w st key name n now pulls cancelled q sl = (ChatStream status frames Disconnected, q', sl')"
    and "q_token_usage q = None" and "q_audit_status q = None"
  shows "frames = map (\<lambda>c. SseData (chunk_from_normalized (w_created w) (w_fallback_id w) (nr_model n) c)) (take (length frames) (upstream_chunks (w_stream w name n))) \<and>
    (let row = the_row i t request_id q' (audit_status_code status q') latency (cost_of (q_model q') (q_token_usage q')) in
     a_status_code row = 200 \<and> a_error_type row = q_error_type q \<and> a_total_tokens row = 0 \<and> a_cost_usd row = 0)"
proof -
  have r: "well_streamed (chunk_from_normalized (w_created w) (w_fallback_id w) (nr_model n)) (upstream_chunks (w_stream w name n)) None (frames, Disconnected)"
    and q: "q' = q" and s: "status = 200" using stream_response_well [OF assms(1)] by (auto simp: stream_state_def)
  obtain k where k: "frames = map (\<lambda>c. SseData (chunk_from_normalized (w_created w) (w_fallback_id w) (nr_model n) c)) (take k (upstream_chunks (w_stream w name n)))"
    using r by (auto simp: well_streamed_def)
  then have "take k (upstream_chunks (w_stream w name n)) = take (length frames) (upstream_chunks (w_stream w name n))"
    by (simp add: min_def)
  with k q s show ?thesis using assms(2,3)
    by (simp add: the_row_def audit_status_code_def total_of_def unused_stream_cost split: option.split)
qed

subsection \<open>Concrete requests\<close>


theorem stored_messages_masked_witness:
  "map am_content (message_rows nat_str 0 (default_settings\<lparr>audit_store_messages := True\<rparr>) ''r''
     (fst (snd (fst (create_chat_completion sample_world (default_settings\<lparr>audit_store_messages := True\<rparr>) sample_user sample_chat 0 [1, 1] False
        new_request_state (new_limiter 4)))))) = [''mail [REDACTED:EMAIL:1]'']"
proof -
  let ?st = "default_settings\<lparr>audit_store_messages := True\<rparr>"
  let ?r = "create_chat_completion sample_world ?st sample_user sample_chat 0 [1, 1] False new_request_state (new_limiter 4)"
  have r: "?r = ((fst (fst ?r), fst (snd (fst ?r)), snd (snd (fst ?r))), snd ?r)" by simp
  have "q_stored_messages new_request_state = []" by (simp add: new_request_state_def)
  moreover have "message_rows nat_str 0 ?st ''r'' (fst (snd (fst ?r))) \<noteq> []" by code_simp
  moreover have "map nm_content (fst (case mask_messages (nr_messages (to_normalized sample_chat)) (pii_types ?st) of Inr x \<Rightarrow> x)) = [''mail [REDACTED:EMAIL:1]'']"
    by code_simp
  ultimately show ?thesis using stored_messages_masked [OF r] by fastforce
qed

theorem disconnected_stream_unbilled_witness:
  "\<exists>frames q' sl'. chat_stream_response sample_world default_settings ''u'' ''openai'' (to_normalized sample_chat) 0 [] False new_request_state (new_limiter 4) =
     (ChatStream 200 frames Disconnected, q', sl') \<and> a_total_tokens (the_row ''i'' 0 ''r'' q' (audit_status_code 200 q') 5 (cost_of (q_model q') (q_token_usage q'))) = 0"
proof -
  let ?r = "chat_stream_response sample_world default_settings ''u'' ''openai'' (to_normalized sample_chat) 0 [] False new_request_state (new_limiter 4)"
  let ?out = "case fst ?r of ChatStream s fr k \<Rightarrow> fr"
  have "fst ?r = ChatStream 200 ?out Disconnected" by code_simp
  then have r: "?r = (ChatStream 200 ?out Disconnected, fst (snd ?r), snd (snd ?r))" by (metis prod.collapse)
  from disconnected_stream_unbilled [OF r, of "''i''" 0 "''r''" 5] r show ?thesis
    by (intro exI [of _ ?out] exI [of _ "fst (snd ?r)"] exI [of _ "snd (snd ?r)"]) (simp add: new_request_state_def Let_def)
qed

end
