(* ===== verification/AuditReplay.thy ===== *)
theory AuditReplay
  imports Admin Observability
begin

text \<open>
  The replay of the audit fallback file (\<open>POST /admin/audit/replay\<close> of \<open>app/routers/admin.py\<close>): the file is moved aside, its
  lines are inserted one transaction each, and what cannot be inserted goes to the quarantine file. Arguments: the
  reading of ISO timestamps (\<open>fromiso\<close>), the identifiers and the time of the inserted rows, what the file system answers, and
  the point at which the task is cancelled, if it is.
\<close>

subsection \<open>One line\<close>

definition audit_columns :: "string list" where
  "audit_columns = [''id'', ''request_id'', ''ts'', ''principal_hash'', ''org_id'', ''api_key_id'', ''provider'', ''model'', ''status_code'',
     ''error_type'', ''prompt_tokens'', ''completion_tokens'', ''total_tokens'', ''cost_usd'', ''latency_ms'', ''stream'']"

text \<open>\<open>Decimal(str(value))\<close>; the decimal of a float's text has the value of the float.\<close>

fun decimal_of_value :: "pyval \<Rightarrow> pyval option" where
  "decimal_of_value (PyStr s) = map_option PyDec (decimal_from_string s)"
| "decimal_of_value (PyInt n) = Some (PyDec (Dec n 0))"
| "decimal_of_value (PyDec d) = Some (PyDec d)"
| "decimal_of_value (PyFloat r) = Some (PyFloat r)"
| "decimal_of_value _ = None"

definition replace_z :: "string \<Rightarrow> string" where
  "replace_z s = concat (map (\<lambda>c. if c = CHR ''Z'' then ''+00:00'' else [c]) s)"

definition audit_fields_from_json :: "(string \<Rightarrow> int option) \<Rightarrow> pyval \<Rightarrow> (string, pyval) dict option" where
  "audit_fields_from_json fromiso value =
     (case value of
        PyDict d \<Rightarrow>
          let fds = filter (\<lambda>(k, v). k \<in> set audit_columns) d in
          (case (case map_of fds ''cost_usd'' of
                   None \<Rightarrow> Some fds
                 | Some v \<Rightarrow> map_option (\<lambda>x. AList.update ''cost_usd'' x fds) (decimal_of_value v)) of
             None \<Rightarrow> None
           | Some fds \<Rightarrow>
               (case map_of fds ''ts'' of
                  Some (PyStr s) \<Rightarrow> map_option (\<lambda>t. AList.update ''ts'' (py_datetime_obj t) fds) (fromiso (replace_z s))
                | _ \<Rightarrow> Some fds))
      | _ \<Rightarrow> None)"

text \<open>The body of the loop for one line: \<open>None\<close> when anything raises.\<close>

definition replay_line :: "(string \<Rightarrow> int option) \<Rightarrow> string \<Rightarrow> int \<Rightarrow> string \<Rightarrow> connection \<Rightarrow> connection option" where
  "replay_line fromiso new_id now line c =
     (case json_loads line of
        None \<Rightarrow> None
      | Some v \<Rightarrow>
          (case audit_fields_from_json fromiso v of
             None \<Rightarrow> None
           | Some fds \<Rightarrow> commit_audit \<lparr>j_fields = fds, j_events = [], j_messages = [], j_id = new_id, j_now = now\<rparr> (Some c)))"

subsection \<open>The loop\<close>

record replay_state =
  rs_conn :: connection
  rs_replayed :: nat
  rs_failed :: nat
  rs_quarantine :: "string list"

text \<open>
  \<open>stop = Some (i, committed)\<close>: the task is cancelled while it handles line \<open>i\<close>, before or after the commit took effect. The result carries
  \<open>next_line_index\<close> and whether the loop was cut short.
\<close>

fun replay_loop :: "(nat \<Rightarrow> string \<Rightarrow> connection \<Rightarrow> connection option) \<Rightarrow> (nat \<times> bool) option \<Rightarrow> nat \<Rightarrow> string list \<Rightarrow> replay_state \<Rightarrow>
    replay_state \<times> nat \<times> bool" where
  "replay_loop commit stop i [] s = (s, i, False)"
| "replay_loop commit stop i (line # rest) s =
     (if py_strip line = [] then replay_loop commit stop (i + 1) rest s
      else if stop = Some (i, False) then (s, i, True)
      else case commit i line (rs_conn s) of
        Some c \<Rightarrow>
          if stop = Some (i, True) then (s\<lparr>rs_conn := c\<rparr>, i, True)
          else replay_loop commit stop (i + 1) rest (s\<lparr>rs_conn := c, rs_replayed := rs_replayed s + 1\<rparr>)
      | None \<Rightarrow> replay_loop commit stop (i + 1) rest (s\<lparr>rs_failed := rs_failed s + 1, rs_quarantine := rs_quarantine s @ [line]\<rparr>))"

definition rstrip_newlines :: "string \<Rightarrow> string" where
  "rstrip_newlines s = rev (dropWhile (\<lambda>c. code c = 13 \<or> code c = 10) (rev s))"

definition append_audit_quarantine :: "string \<Rightarrow> string list \<Rightarrow> files \<Rightarrow> files" where
  "append_audit_quarantine path ls fs =
     (if ls = [] then fs else file_append (path @ ''.failed'') (concat (map (\<lambda>l. rstrip_newlines l @ [CHR 0x0A]) ls)) fs)"

subsection \<open>The endpoint\<close>

datatype replace_outcome = Replaced | FileNotFound | OsError

record disk_answers =
  da_replace :: replace_outcome
  da_readable :: bool
  da_quarantine_ok :: bool

datatype replay_result = ReplayOk nat nat | ReplayRaised exc | ReplayCancelled

definition replay_audit_fallback :: "(string \<Rightarrow> int option) \<Rightarrow> (nat \<Rightarrow> string) \<Rightarrow> int \<Rightarrow> string \<Rightarrow> disk_answers \<Rightarrow> (nat \<times> bool) option \<Rightarrow> settings \<Rightarrow>
    api_key_principal \<Rightarrow> sessionmaker \<Rightarrow> files \<Rightarrow> replay_result \<times> sessionmaker \<times> files" where
  "replay_audit_fallback fromiso uid now hex da stop st p sm fs =
     (case bind_res (require_super_admin p) (\<lambda>_. require_sessionmaker sm) of
        Inl e \<Rightarrow> (ReplayRaised e, sm, fs)
      | Inr c \<Rightarrow>
          let path = audit_fallback_path st; snapshot = path @ ''.replay-'' @ hex in
          (case fs path of
             None \<Rightarrow> (ReplayOk 0 0, sm, fs)
           | Some content \<Rightarrow>
               (case da_replace da of
                  FileNotFound \<Rightarrow> (ReplayOk 0 0, sm, fs)
                | OsError \<Rightarrow> (ReplayRaised (HttpExc 503 (Some ''Audit replay temporarily unavailable'') []), sm, fs)
                | Replaced \<Rightarrow>
                    let fs1 = (fs(path := None))(snapshot \<mapsto> content) in
                    if \<not> da_readable da then (ReplayRaised OtherExc, sm, fs1(snapshot := None))
                    else
                      let ls = splitlines content;
                          (s, next_index, stopped) = replay_loop (\<lambda>i. replay_line fromiso (uid i) now) stop 0 ls
                            \<lparr>rs_conn = c, rs_replayed = 0, rs_failed = 0, rs_quarantine = []\<rparr>;
                          remaining = filter (\<lambda>l. py_strip l \<noteq> []) (drop next_index ls);
                          qs = rs_quarantine s @ remaining
                      in if qs \<noteq> [] \<and> \<not> da_quarantine_ok da then (ReplayRaised OtherExc, Some (rs_conn s), fs1)
                         else (if stopped then ReplayCancelled else ReplayOk (rs_replayed s) (rs_failed s), Some (rs_conn s),
                               (append_audit_quarantine path qs fs1)(snapshot := None)))))"

subsection \<open>No line is lost\<close>

abbreviation nonblank :: "string list \<Rightarrow> string list" where
  "nonblank ls \<equiv> filter (\<lambda>l. py_strip l \<noteq> []) ls"

lemma commit_audit_grows: "commit_audit j (Some c) = Some c' \<Longrightarrow> length (audit_logs (conn_db c')) = length (audit_logs (conn_db c)) + 1"
  by (auto simp: commit_audit_def insert_audit_def split: option.splits sum.splits if_splits)

lemma replay_line_grows: "replay_line fromiso i now l c = Some c' \<Longrightarrow> length (audit_logs (conn_db c')) = length (audit_logs (conn_db c)) + 1"
  by (auto simp: replay_line_def commit_audit_grows split: option.splits)

text \<open>
  What the loop has done with a list of lines when it stops at line \<open>n\<close>: the lines \<open>ins\<close> were inserted, the lines \<open>bad\<close> were set aside, the
  lines from \<open>n\<close> on are left.
\<close>

definition replay_accounts :: "nat \<Rightarrow> string list \<Rightarrow> replay_state \<Rightarrow> replay_state \<Rightarrow> nat \<Rightarrow> bool \<Rightarrow> string list \<Rightarrow> string list \<Rightarrow> bool" where
  "replay_accounts i ls s s' n stopped ins bad \<longleftrightarrow>
     i \<le> n \<and> rs_quarantine s' = rs_quarantine s @ bad \<and> rs_failed s' = rs_failed s + length bad \<and>
     length (audit_logs (conn_db (rs_conn s'))) = length (audit_logs (conn_db (rs_conn s))) + length ins \<and>
     mset (nonblank ls) \<subseteq># mset ins + mset bad + mset (nonblank (drop (n - i) ls)) \<and>
     (\<not> stopped \<longrightarrow> n - i = length ls \<and> rs_replayed s' = rs_replayed s + length ins \<and> mset (nonblank ls) = mset ins + mset bad)"

lemma drop_step: "Suc i \<le> n \<Longrightarrow> drop (n - i) (l # ls) = drop (n - Suc i) ls"
  by (metis Suc_diff_Suc Suc_le_lessD drop_Suc_Cons)

lemma accounts_blank:
  "py_strip l = [] \<Longrightarrow> replay_accounts (Suc i) ls s s' n b ins bad \<Longrightarrow> replay_accounts i (l # ls) s s' n b ins bad"
  by (auto simp: replay_accounts_def drop_step Suc_diff_Suc Suc_le_eq [symmetric] add.assoc)

lemma accounts_inserted:
  assumes "py_strip l \<noteq> []" and "length (audit_logs (conn_db c)) = length (audit_logs (conn_db (rs_conn s))) + 1"
    and "replay_accounts (Suc i) ls (s\<lparr>rs_conn := c, rs_replayed := rs_replayed s + 1\<rparr>) s' n b ins bad"
  shows "replay_accounts i (l # ls) s s' n b (l # ins) bad"
  using assms by (auto simp: replay_accounts_def drop_step Suc_diff_Suc Suc_le_eq [symmetric] add.assoc)

lemma accounts_failed:
  assumes "py_strip l \<noteq> []"
    and "replay_accounts (Suc i) ls (s\<lparr>rs_failed := rs_failed s + 1, rs_quarantine := rs_quarantine s @ [l]\<rparr>) s' n b ins bad"
  shows "replay_accounts i (l # ls) s s' n b ins (l # bad)"
  using assms by (auto simp: replay_accounts_def drop_step Suc_diff_Suc Suc_le_eq [symmetric] add.assoc)

lemma replay_loop_accounts:
  assumes "\<And>i l c c'. commit i l c = Some c' \<Longrightarrow> length (audit_logs (conn_db c')) = length (audit_logs (conn_db c)) + 1"
  shows "replay_loop commit stop i ls s = (s', n, stopped) \<Longrightarrow> \<exists>ins bad. replay_accounts i ls s s' n stopped ins bad"
proof (induction ls arbitrary: i s)
  case Nil
  then show ?case by (auto simp: replay_accounts_def)
next
  case (Cons l ls)
  consider "py_strip l = []" | "py_strip l \<noteq> []" "stop = Some (i, False)" |
    c where "py_strip l \<noteq> []" "stop \<noteq> Some (i, False)" "commit i l (rs_conn s) = Some c" |
    "py_strip l \<noteq> []" "stop \<noteq> Some (i, False)" "commit i l (rs_conn s) = None" by (cases "commit i l (rs_conn s)") auto
  then show ?case
  proof cases
    case 1
    with Cons.prems have "replay_loop commit stop (Suc i) ls s = (s', n, stopped)" by simp
    with Cons.IH show ?thesis using accounts_blank [OF 1] by blast
  next
    case 2
    with Cons.prems have "replay_accounts i (l # ls) s s' n stopped [] []" by (simp add: replay_accounts_def)
    then show ?thesis by blast
  next
    case 3
    show ?thesis
    proof (cases "stop = Some (i, True)")
      case True
      with 3 Cons.prems assms have "replay_accounts i (l # ls) s s' n stopped [l] []" by (auto simp: replay_accounts_def)
      then show ?thesis by blast
    next
      case False
      with 3 Cons.prems have "replay_loop commit stop (Suc i) ls (s\<lparr>rs_conn := c, rs_replayed := rs_replayed s + 1\<rparr>) = (s', n, stopped)" by simp
      with Cons.IH show ?thesis using accounts_inserted [OF 3(1)] assms [OF 3(3)] by blast
    qed
  next
    case 4
    then have "replay_loop commit stop (Suc i) ls (s\<lparr>rs_failed := rs_failed s + 1, rs_quarantine := rs_quarantine s @ [l]\<rparr>) = (s', n, stopped)"
      using Cons.prems by simp
    with Cons.IH show ?thesis using accounts_failed [OF 4(1)] by blast
  qed
qed

text \<open>A replay that goes through to the end of its clean-up.\<close>

definition replay_runs :: "disk_answers \<Rightarrow> api_key_principal \<Rightarrow> bool" where
  "replay_runs da p \<longleftrightarrow> is_super_admin p \<and> da_replace da = Replaced \<and> da_readable da \<and> da_quarantine_ok da"

lemma replay_eq:
  assumes "replay_runs da p" and "fs (audit_fallback_path st) = Some content"
    and "replay_loop (\<lambda>i. replay_line fromiso (uid i) now) stop 0 (splitlines content) \<lparr>rs_conn = c, rs_replayed = 0, rs_failed = 0, rs_quarantine = []\<rparr> = (s, n, stopped)"
  shows "replay_audit_fallback fromiso uid now hex da stop st p (Some c) fs =
    (if stopped then ReplayCancelled else ReplayOk (rs_replayed s) (rs_failed s), Some (rs_conn s),
     (append_audit_quarantine (audit_fallback_path st) (rs_quarantine s @ nonblank (drop n (splitlines content)))
        ((fs(audit_fallback_path st := None))(audit_fallback_path st @ ''.replay-'' @ hex \<mapsto> content)))(audit_fallback_path st @ ''.replay-'' @ hex := None))"
  using assms by (simp add: replay_audit_fallback_def replay_runs_def require_super_admin_def Let_def)


text \<open>A fallback file that cannot be read (one torn character is enough to stop the decoder) is deleted by the replay: the call fails,
  no row is inserted, nothing is quarantined, and neither the file nor its snapshot is left.\<close>

theorem replay_loses_unreadable_file:
  assumes "is_super_admin p" and "da_replace da = Replaced" and "\<not> da_readable da" and "fs (audit_fallback_path st) = Some content"
  shows "replay_audit_fallback fromiso uid now hex da stop st p (Some c) fs =
    (ReplayRaised OtherExc, Some c, fs(audit_fallback_path st := None, audit_fallback_path st @ ''.replay-'' @ hex := None))"
  using assms by (simp add: replay_audit_fallback_def require_super_admin_def Let_def)


subsection \<open>From the fallback line back to the row\<close>

lemma fields_columns: "fst ` set (audit_fields request_id q status_code latency cost) \<subseteq> set audit_columns"
  by (simp add: audit_fields_def audit_columns_def Let_def)

lemma json_norm_opt [simp]: "json_norm (opt_str s) = opt_str s"
  by (simp add: opt_str_def split: option.split)

lemma audit_fields_norm:
  "json_norm (PyDict (audit_fields request_id q status_code latency cost)) =
     PyDict (AList.update ''cost_usd'' (PyStr (dec_to_str cost)) (audit_fields request_id q status_code latency cost))"
  by (simp add: audit_fields_def Let_def)

lemma audit_fields_back:
  "audit_fields_from_json fromiso (json_norm (PyDict (audit_fields request_id q status_code latency cost))) =
     Some (audit_fields request_id q status_code latency cost)"
proof -
  let ?f = "audit_fields request_id q status_code latency cost"
  let ?g = "AList.update ''cost_usd'' (PyStr (dec_to_str cost)) ?f"
  have "fst ` set ?g \<subseteq> set audit_columns" using fields_columns [of request_id q status_code latency cost] by (simp add: audit_columns_def)
  then have "\<forall>x \<in> set ?g. fst x \<in> set audit_columns" by blast
  then have "filter (\<lambda>(k, v). k \<in> set audit_columns) ?g = ?g" by (intro filter_True) (simp add: case_prod_beta)
  moreover have "map_of ?g ''cost_usd'' = Some (PyStr (dec_to_str cost))" by simp
  moreover have "AList.update ''cost_usd'' (PyDec cost) ?g = ?f" by (simp add: audit_fields_def Let_def)
  moreover have "map_of ?f ''ts'' = None" by (simp add: audit_fields_def Let_def)
  ultimately show ?thesis
    unfolding audit_fields_norm audit_fields_from_json_def by (simp add: decimal_roundtrip)
qed

lemma replay_line_written:
  assumes "json_plain (PyDict (audit_fields request_id q status_code latency cost))" and "write_ok c" and "i \<notin> a_id ` set (audit_logs (conn_db c))"
  shows "replay_line fromiso i now (audit_line fr (audit_fields request_id q status_code latency cost)) c =
    Some (c\<lparr>conn_db := (conn_db c)\<lparr>audit_logs := audit_logs (conn_db c) @ [the_row i now request_id q status_code latency cost]\<rparr>\<rparr>)"
proof -
  have "json_loads (audit_line fr (audit_fields request_id q status_code latency cost)) = Some (json_norm (PyDict (audit_fields request_id q status_code latency cost)))"
    unfolding audit_line_def by (rule json_roundtrip [OF assms(1)])
  moreover have "a_id (the_row i now request_id q status_code latency cost) = i" by (simp add: the_row_def)
  ultimately show ?thesis using assms(2,3)
    by (simp add: replay_line_def audit_fields_back commit_audit_def audit_row_fields insert_audit_def del: json_norm.simps)
qed


text \<open>What one request leaves: its identifier, its state, the status, the latency and the cost.\<close>

type_synonym audited = "string \<times> request_state \<times> int \<times> int \<times> decimal"

definition fields_of :: "audited \<Rightarrow> (string, pyval) dict" where
  "fields_of x = (case x of (rid, q, status, lat, cost) \<Rightarrow> audit_fields rid q status lat cost)"

definition row_of :: "string \<Rightarrow> int \<Rightarrow> audited \<Rightarrow> audit_log" where
  "row_of i now x = (case x of (rid, q, status, lat, cost) \<Rightarrow> the_row i now rid q status lat cost)"

definition fallback_text :: "(rat \<Rightarrow> string) \<Rightarrow> audited list \<Rightarrow> string" where
  "fallback_text fr xs = concat (map (\<lambda>x. audit_line fr (fields_of x) @ [CHR 0x0A]) xs)"

definition writable :: "audited \<Rightarrow> bool" where
  "writable x \<longleftrightarrow> json_plain (PyDict (fields_of x)) \<and> no_nel (PyDict (fields_of x))"

lemma strip_nonblank: "s \<noteq> [] \<Longrightarrow> \<not> py_isspace (hd s) \<Longrightarrow> py_strip s \<noteq> []"
  by (cases s) (auto simp: py_strip_def)

lemma fallback_lines: "\<forall>x \<in> set xs. writable x \<Longrightarrow> splitlines (fallback_text fr xs) = map (\<lambda>x. audit_line fr (fields_of x)) xs"
proof -
  assume w: "\<forall>x \<in> set xs. writable x"
  have "\<forall>l \<in> set (map (\<lambda>x. audit_line fr (fields_of x)) xs). \<forall>c \<in> set l. \<not> line_end c"
  proof
    fix l assume "l \<in> set (map (\<lambda>x. audit_line fr (fields_of x)) xs)"
    then obtain x where x: "x \<in> set xs" "l = audit_line fr (fields_of x)" by auto
    then have "line_safe (json_dumps fr (PyDict (fields_of x)))" using w by (intro json_line_safe) (simp_all only: writable_def)
    then show "\<forall>c \<in> set l. \<not> line_end c" by (simp only: line_safe_def x audit_line_def)
  qed
  from splitlines_lines [OF this, of "[]"] show ?thesis by (simp add: fallback_text_def comp_def splitlines_def)
qed

lemma replay_loop_written:
  assumes "\<forall>x \<in> set xs. json_plain (PyDict (fields_of x))" and "write_ok (rs_conn s)" and "inj uid"
    and "\<forall>k \<ge> i. uid k \<notin> a_id ` set (audit_logs (conn_db (rs_conn s)))"
  shows "replay_loop (\<lambda>i. replay_line fromiso (uid i) now) None i (map (\<lambda>x. audit_line fr (fields_of x)) xs) s =
    (s\<lparr>rs_conn := (rs_conn s)\<lparr>conn_db := (conn_db (rs_conn s))\<lparr>audit_logs := audit_logs (conn_db (rs_conn s)) @
        map (\<lambda>(k, x). row_of (uid k) now x) (List.enumerate i xs)\<rparr>\<rparr>, rs_replayed := rs_replayed s + length xs\<rparr>, i + length xs, False)"
  using assms
proof (induction xs arbitrary: i s)
  case (Cons x xs)
  obtain rid q sc lat cost where x: "x = (rid, q, sc, lat, cost)" by (metis prod_cases5)
  let ?c = "(rs_conn s)\<lparr>conn_db := (conn_db (rs_conn s))\<lparr>audit_logs := audit_logs (conn_db (rs_conn s)) @ [row_of (uid i) now x]\<rparr>\<rparr>"
  have "replay_line fromiso (uid i) now (audit_line fr (fields_of x)) (rs_conn s) = Some ?c"
    using replay_line_written [of rid q sc lat cost "rs_conn s" "uid i" fromiso now fr] Cons.prems x by (simp add: fields_of_def row_of_def)
  moreover have "py_strip (audit_line fr (fields_of x)) \<noteq> []"
    by (rule strip_nonblank) (simp_all add: audit_line_def py_isspace_def)
  moreover have "\<forall>k \<ge> Suc i. uid k \<notin> a_id ` set (audit_logs (conn_db ?c))"
    using Cons.prems(3,4) x by (auto simp: row_of_def the_row_def dest: injD)
  ultimately show ?case using Cons.IH [of "s\<lparr>rs_conn := ?c, rs_replayed := rs_replayed s + 1\<rparr>" "Suc i"] Cons.prems(1,2,3) by simp
qed simp



subsection \<open>Concrete replays\<close>

definition sample_da :: disk_answers where
  "sample_da = \<lparr>da_replace = Replaced, da_readable = True, da_quarantine_ok = True\<rparr>"

definition sample_super :: api_key_principal where
  "sample_super = \<lparr>p_hash = ''h'', p_key_id = None, p_org_id = None, p_scopes = {''super_admin''}\<rparr>"

definition sample_audited :: audited where
  "sample_audited = (''r1'', new_request_state\<lparr>q_model := Some ''gpt-4o''\<rparr>, 200, 12, Dec 15 (-8))"

abbreviation sample_files :: "string \<Rightarrow> files" where
  "sample_files t \<equiv> Map.empty(audit_fallback_path default_settings \<mapsto> t)"

abbreviation empty_conn :: connection where
  "empty_conn \<equiv> \<lparr>conn_db = empty_db, read_ok = True, write_ok = True\<rparr>"

lemma sample_runs: "replay_runs sample_da sample_super"
  by (simp add: replay_runs_def sample_da_def is_super_admin_def sample_super_def)


theorem replay_loses_unreadable_file_witness:
  "replay_audit_fallback (\<lambda>_. None) nat_str 0 ''x'' (sample_da\<lparr>da_readable := False\<rparr>) None default_settings sample_super (Some empty_conn) (sample_files ''{}'') =
     (ReplayRaised OtherExc, Some empty_conn, Map.empty)"
  using replay_loses_unreadable_file [of sample_super "sample_da\<lparr>da_readable := False\<rparr>" "sample_files ''{}''" default_settings "''{}''" "\<lambda>_. None" nat_str 0 "''x''" None empty_conn]
  by (auto simp: sample_da_def is_super_admin_def sample_super_def fun_eq_iff)


text \<open>A request identifier with U+0085 in it, which a client may send as the byte 133 of a header, breaks its line in two.\<close>

lemma nel_line_never_replayed:
  "splitlines (fallback_text (\<lambda>_. []) [([CHR 0x85], new_request_state, 200, 12, Dec 0 0)]) \<noteq>
     [audit_line (\<lambda>_. []) (fields_of ([CHR 0x85], new_request_state, 200, 12, Dec 0 0))]"
  "list_all (\<lambda>l. json_loads l = None) (splitlines (fallback_text (\<lambda>_. []) [([CHR 0x85], new_request_state, 200, 12, Dec 0 0)]))"
  by code_simp+

end
