(* ===== verification/Net.thy ===== *)
theory Net
  imports Config "HOL-Library.Word"
begin

unbundle bit_operations_syntax

text \<open>
  \<open>app/net.py\<close>: which address a request is counted under. The reading of addresses and networks is that of
  the standard library's \<open>ipaddress\<close> (dotted quads without leading zeros, eight groups with at most one
  \<open>::\<close> and an optional dotted tail, a scope after \<open>%\<close>; a mask as a prefix length, a netmask or a hostmask).
  \<open>None\<close> is \<open>ValueError\<close>.
\<close>

subsection \<open>Addresses\<close>

text \<open>\<open>IPv4Address._parse_octet\<close>.\<close>

definition parse_octet :: "string \<Rightarrow> int option" where
  "parse_octet s =
     (if s = [] \<or> \<not> list_all py_isdecimal s \<or> 3 < length s \<or> (s \<noteq> ''0'' \<and> hd s = CHR ''0'') then None
      else if 255 < digits_val s then None else Some (int (digits_val s)))"

text \<open>The values of all parts, unless one of them is refused.\<close>

fun parse_all :: "('a \<Rightarrow> 'b option) \<Rightarrow> 'a list \<Rightarrow> 'b list option" where
  "parse_all f [] = Some []"
| "parse_all f (x # xs) = (case f x of None \<Rightarrow> None | Some v \<Rightarrow> map_option (Cons v) (parse_all f xs))"

text \<open>Big-endian assembly of \<open>b\<close>-bit groups.\<close>

definition assemble :: "nat \<Rightarrow> int list \<Rightarrow> 'w::len word" where
  "assemble b vs = foldl (\<lambda>w v. push_bit b w OR of_int v) 0 vs"

definition ipv4_from_string :: "string \<Rightarrow> 32 word option" where
  "ipv4_from_string s =
     (let octets = py_split (CHR ''.'') s in
      if s = [] \<or> length octets \<noteq> 4 then None
      else map_option (assemble 8) (parse_all parse_octet octets))"

definition hex_val :: "char \<Rightarrow> int option" where
  "hex_val c = (if py_isdecimal c then Some (int (digit_val c))
     else if 97 \<le> code c \<and> code c \<le> 102 then Some (int (code c) - 87)
     else if 65 \<le> code c \<and> code c \<le> 70 then Some (int (code c) - 55) else None)"

text \<open>\<open>_parse_hextet\<close>; \<open>int('', 16)\<close> raises.\<close>

definition parse_hextet :: "string \<Rightarrow> int option" where
  "parse_hextet s =
     (if s = [] \<or> 4 < length s then None
      else map_option (foldl (\<lambda>n d. 16 * n + d) 0) (parse_all hex_val s))"

text \<open>
  \<open>IPv6Address._ip_int_from_string\<close>. A dotted tail is given as its two groups, which the code prints in
  hexadecimal and reads again: \<open>Inr\<close> is a group already read.
\<close>

definition v6_parts :: "string \<Rightarrow> (string + int) list option" where
  "v6_parts s =
     (let parts = py_split (CHR '':'') s in
      if length parts < 3 then None
      else if CHR ''.'' \<in> set (last parts) then
        (case ipv4_from_string (last parts) of
           None \<Rightarrow> None
         | Some w \<Rightarrow> Some (map Inl (butlast parts) @ [Inr (uint (drop_bit 16 w)), Inr (uint (take_bit 16 w))]))
      else Some (map Inl parts))"

definition parse_group :: "string + int \<Rightarrow> int option" where
  "parse_group g = (case g of Inl s \<Rightarrow> parse_hextet s | Inr n \<Rightarrow> Some n)"

text \<open>The positions strictly inside with nothing between two colons.\<close>

definition skip_positions :: "(string + int) list \<Rightarrow> nat list" where
  "skip_positions parts = filter (\<lambda>i. parts ! i = Inl []) [1..<length parts - 1]"

definition ipv6_from_string :: "string \<Rightarrow> 128 word option" where
  "ipv6_from_string s =
     (case v6_parts s of
        None \<Rightarrow> None
      | Some parts \<Rightarrow>
          if s = [] \<or> 9 < length parts then None
          else (case skip_positions parts of
             [] \<Rightarrow>
               if length parts \<noteq> 8 \<or> hd parts = Inl [] \<or> last parts = Inl [] then None
               else map_option (assemble 16) (parse_all parse_group parts)
           | [i] \<Rightarrow>
               (let lo = length parts - i - 1;
                    parts_hi = (if hd parts = Inl [] then i - 1 else i);
                    parts_lo = (if last parts = Inl [] then lo - 1 else lo)
                in if (hd parts = Inl [] \<and> parts_hi \<noteq> 0) \<or> (last parts = Inl [] \<and> parts_lo \<noteq> 0) \<or>
                      8 \<le> parts_hi + parts_lo then None
                   else (case (parse_all parse_group (take parts_hi parts),
                               parse_all parse_group (drop (length parts - parts_lo) parts)) of
                      (Some hs, Some ls) \<Rightarrow> Some (assemble 16 (hs @ replicate (8 - (parts_hi + parts_lo)) 0 @ ls))
                    | _ \<Rightarrow> None))
           | _ \<Rightarrow> None))"

datatype ip = V4 "32 word" | V6 "128 word" "string option"

text \<open>\<open>_split_scope_id\<close> and the two constructors, tried in the order of \<open>ip_address\<close>.\<close>

definition split_scope_id :: "string \<Rightarrow> (string \<times> string option) option" where
  "split_scope_id s =
     (let (addr, sep, scope) = py_partition (CHR ''%'') s in
      if \<not> sep then Some (addr, None)
      else if scope = [] \<or> CHR ''%'' \<in> set scope then None else Some (addr, Some scope))"

definition ipv4_address :: "string \<Rightarrow> ip option" where
  "ipv4_address s = (if CHR ''/'' \<in> set s then None else map_option V4 (ipv4_from_string s))"

definition ipv6_address :: "string \<Rightarrow> ip option" where
  "ipv6_address s =
     (if CHR ''/'' \<in> set s then None
      else case split_scope_id s of
        None \<Rightarrow> None
      | Some (addr, scope) \<Rightarrow> map_option (\<lambda>w. V6 w scope) (ipv6_from_string addr))"

definition ip_address :: "string \<Rightarrow> ip option" where
  "ip_address s = (case ipv4_address s of Some a \<Rightarrow> Some a | None \<Rightarrow> ipv6_address s)"

subsection \<open>Networks\<close>

datatype ip_net = Net4 "32 word" nat | Net6 "128 word" nat

definition netmask :: "nat \<Rightarrow> 'w::len word" where
  "netmask p = NOT (mask (LENGTH('w) - p))"

text \<open>\<open>_prefix_from_prefix_string\<close>; more than 4300 digits are refused by \<open>int\<close> itself.\<close>

definition prefix_from_string :: "nat \<Rightarrow> string \<Rightarrow> nat option" where
  "prefix_from_string maxlen s =
     (case py_int_digits s of
        Some p \<Rightarrow> if int (length s) \<le> 4300 \<and> p \<le> maxlen then Some p else None
      | None \<Rightarrow> None)"

text \<open>\<open>_prefix_from_ip_int\<close>: a run of ones followed by a run of zeros.\<close>

fun count_trailing_zeros :: "nat \<Rightarrow> 32 word \<Rightarrow> nat" where
  "count_trailing_zeros 0 w = 0"
| "count_trailing_zeros (Suc n) w = (if bit w 0 then 0 else Suc (count_trailing_zeros n (drop_bit 1 w)))"

definition prefix_from_ip_int :: "32 word \<Rightarrow> nat option" where
  "prefix_from_ip_int w =
     (let tz = count_trailing_zeros 32 w; p = 32 - tz
      in if drop_bit tz w = mask p then Some p else None)"

definition prefix_from_ip_string :: "string \<Rightarrow> nat option" where
  "prefix_from_ip_string s =
     (case ipv4_from_string s of
        None \<Rightarrow> None
      | Some w \<Rightarrow> (case prefix_from_ip_int w of Some p \<Rightarrow> Some p | None \<Rightarrow> prefix_from_ip_int (NOT w)))"

definition v4_prefix :: "string \<Rightarrow> nat option" where
  "v4_prefix s = (case prefix_from_string 32 s of Some p \<Rightarrow> Some p | None \<Rightarrow> prefix_from_ip_string s)"

text \<open>\<open>IPv4Network(s, strict=False)\<close> and \<open>IPv6Network(s, strict=False)\<close>: host bits are cleared.\<close>

definition split_netmask :: "string \<Rightarrow> (string \<times> string option) option" where
  "split_netmask s =
     (case py_split (CHR ''/'') s of [a] \<Rightarrow> Some (a, None) | [a, m] \<Rightarrow> Some (a, Some m) | _ \<Rightarrow> None)"

definition ipv4_network :: "string \<Rightarrow> ip_net option" where
  "ipv4_network s =
     (case split_netmask s of
        None \<Rightarrow> None
      | Some (a, m) \<Rightarrow>
          (case (ipv4_address a, case m of None \<Rightarrow> Some 32 | Some x \<Rightarrow> v4_prefix x) of
             (Some (V4 w), Some p) \<Rightarrow> Some (Net4 (w AND netmask p) p)
           | _ \<Rightarrow> None))"

definition ipv6_network :: "string \<Rightarrow> ip_net option" where
  "ipv6_network s =
     (case split_netmask s of
        None \<Rightarrow> None
      | Some (a, m) \<Rightarrow>
          (case (ipv6_address a, case m of None \<Rightarrow> Some 128 | Some x \<Rightarrow> prefix_from_string 128 x) of
             (Some (V6 w _), Some p) \<Rightarrow> Some (Net6 (w AND netmask p) p)
           | _ \<Rightarrow> None))"

definition ip_network :: "string \<Rightarrow> ip_net option" where
  "ip_network s = (case ipv4_network s of Some n \<Rightarrow> Some n | None \<Rightarrow> ipv6_network s)"

text \<open>\<open>address in network\<close>: never across versions.\<close>

fun in_network :: "ip \<Rightarrow> ip_net \<Rightarrow> bool" where
  "in_network (V4 w) (Net4 n p) = (w AND netmask p = n)"
| "in_network (V6 w _) (Net6 n p) = (w AND netmask p = n)"
| "in_network _ _ = False"

subsection \<open>The client of a request\<close>

fun trusts :: "ip \<Rightarrow> string list \<Rightarrow> bool" where
  "trusts remote [] = False"
| "trusts remote (item # items) =
     (let candidate = py_strip item in
      if candidate = [] then trusts remote items
      else case ip_network candidate of
        None \<Rightarrow> trusts remote items
      | Some n \<Rightarrow> if in_network remote n then True else trusts remote items)"

definition is_trusted_proxy :: "string \<Rightarrow> string list \<Rightarrow> bool" where
  "is_trusted_proxy remote_ip trusted =
     (case ip_address remote_ip of None \<Rightarrow> False | Some remote \<Rightarrow> trusts remote trusted)"

text \<open>The peer address (absent for some transports) and the \<open>X-Forwarded-For\<close> header.\<close>

definition client_ip :: "string option \<Rightarrow> string option \<Rightarrow> settings \<Rightarrow> string" where
  "client_ip peer forwarded_for st =
     (let remote_ip = (case peer of Some h \<Rightarrow> h | None \<Rightarrow> ''unknown'') in
      if \<not> trust_forwarded_for st then remote_ip
      else if \<not> is_trusted_proxy remote_ip (trusted_proxies st) then remote_ip
      else case forwarded_for of
        None \<Rightarrow> remote_ip
      | Some ff \<Rightarrow>
          if ff = [] then remote_ip
          else let valid_entries = filter (\<lambda>e. ip_address e \<noteq> None) (csv_items ff) in
            if valid_entries = [] then remote_ip
            else case find (\<lambda>e. \<not> is_trusted_proxy e (trusted_proxies st)) (rev valid_entries) of
              Some e \<Rightarrow> e
            | None \<Rightarrow> hd valid_entries)"

subsection \<open>The forwarded chain\<close>

lemma client_ip_direct:
  "\<not> (trust_forwarded_for st \<and> is_trusted_proxy h (trusted_proxies st)) \<Longrightarrow> client_ip (Some h) ff st = h"
  by (auto simp: client_ip_def)

lemma client_ip_untrusted:
  assumes "trust_forwarded_for st" and "is_trusted_proxy (case peer of Some h \<Rightarrow> h | None \<Rightarrow> ''unknown'') (trusted_proxies st)"
    and "find (\<lambda>e. \<not> is_trusted_proxy e (trusted_proxies st)) (rev (filter (\<lambda>e. ip_address e \<noteq> None) (csv_items ff))) = Some a"
  shows "client_ip peer (Some ff) st = a"
proof -
  have "filter (\<lambda>e. ip_address e \<noteq> None) (csv_items ff) \<noteq> []" using assms(3) by (metis find.simps(1) option.distinct(1) rev.simps(1))
  moreover from this have "ff \<noteq> []" by (auto simp: csv_items_def py_strip_def)
  ultimately show ?thesis using assms by (simp add: client_ip_def Let_def)
qed

lemma client_ip_prefix:
  assumes "e \<in> set (csv_items hops)" and "ip_address e \<noteq> None" and "\<not> is_trusted_proxy e (trusted_proxies st)"
  shows "client_ip peer (Some (forged @ '','' @ hops)) st = client_ip peer (Some hops) st"
proof -
  let ?v = "\<lambda>e. ip_address e \<noteq> None" and ?t = "\<lambda>e. \<not> is_trusted_proxy e (trusted_proxies st)"
  have "find ?t (rev (filter ?v (csv_items hops))) \<noteq> None" using assms by (auto simp: find_None_iff)
  then obtain a where a: "find ?t (rev (filter ?v (csv_items hops))) = Some a" by blast
  then have b: "find ?t (rev (filter ?v (csv_items (forged @ '','' @ hops)))) = Some a"
    by (simp only: csv_items_append filter_append rev_append find_append option.simps)
  show ?thesis
  proof (cases "trust_forwarded_for st \<and> is_trusted_proxy (case peer of Some h \<Rightarrow> h | None \<Rightarrow> ''unknown'') (trusted_proxies st)")
    case True
    then show ?thesis using client_ip_untrusted [OF _ _ a] client_ip_untrusted [OF _ _ b] by metis
  next
    case False
    then show ?thesis by (auto simp: client_ip_def Let_def)
  qed
qed


subsection \<open>Networks as ranges\<close>

text \<open>The dotted form of an address.\<close>

definition octet :: "nat \<Rightarrow> 32 word \<Rightarrow> nat" where
  "octet i w = unat (take_bit 8 (drop_bit (8 * i) w))"

definition dotted :: "32 word \<Rightarrow> string" where
  "dotted w = py_join ''.'' (map (\<lambda>i. nat_str (octet i w)) [3, 2, 1, 0])"

lemma octet_bound: "octet i w < 256"
proof -
  have "unat (take_bit 8 (drop_bit (8 * i) w)) < 2 ^ 8"
    by (metis take_bit_nat_less_exp unsigned_take_bit_eq)
  then show ?thesis by (simp add: octet_def)
qed

lemma parse_octet_nat_str:
  assumes "n < 256" shows "parse_octet (nat_str n) = Some (int n)"
proof -
  have d: "list_all py_isdecimal (nat_str n)" by (auto simp: list_all_iff intro: nat_str_decimal)
  show ?thesis
  proof (cases "n = 0")
    case True then show ?thesis by (simp add: parse_octet_def nat_str_small digit_char_def digits_val_def digit_val_def py_isdecimal_def)
  next
    case False
    then show ?thesis using nat_str_hd [of n] assms d by (simp add: parse_octet_def)
  qed
qed

lemma assemble_octets: "assemble 8 (map int [octet 3 w, octet 2 w, octet 1 w, octet 0 w]) = w"
proof (rule bit_word_eqI)
  fix n assume "n < LENGTH(32)"
  then show "bit (assemble 8 (map int [octet 3 w, octet 2 w, octet 1 w, octet 0 w]) :: 32 word) n = bit w n"
    by (cases "n < 8"; cases "n < 16"; cases "n < 24") (auto simp: assemble_def octet_def bit_simps)
qed

lemma dotted_parts: "py_split (CHR ''.'') (dotted w) = map (\<lambda>i. nat_str (octet i w)) [3, 2, 1, 0]"
  unfolding dotted_def by (rule py_split_join) (auto simp: py_isdecimal_def dest!: nat_str_decimal)

lemma dotted_chars: "c \<in> set (dotted w) \<Longrightarrow> py_isdecimal c \<or> c = CHR ''.''"
  by (auto simp: dotted_def dest: nat_str_decimal)

lemma ipv4_dotted: "ipv4_from_string (dotted w) = Some w"
proof -
  have "dotted w \<noteq> []" by (simp add: dotted_def)
  then show ?thesis
    by (simp add: ipv4_from_string_def dotted_parts parse_octet_nat_str octet_bound assemble_octets [simplified])
qed

lemma ip_address_dotted: "ip_address (dotted w) = Some (V4 w)"
proof -
  have "CHR ''/'' \<notin> set (dotted w)" using dotted_chars [of "CHR ''/''" w] by (auto simp: py_isdecimal_def)
  then show ?thesis by (simp add: ip_address_def ipv4_address_def ipv4_dotted)
qed

lemma and_netmask_eq:
  fixes a b :: "'w::len word"
  shows "a AND netmask p = b AND netmask p \<longleftrightarrow> drop_bit (LENGTH('w) - p) a = drop_bit (LENGTH('w) - p) b"
proof
  assume e: "a AND netmask p = b AND netmask p"
  show "drop_bit (LENGTH('w) - p) a = drop_bit (LENGTH('w) - p) b"
  proof (rule bit_word_eqI)
    fix n assume "n < LENGTH('w)"
    have "bit (a AND netmask p) (LENGTH('w) - p + n) = bit (b AND netmask p) (LENGTH('w) - p + n)" using e by simp
    then show "bit (drop_bit (LENGTH('w) - p) a) n = bit (drop_bit (LENGTH('w) - p) b) n"
      by (auto simp: netmask_def bit_simps dest: bit_imp_le_length)
  qed
next
  assume e: "drop_bit (LENGTH('w) - p) a = drop_bit (LENGTH('w) - p) b"
  show "a AND netmask p = b AND netmask p"
  proof (rule bit_word_eqI)
    fix n assume n: "n < LENGTH('w)"
    show "bit (a AND netmask p) n = bit (b AND netmask p) n"
    proof (cases "n < LENGTH('w) - p")
      case True then show ?thesis by (simp add: netmask_def bit_simps)
    next
      case False
      then have "bit (drop_bit (LENGTH('w) - p) a) (n - (LENGTH('w) - p)) = bit (drop_bit (LENGTH('w) - p) b) (n - (LENGTH('w) - p))"
        using e by simp
      with False show ?thesis by (simp add: netmask_def bit_simps)
    qed
  qed
qed

lemma unat_drop: "drop_bit k a = drop_bit k b \<longleftrightarrow> unat a div 2 ^ k = unat b div 2 ^ k" for a b :: "'w::len word"
  by (metis drop_bit_eq_div word_unat_eq_iff unat_drop_bit_eq)

lemma split_cidr: "split_netmask (dotted b @ ''/'' @ nat_str p) = Some (dotted b, Some (nat_str p))"
proof -
  have "CHR ''/'' \<notin> set (dotted b)" using dotted_chars [of "CHR ''/''" b] by (auto simp: py_isdecimal_def)
  moreover have "CHR ''/'' \<notin> set (nat_str p)" by (auto simp: py_isdecimal_def dest!: nat_str_decimal)
  ultimately show ?thesis by (simp add: split_netmask_def py_split_append py_split_free)
qed


lemma prefix_nat_str: "p \<le> 32 \<Longrightarrow> v4_prefix (nat_str p) = Some p"
  using nat_str_len3 [of p] by (simp add: v4_prefix_def prefix_from_string_def py_int_nat_str)

lemma cidr_strip: "py_strip (dotted b @ ''/'' @ nat_str p) = dotted b @ ''/'' @ nat_str p"
proof (rule py_strip_id)
  have d: "py_isdecimal c \<Longrightarrow> \<not> py_isspace c" for c by (auto simp: py_isdecimal_def py_isspace_def)
  have "hd (dotted b @ ''/'' @ nat_str p) \<in> set (nat_str (octet 3 b))"
    by (simp add: dotted_def hd_append)
  moreover have "last (dotted b @ ''/'' @ nat_str p) \<in> set (nat_str p)" by simp
  ultimately show "dotted b @ ''/'' @ nat_str p = [] \<or> \<not> py_isspace (hd (dotted b @ ''/'' @ nat_str p)) \<and>
      \<not> py_isspace (last (dotted b @ ''/'' @ nat_str p))"
    using d nat_str_decimal by blast
qed

lemma network_cidr: "p \<le> 32 \<Longrightarrow> ip_network (dotted b @ ''/'' @ nat_str p) = Some (Net4 (b AND netmask p) p)"
proof -
  have "CHR ''/'' \<notin> set (dotted b)" using dotted_chars [of "CHR ''/''" b] by (auto simp: py_isdecimal_def)
  moreover assume "p \<le> 32"
  ultimately show ?thesis
    by (simp add: ip_network_def ipv4_network_def split_cidr [simplified] ipv4_address_def ipv4_dotted prefix_nat_str)
qed

text \<open>An address written as a dotted quad is accepted by a network \<open>b/p\<close> exactly when both lie in the same block of
  \<open>2 ^ (32 - p)\<close> addresses, whatever host bits \<open>b\<close> has.\<close>

theorem cidr_membership_exact:
  assumes "p \<le> 32"
  shows "is_trusted_proxy (dotted a) [dotted b @ ''/'' @ nat_str p] \<longleftrightarrow> unat a div 2 ^ (32 - p) = unat b div 2 ^ (32 - p)"
proof -
  have "is_trusted_proxy (dotted a) [dotted b @ ''/'' @ nat_str p] \<longleftrightarrow> a AND netmask p = b AND netmask p"
    using network_cidr [OF assms, of b] cidr_strip [of b p]
    by (simp add: is_trusted_proxy_def ip_address_dotted Let_def)
  also have "\<dots> \<longleftrightarrow> unat a div 2 ^ (32 - p) = unat b div 2 ^ (32 - p)"
    by (simp add: and_netmask_eq unat_drop)
  finally show ?thesis .
qed

subsection \<open>Concrete addresses\<close>

definition sample_proxied :: settings where
  "sample_proxied = default_settings\<lparr>trust_forwarded_for := True, trusted_proxies := [''10.0.0.0/8'', ''fe80::/10'']\<rparr>"


theorem cidr_membership_exact_witness:
  "is_trusted_proxy (dotted 167903489) [dotted 167772161 @ ''/'' @ nat_str 8] \<and> \<not> is_trusted_proxy (dotted 184680705) [dotted 167772161 @ ''/'' @ nat_str 8]"
  using cidr_membership_exact [of 8 167903489 167772161] cidr_membership_exact [of 8 184680705 167772161] by simp

lemma sample_addresses:
  "ip_address ''2001:db8::ff:1.2.3.4'' = Some (V6 42540766411282592856903986046887396100 None)"
  "ip_address ''fe80::1%eth0'' = Some (V6 338288524927261089654018896841347694593 (Some ''eth0''))"
  "ip_address ''1::2::3'' = None" "ip_address ''010.0.0.1'' = None"
  "ip_network ''10.1.2.3/0.0.255.255'' = Some (Net4 167837696 16)"
  by code_simp+

end
