(* ===== verification/Middleware.thy ===== *)
theory Middleware
  imports Net RateLimit Json
begin

text \<open>
  \<open>app/middleware.py\<close>: the limit on request bodies and the limit on failed authentications per client address. An ASGI
  application is a tree: it asks for the next message and goes on with what it gets, or it is done. The server delivers the
  messages of the request in order; when they are used up it reports that the client is gone.
\<close>

definition error_response :: "int \<Rightarrow> string \<Rightarrow> string \<Rightarrow> string \<Rightarrow> (string, string) dict \<Rightarrow> error_response" where
  "error_response status message etype ecode hdrs =
     \<lparr>er_status = status, er_body = openai_error_body message etype (Some ecode), er_headers = hdrs\<rparr>"

subsection \<open>Body size\<close>

datatype message = HttpRequest string | HttpDisconnect

datatype asgi_exc = RequestBodyTooLarge | OtherAsgiExc

text \<open>What \<open>receive\<close> gives the application: a message, or \<open>RequestBodyTooLarge\<close> is raised there.\<close>

datatype 'r asgi = Receive "asgi_exc + message \<Rightarrow> 'r asgi" | Respond 'r | Raise asgi_exc

fun next_message :: "message list \<Rightarrow> message \<times> message list" where
  "next_message [] = (HttpDisconnect, [])"
| "next_message (m # ms) = (m, ms)"

text \<open>The application on its own: its result and the bodies it was handed.\<close>

primrec run_app :: "'r asgi \<Rightarrow> message list \<Rightarrow> (asgi_exc + 'r) \<times> string list" where
  "run_app (Receive k) = (\<lambda>ms.
     let (m, rest) = next_message ms; (r, got) = run_app (k (Inr m)) rest
     in (r, case m of HttpRequest b \<Rightarrow> b # got | HttpDisconnect \<Rightarrow> got))"
| "run_app (Respond x) = (\<lambda>ms. (Inr x, []))"
| "run_app (Raise e) = (\<lambda>ms. (Inl e, []))"

text \<open>The application behind \<open>limited_receive\<close>; \<open>received\<close> is the running total.\<close>

primrec run_limited :: "int \<Rightarrow> 'r asgi \<Rightarrow> int \<Rightarrow> message list \<Rightarrow> (asgi_exc + 'r) \<times> string list" where
  "run_limited max_bytes (Receive k) = (\<lambda>received ms.
     let (m, rest) = next_message ms in
     case m of
       HttpDisconnect \<Rightarrow> run_limited max_bytes (k (Inr m)) received rest
     | HttpRequest b \<Rightarrow>
         let total = received + int (length b) in
         if total > max_bytes then run_limited max_bytes (k (Inl RequestBodyTooLarge)) total rest
         else let (r, got) = run_limited max_bytes (k (Inr m)) total rest in (r, b # got))"
| "run_limited max_bytes (Respond x) = (\<lambda>received ms. (Inr x, []))"
| "run_limited max_bytes (Raise e) = (\<lambda>received ms. (Inl e, []))"

definition too_large_response :: error_response where
  "too_large_response = error_response 413 ''Request body too large'' ''invalid_request_error'' ''request_too_large'' []"

datatype 'r limited_outcome = TooLarge error_response | Answered 'r | Failed asgi_exc

definition body_size_limit :: "int \<Rightarrow> bool \<Rightarrow> string option \<Rightarrow> 'r asgi \<Rightarrow> message list \<Rightarrow> 'r limited_outcome \<times> string list" where
  "body_size_limit max_bytes is_http content_length app ms =
     (if \<not> is_http then (case run_app app ms of (Inr x, got) \<Rightarrow> (Answered x, got) | (Inl e, got) \<Rightarrow> (Failed e, got))
      else if (case content_length of None \<Rightarrow> False
               | Some h \<Rightarrow> (case py_int_str h of Some n \<Rightarrow> n > max_bytes | None \<Rightarrow> False)) then (TooLarge too_large_response, [])
      else case run_limited max_bytes app 0 ms of
        (Inr x, got) \<Rightarrow> (Answered x, got)
      | (Inl RequestBodyTooLarge, got) \<Rightarrow> (TooLarge too_large_response, got)
      | (Inl e, got) \<Rightarrow> (Failed e, got))"

subsection \<open>Failed authentications\<close>

definition rate_limit_response :: "rate_limit_result \<Rightarrow> error_response" where
  "rate_limit_response result = error_response 429 ''Authentication rate limit exceeded'' ''rate_limit_error'' ''rate_limit_exceeded''
     [(''Retry-After'', nat_str (nat (max 1 \<lceil>retry_after_seconds result\<rceil>)))]"

text \<open>The two halves of \<open>dispatch\<close> around the call of the application: \<open>Some\<close> is the response that replaces it.\<close>

definition preauth_check :: "(string \<Rightarrow> rat \<Rightarrow> 's \<Rightarrow> (py_error + rate_limit_result) \<times> 's) \<Rightarrow> string \<Rightarrow> rat \<Rightarrow> 's \<Rightarrow>
    (py_error + error_response option) \<times> 's" where
  "preauth_check preview key now s =
     (case preview key now s of
        (Inl e, s') \<Rightarrow> (Inl e, s')
      | (Inr r, s') \<Rightarrow> (Inr (if allowed r then None else Some (rate_limit_response r)), s'))"

definition preauth_charge :: "(string \<Rightarrow> rat \<Rightarrow> 's \<Rightarrow> (py_error + rate_limit_result) \<times> 's) \<Rightarrow> string \<Rightarrow> rat \<Rightarrow> int \<Rightarrow> 's \<Rightarrow>
    (py_error + error_response option) \<times> 's" where
  "preauth_charge allow key now status s =
     (if status = 401 then
        (case allow key now s of
           (Inl e, s') \<Rightarrow> (Inl e, s')
         | (Inr r, s') \<Rightarrow> (Inr (if allowed r then None else Some (rate_limit_response r)), s'))
      else (Inr None, s))"

datatype 'b dispatched = Limited error_response | Passed int 'b | DispatchRaised

text \<open>\<open>dispatch\<close>: \<open>call\<close> is the response of the application, \<open>None\<close> when it raised.\<close>

definition dispatch :: "int \<Rightarrow> (string \<Rightarrow> rat \<Rightarrow> 's \<Rightarrow> (py_error + rate_limit_result) \<times> 's) \<Rightarrow> (string \<Rightarrow> rat \<Rightarrow> 's \<Rightarrow> (py_error + rate_limit_result) \<times> 's) \<Rightarrow>
    string \<Rightarrow> rat \<Rightarrow> rat \<Rightarrow> (int \<times> 'b) option \<Rightarrow> 's \<Rightarrow> 'b dispatched \<times> 's" where
  "dispatch rpm allow preview key before after call s =
     (if rpm \<le> 0 then (case call of None \<Rightarrow> (DispatchRaised, s) | Some (status, b) \<Rightarrow> (Passed status b, s))
      else case preauth_check preview key before s of
        (Inl e, s1) \<Rightarrow> (DispatchRaised, s1)
      | (Inr (Some resp), s1) \<Rightarrow> (Limited resp, s1)
      | (Inr None, s1) \<Rightarrow>
          (case call of
             None \<Rightarrow> (DispatchRaised, s1)
           | Some (status, b) \<Rightarrow>
               (case preauth_charge allow key after status s1 of
                  (Inl e, s2) \<Rightarrow> (DispatchRaised, s2)
                | (Inr (Some resp), s2) \<Rightarrow> (Limited resp, s2)
                | (Inr None, s2) \<Rightarrow> (Passed status b, s2))))"

text \<open>
  Requests in flight at the same time: between the check and the charge of one request others may pass theirs. \<open>waiting\<close> are the
  addresses of the requests the application works on, \<open>failures\<close> counts the 401 responses that went out per address.
\<close>

record 's preauth_world =
  pw_now :: rat
  pw_limiter :: 's
  pw_waiting :: "string multiset"
  pw_failures :: "string \<Rightarrow> nat"

inductive preauth_reach :: "(string \<Rightarrow> rat \<Rightarrow> 's \<Rightarrow> (py_error + rate_limit_result) \<times> 's) \<Rightarrow> (string \<Rightarrow> rat \<Rightarrow> 's \<Rightarrow> (py_error + rate_limit_result) \<times> 's) \<Rightarrow>
    rat \<Rightarrow> 's \<Rightarrow> 's preauth_world \<Rightarrow> bool" for allow preview t0 s0 where
  start: "preauth_reach allow preview t0 s0 \<lparr>pw_now = t0, pw_limiter = s0, pw_waiting = {#}, pw_failures = (\<lambda>_. 0)\<rparr>"
| arrive: "preauth_reach allow preview t0 s0 w \<Longrightarrow> pw_now w \<le> t \<Longrightarrow> preauth_check preview k t (pw_limiter w) = (Inr None, s) \<Longrightarrow>
    preauth_reach allow preview t0 s0 (w\<lparr>pw_now := t, pw_limiter := s, pw_waiting := add_mset k (pw_waiting w)\<rparr>)"
| refused: "preauth_reach allow preview t0 s0 w \<Longrightarrow> pw_now w \<le> t \<Longrightarrow> preauth_check preview k t (pw_limiter w) = (Inr (Some resp), s) \<Longrightarrow>
    preauth_reach allow preview t0 s0 (w\<lparr>pw_now := t, pw_limiter := s\<rparr>)"
| answered: "preauth_reach allow preview t0 s0 w \<Longrightarrow> pw_now w \<le> t \<Longrightarrow> k \<in># pw_waiting w \<Longrightarrow> preauth_charge allow k t status (pw_limiter w) = (Inr None, s) \<Longrightarrow>
    preauth_reach allow preview t0 s0 (w\<lparr>pw_now := t, pw_limiter := s, pw_waiting := pw_waiting w - {#k#},
      pw_failures := (if status = 401 then (pw_failures w)(k := pw_failures w k + 1) else pw_failures w)\<rparr>)"
| replaced: "preauth_reach allow preview t0 s0 w \<Longrightarrow> pw_now w \<le> t \<Longrightarrow> k \<in># pw_waiting w \<Longrightarrow> preauth_charge allow k t status (pw_limiter w) = (Inr (Some resp), s) \<Longrightarrow>
    preauth_reach allow preview t0 s0 (w\<lparr>pw_now := t, pw_limiter := s, pw_waiting := pw_waiting w - {#k#}\<rparr>)"

subsection \<open>The body limit holds\<close>

definition bytes :: "string list \<Rightarrow> int" where
  "bytes got = (\<Sum>b\<leftarrow>got. int (length b))"

lemma bytes_simps [simp]: "bytes [] = 0" "bytes (b # got) = int (length b) + bytes got"
  by (simp_all add: bytes_def)

definition message_bytes :: "message list \<Rightarrow> int" where
  "message_bytes ms = (\<Sum>m\<leftarrow>ms. case m of HttpRequest b \<Rightarrow> int (length b) | HttpDisconnect \<Rightarrow> 0)"

lemma message_bytes_next: "next_message ms = (m, rest) \<Longrightarrow> message_bytes ms = (case m of HttpRequest b \<Rightarrow> int (length b) | HttpDisconnect \<Rightarrow> 0) + message_bytes rest"
  by (cases ms) (auto simp: message_bytes_def)

lemma message_bytes_nonneg: "0 \<le> message_bytes ms"
  by (auto simp: message_bytes_def intro!: sum_list_nonneg split: message.split)

lemma run_limited_bound: "bytes (snd (run_limited max_bytes app received ms)) \<le> max 0 (max_bytes - received)"
proof (induction app arbitrary: received ms)
  case (Receive k)
  obtain m rest where n: "next_message ms = (m, rest)" by fastforce
  show ?case
  proof (cases m)
    case (HttpRequest b)
    show ?thesis
    proof (cases "received + int (length b) > max_bytes")
      case True
      have "bytes (snd (run_limited max_bytes (k (Inl RequestBodyTooLarge)) (received + int (length b)) rest)) \<le> 0"
        using Receive.IH [of "k (Inl RequestBodyTooLarge)" "received + int (length b)" rest] True by simp
      then show ?thesis using n HttpRequest True by simp
    next
      case False
      then show ?thesis using n HttpRequest Receive.IH [of "k (Inr m)" "received + int (length b)" rest] by (auto split: prod.split)
    qed
  next
    case HttpDisconnect
    then show ?thesis using n Receive.IH [of "k (Inr m)" received rest] by simp
  qed
qed simp_all

text \<open>C20: whatever the application does and however often it asks, it is never handed more body bytes of a request than the limit.\<close>

theorem body_limit_enforced:
  assumes "0 \<le> max_bytes"
  shows "bytes (snd (body_size_limit max_bytes True content_length app ms)) \<le> max_bytes"
proof -
  have "snd (body_size_limit max_bytes True content_length app ms) = [] \<or>
      snd (body_size_limit max_bytes True content_length app ms) = snd (run_limited max_bytes app 0 ms)"
    by (auto simp: body_size_limit_def split: prod.split sum.split asgi_exc.split)
  then show ?thesis using run_limited_bound [of max_bytes app 0 ms] assms by auto
qed

lemma run_limited_eq:
  "received + message_bytes ms \<le> max_bytes \<Longrightarrow> run_limited max_bytes app received ms = run_app app ms"
proof (induction app arbitrary: received ms)
  case (Receive k)
  obtain m rest where n: "next_message ms = (m, rest)" by fastforce
  note b = message_bytes_next [OF n] message_bytes_nonneg [of rest]
  show ?case
  proof (cases m)
    case (HttpRequest x)
    then have "run_limited max_bytes (k (Inr m)) (received + int (length x)) rest = run_app (k (Inr m)) rest"
      using Receive b by simp
    then show ?thesis using n HttpRequest Receive.prems b by simp
  next
    case HttpDisconnect
    then have "run_limited max_bytes (k (Inr m)) received rest = run_app (k (Inr m)) rest" using Receive b by simp
    then show ?thesis using n HttpDisconnect by simp
  qed
qed simp_all

text \<open>A request whose body fits and whose declared length, if readable, fits too is handled exactly as without the limit.\<close>

theorem body_limit_transparent:
  assumes "message_bytes ms \<le> max_bytes" and "\<forall>h n. content_length = Some h \<longrightarrow> py_int_str h = Some n \<longrightarrow> n \<le> max_bytes"
    and "run_app app ms = (Inr x, got)"
  shows "body_size_limit max_bytes True content_length app ms = (Answered x, got)"
  using assms run_limited_eq [of 0 ms max_bytes app] by (cases content_length) (fastforce simp: body_size_limit_def split: option.split)+

text \<open>An oversized declared length is refused before the application sees anything.\<close>

lemma declared_too_large:
  "py_int_str h = Some n \<Longrightarrow> n > max_bytes \<Longrightarrow> body_size_limit max_bytes True (Some h) app ms = (TooLarge too_large_response, [])"
  by (simp add: body_size_limit_def)

subsection \<open>Failed authentications are bounded\<close>

lemma preauth_check_state: "preauth_check preview k t s = (r, s') \<Longrightarrow> s' = snd (preview k t s)"
  by (auto simp: preauth_check_def split: prod.splits sum.splits)

lemma preauth_charge_state: "preauth_charge allow k t status s = (r, s') \<Longrightarrow> s' = (if status = 401 then snd (allow k t s) else s)"
  by (auto simp: preauth_charge_def split: prod.splits sum.splits if_splits)

lemma preauth_charge_passed: "preauth_charge allow k t 401 s = (Inr None, s') \<Longrightarrow> is_allowed (fst (allow k t s))"
  by (auto simp: preauth_charge_def is_allowed_def split: prod.splits sum.splits if_splits)

context exact_rate_limiter
begin

lemma failures_step:
  assumes "inv t s" and "t \<le> t'" and "t' \<le> horizon" and "of_nat n + level s t k \<le> B + t * rate"
  shows "of_nat n + level s t' k \<le> B + t' * rate"
    and "of_nat n + level (snd (preview j t' s)) t' k \<le> B + t' * rate"
    and "of_nat n + level (snd (allow j t' s)) t' k \<le> B + t' * rate"
    and "is_allowed (fst (allow k t' s)) \<Longrightarrow> of_nat (n + 1) + level (snd (allow k t' s)) t' k \<le> B + t' * rate"
proof -
  show a: "of_nat n + level s t' k \<le> B + t' * rate"
    using level_grow [OF assms(1) order.refl assms(2), of k] assms(4) by (simp add: algebra_simps)
  show "of_nat n + level (snd (preview j t' s)) t' k \<le> B + t' * rate"
    using a preview_level [OF assms(1,2) order.refl] by simp
  show "of_nat n + level (snd (allow j t' s)) t' k \<le> B + t' * rate"
    using a allow_level [OF assms(1-3), of k] allow_other [OF assms(1,2) order.refl, of k j] by (cases "j = k") (auto split: if_splits)
  show "is_allowed (fst (allow k t' s)) \<Longrightarrow> of_nat (n + 1) + level (snd (allow k t' s)) t' k \<le> B + t' * rate"
    using a allow_level [OF assms(1-3), of k] is_allowed_allow [OF assms(1,2), of k] by simp
qed

lemma preauth_bound:
  assumes "preauth_reach allow preview t0 s0 w" and "inv t0 s0"
  shows "pw_now w \<le> horizon \<Longrightarrow> inv (pw_now w) (pw_limiter w) \<and>
    of_nat (pw_failures w k) + level (pw_limiter w) (pw_now w) k \<le> (level s0 t0 k - t0 * rate) + pw_now w * rate"
  using assms(1)
proof induction
  case start
  then show ?case using assms(2) by simp
next
  case (arrive w t j s)
  then show ?case using failures_step(2) [of "pw_now w" "pw_limiter w" t] inv_preview [of "pw_now w" "pw_limiter w" t j]
    by (auto dest!: preauth_check_state)
next
  case (refused w t j resp s)
  then show ?case using failures_step(2) [of "pw_now w" "pw_limiter w" t] inv_preview [of "pw_now w" "pw_limiter w" t j]
    by (auto dest!: preauth_check_state)
next
  case (answered w t j status s)
  have w: "inv (pw_now w) (pw_limiter w)" "of_nat (pw_failures w k) + level (pw_limiter w) (pw_now w) k \<le> (level s0 t0 k - t0 * rate) + pw_now w * rate"
    using answered by auto
  note f = failures_step [OF w(1) answered(2) _ w(2)] and s = preauth_charge_state [OF answered(4)]
  show ?case
  proof (cases "status = 401")
    case True
    then have "is_allowed (fst (allow j t (pw_limiter w)))" using preauth_charge_passed answered(4) by metis
    then show ?thesis using True s f inv_allow [OF w(1) answered(2)] answered(6) by auto
  next
    case False
    then show ?thesis using s f(1) inv_later [OF w(1) answered(2)] answered(6) by auto
  qed
next
  case (replaced w t j status resp s)
  have w: "inv (pw_now w) (pw_limiter w)" "of_nat (pw_failures w k) + level (pw_limiter w) (pw_now w) k \<le> (level s0 t0 k - t0 * rate) + pw_now w * rate"
    using replaced by auto
  then show ?case using failures_step [OF w(1) replaced(2) _ w(2)] preauth_charge_state [OF replaced(4)]
      inv_allow [OF w(1) replaced(2)] inv_later [OF w(1) replaced(2)] replaced(6) by auto
qed

end

text \<open>C19: however requests arrive and overlap, the number of 401 responses an address gets is at most the capacity of its bucket plus
  what the elapsed time has refilled.\<close>

theorem failed_auth_bounded:
  assumes "0 < rpm" and "preauth_reach mem_allow mem_preview t0 (new_memory_limiter rpm) w"
  shows "rat_of_nat (pw_failures w k) \<le> of_int rpm + (pw_now w - t0) * (of_int rpm / 60)"
  using mem.preauth_bound [OF assms(2) new_mem_inv [OF assms(1)], of "pw_now w" k]
    mem_level_bounds [of rpm "pw_now w" "pw_limiter w" "pw_now w" k] new_mem_level [OF assms(1), of t0 k]
  by (simp add: refill_rate_def algebra_simps diff_divide_distrib)

subsection \<open>Concrete requests\<close>

text \<open>An application that reads two messages and answers with whether the second could be read.\<close>

definition sample_app :: "bool asgi" where
  "sample_app = Receive (\<lambda>_. Receive (\<lambda>r. Respond (case r of Inr _ \<Rightarrow> True | Inl _ \<Rightarrow> False)))"

theorem body_limit_enforced_witness:
  "fst (body_size_limit 4 True (Some ''x'') sample_app [HttpRequest ''abc'', HttpRequest ''de'']) = Answered False \<and>
   bytes (snd (body_size_limit 4 True (Some ''x'') sample_app [HttpRequest ''abc'', HttpRequest ''de''])) \<le> 4"
proof
  show "fst (body_size_limit 4 True (Some ''x'') sample_app [HttpRequest ''abc'', HttpRequest ''de'']) = Answered False" by code_simp
qed (rule body_limit_enforced, simp)

theorem body_limit_transparent_witness:
  "body_size_limit 5 True (Some '' 5 '') sample_app [HttpRequest ''abc'', HttpRequest ''de''] = (Answered True, [''abc'', ''de''])"
proof (rule body_limit_transparent)
  show "message_bytes [HttpRequest ''abc'', HttpRequest ''de''] \<le> 5" by code_simp
  have "py_int_str '' 5 '' = Some 5" by code_simp
  then show "\<forall>h n. Some '' 5 '' = Some h \<longrightarrow> py_int_str h = Some n \<longrightarrow> n \<le> 5" by simp
  show "run_app sample_app [HttpRequest ''abc'', HttpRequest ''de''] = (Inr True, [''abc'', ''de''])" by code_simp
qed

theorem failed_auth_bounded_witness:
  "\<exists>w. preauth_reach mem_allow mem_preview 0 (new_memory_limiter 2) w \<and> pw_failures w ''ip'' = 1 \<and> rat_of_nat (pw_failures w ''ip'') \<le> 2"
proof -
  let ?w0 = "\<lparr>pw_now = 0, pw_limiter = new_memory_limiter 2, pw_waiting = {#}, pw_failures = (\<lambda>_. 0)\<rparr> :: memory_limiter preauth_world"
  let ?s1 = "snd (preauth_check mem_preview ''ip'' 0 (new_memory_limiter 2))"
  let ?w1 = "?w0\<lparr>pw_now := 0, pw_limiter := ?s1, pw_waiting := add_mset ''ip'' (pw_waiting ?w0)\<rparr>"
  let ?s2 = "snd (preauth_charge mem_allow ''ip'' 0 401 ?s1)"
  let ?w2 = "?w1\<lparr>pw_now := 0, pw_limiter := ?s2, pw_waiting := pw_waiting ?w1 - {#''ip''#}, pw_failures := (pw_failures ?w1)(''ip'' := pw_failures ?w1 ''ip'' + 1)\<rparr>"
  have "fst (preauth_check mem_preview ''ip'' 0 (new_memory_limiter 2)) = Inr None" by code_simp
  then have w1: "preauth_reach mem_allow mem_preview 0 (new_memory_limiter 2) ?w1"
    by (intro preauth_reach.arrive [OF preauth_reach.start]) (simp_all add: prod_eq_iff)
  have "fst (preauth_charge mem_allow ''ip'' 0 401 ?s1) = Inr None" by code_simp
  then have "preauth_reach mem_allow mem_preview 0 (new_memory_limiter 2) ?w2"
    using preauth_reach.answered [OF w1, of 0 "''ip''" 401 ?s2] by (simp add: prod_eq_iff)
  moreover from failed_auth_bounded [OF _ this, of "''ip''"] have "rat_of_nat (pw_failures ?w2 ''ip'') \<le> 2" by simp
  ultimately show ?thesis by (intro exI [of _ ?w2]) simp
qed

end
