(* ===== verification/App.thy ===== *)
theory App
  imports AuditReplay Middleware
begin

text \<open>
  \<open>app/main.py\<close>, \<open>app/db/engine.py\<close> and the two small routers: how the gateway is put together, started and stopped, and
  what a request passes on its way in and out. The framework's part is its documented behaviour: a middleware added later
  stands outside those added earlier. The check of the \<open>Host\<close> header is Starlette's and a parameter, \<open>host_ok\<close>.
\<close>

subsection \<open>The database engine\<close>

record engine =
  en_url :: string
  en_static_pool :: bool
  en_pragmas :: "string list"

definition SQLITE_URL :: string where
  "SQLITE_URL = ''sqlite+aiosqlite:///''"

text \<open>The file whose parent directory is made, if any.\<close>

definition ensure_sqlite_parent_dir :: "string \<Rightarrow> string option" where
  "ensure_sqlite_parent_dir url =
     (if \<not> py_startswith url SQLITE_URL then None
      else let path = drop (length SQLITE_URL) url in if path = '':memory:'' then None else Some path)"

text \<open>The options of the engine and the statements of its connect hook.\<close>

definition create_engine :: "string \<Rightarrow> engine" where
  "create_engine url =
     (let memory = SQLITE_URL @ '':memory:'' in
      \<lparr>en_url = url, en_static_pool = (url = memory),
       en_pragmas = (if py_startswith url SQLITE_URL \<and> url \<noteq> memory
         then [''PRAGMA journal_mode=WAL'', ''PRAGMA busy_timeout=5000'', ''PRAGMA synchronous=NORMAL''] else [])\<rparr>)"

subsection \<open>Building the application\<close>

datatype middleware = TrustedHost "string list" | BodySizeLimit int | PreAuthRateLimit int | RequestId

record app =
  ap_settings :: settings
  ap_jwt_validator :: "(string \<Rightarrow> claims option) option"
  ap_api_key_store :: env_store
  ap_api_key_resolver :: resolver
  ap_rate_limiter :: rate_limit_backend
  ap_pre_auth_rate_limiter :: rate_limit_backend
  ap_stream_limiter :: stream_limiter
  ap_models :: "(string, string) dict"
  ap_docs_url :: "string option"
  ap_openapi_url :: "string option"
  ap_middleware :: "middleware list"
  ap_routers :: "string list"

text \<open>Starlette's \<open>add_middleware\<close> puts the new one in front; the front is the outermost.\<close>

definition add_middleware :: "middleware \<Rightarrow> app \<Rightarrow> app" where
  "add_middleware m a = a\<lparr>ap_middleware := m # ap_middleware a\<rparr>"

definition include_router :: "string \<Rightarrow> app \<Rightarrow> app" where
  "include_router r a = a\<lparr>ap_routers := ap_routers a @ [r]\<rparr>"

primrec limiter_rpm :: "rate_limit_backend \<Rightarrow> int" where
  "limiter_rpm (MemoryBackend ml) = ml_rpm ml"
| "limiter_rpm (RedisBackend rl) = rl_rpm rl"

text \<open>\<open>lg\<close> is the logging module as the program finds it; an unknown level stops the construction.\<close>

definition create_app :: "logging_state \<Rightarrow> (string \<Rightarrow> string) \<Rightarrow> (string \<Rightarrow> 'key option) \<Rightarrow>
    (string \<Rightarrow> 'key \<Rightarrow> string list \<Rightarrow> string option \<Rightarrow> string option \<Rightarrow> string list \<Rightarrow> claims option) \<Rightarrow>
    (string \<Rightarrow> py_error + unit) \<Rightarrow> settings \<Rightarrow> py_error + app" where
  "create_app lg sha signing_key decode connect settings0 =
     bind_res (fst (setup_logging (log_level settings0) lg)) (\<lambda>_.
     (let store = from_plaintext sha (api_keys settings0);
          res = \<lparr>env_keys = store, last_used_interval = api_key_last_used_min_interval_seconds settings0\<rparr>;
          st = discard_raw_api_keys settings0
      in bind_res (build_rate_limit_backend connect st None None) (\<lambda>limiter.
         bind_res (build_rate_limit_backend connect st (Some (pre_auth_rpm_per_ip st)) (Some ''preauth:'')) (\<lambda>pre_auth.
         let a = \<lparr>ap_settings = st, ap_jwt_validator = build_jwt_validator signing_key decode st, ap_api_key_store = store,
                ap_api_key_resolver = res, ap_rate_limiter = limiter, ap_pre_auth_rate_limiter = pre_auth,
                ap_stream_limiter = new_limiter (nat (max_concurrent_streams_per_key st)), ap_models = model_providers st,
                ap_docs_url = (if docs_enabled st then Some ''/docs'' else None),
                ap_openapi_url = (if docs_enabled st then Some ''/openapi.json'' else None),
                ap_middleware = [], ap_routers = []\<rparr>;
             a = add_middleware (TrustedHost (allowed_hosts st)) a;
             a = add_middleware (BodySizeLimit (max_request_bytes st)) a;
             a = add_middleware (PreAuthRateLimit (limiter_rpm pre_auth)) a;
             a = add_middleware RequestId a;
             a = include_router ''health'' a;
             a = include_router ''models'' a;
             a = include_router ''chat'' a;
             a = include_router ''admin'' a
         in Inr a))))"

subsection \<open>Start and stop\<close>

text \<open>
  What the lifespan context sets up: the engine, the sessions over it (with all tables made), no tasks. \<open>conn\<close> is the
  connection to the database, \<open>disk\<close> the files; the set of authentication tasks is never filled by the program.
\<close>

record runtime =
  rt_engine :: "engine option"
  rt_audit :: audit_state
  rt_closed :: "nat list"

definition startup :: "connection \<Rightarrow> files \<Rightarrow> bool \<Rightarrow> settings \<Rightarrow> runtime" where
  "startup conn disk disk_ok st =
     \<lparr>rt_engine = Some (create_engine (database_url st)),
      rt_audit = \<lparr>as_store = \<lparr>st_conn = Some conn, st_files = disk, st_disk_ok = disk_ok\<rparr>, as_tasks = [], as_warned = {}\<rparr>,
      rt_closed = []\<rparr>"

text \<open>The loop over the two limiters: each attribute as the identity of its object, if it is set. Returns those closed.\<close>

fun close_limiters :: "nat option list \<Rightarrow> nat list \<Rightarrow> nat list" where
  "close_limiters [] seen = seen"
| "close_limiters (l # ls) seen =
     (case l of
        None \<Rightarrow> close_limiters ls seen
      | Some i \<Rightarrow> if i \<in> set seen then close_limiters ls seen else close_limiters ls (seen @ [i]))"

definition shutdown :: "(rat \<Rightarrow> string) \<Rightarrow> settings \<Rightarrow> nat option list \<Rightarrow> runtime \<Rightarrow> runtime" where
  "shutdown fr st limiters r =
     r\<lparr>rt_audit := drain_tasks fr st (rt_audit r), rt_closed := close_limiters limiters [], rt_engine := None\<rparr>"

subsection \<open>The small endpoints\<close>

definition health :: "(string, string) dict" where
  "health = [(''status'', ''ok'')]"

definition list_models_endpoint :: "settings \<Rightarrow> exc + api_key_principal \<Rightarrow> (string \<Rightarrow> py_error + rate_limit_result) \<Rightarrow>
    exc + models_response" where
  "list_models_endpoint st auth allow =
     bind_res auth (\<lambda>p.
     bind_res (case allow (p_hash p) of Inl _ \<Rightarrow> Inl OtherExc
               | Inr r \<Rightarrow> (case enforce_rate_limit r p of Inl e \<Rightarrow> Inl (ApiExc e) | Inr p' \<Rightarrow> Inr p')) (\<lambda>_.
     Inr \<lparr>ms_object = ''list'', ms_data = list_models st\<rparr>))"

subsection \<open>A request on its way through the middleware\<close>

record request =
  rq_host :: string
  rq_client :: "string option"
  rq_forwarded_for :: "string option"
  rq_request_id :: "string option"
  rq_content_length :: "string option"

record reply =
  rp_status :: int
  rp_headers :: "(string, string) dict"
  rp_body :: "error_body + string"

definition error_reply :: "error_response \<Rightarrow> reply" where
  "error_reply r = \<lparr>rp_status = er_status r, rp_headers = er_headers r, rp_body = Inl (er_body r)\<rparr>"

text \<open>
  The state the middleware shares, with the closed requests (identifier and status of the entry \<open>request_complete\<close>), and
  what a request meets: the limiter's operations, the clock before and after the call, a fresh identifier.
\<close>

record 's gateway =
  gw_limiter :: 's
  gw_finished :: "(string \<times> int) list"

record 's surroundings =
  su_host_check :: "string list \<Rightarrow> string \<Rightarrow> reply option"
  su_allow :: "string \<Rightarrow> rat \<Rightarrow> 's \<Rightarrow> (py_error + rate_limit_result) \<times> 's"
  su_preview :: "string \<Rightarrow> rat \<Rightarrow> 's \<Rightarrow> (py_error + rate_limit_result) \<times> 's"
  su_before :: rat
  su_after :: rat
  su_fresh_id :: string
  su_settings :: settings

type_synonym 's handler = "request \<Rightarrow> 's gateway \<Rightarrow> ((asgi_exc + reply) \<times> 's gateway) asgi"

text \<open>The router with its exception handlers: it leaves the middleware's state alone.\<close>

primrec settle :: "'s gateway \<Rightarrow> reply asgi \<Rightarrow> ((asgi_exc + reply) \<times> 's gateway) asgi" where
  "settle g (Receive k) = Receive (\<lambda>m. settle g (k m))"
| "settle g (Respond r) = Respond (Inr r, g)"
| "settle g (Raise e) = Respond (Inl e, g)"

text \<open>The application behind \<open>limited_receive\<close>, as an application.\<close>

primrec limit_receive :: "int \<Rightarrow> 'r asgi \<Rightarrow> int \<Rightarrow> 'r asgi" where
  "limit_receive max_bytes (Receive k) = (\<lambda>received. Receive (\<lambda>m.
     case m of
       Inr (HttpRequest b) \<Rightarrow>
         let total = received + int (length b) in
         limit_receive max_bytes (k (if total > max_bytes then Inl RequestBodyTooLarge else m)) total
     | _ \<Rightarrow> limit_receive max_bytes (k m) received))"
| "limit_receive max_bytes (Respond x) = (\<lambda>received. Respond x)"
| "limit_receive max_bytes (Raise e) = (\<lambda>received. Raise e)"

definition close_request :: "string \<Rightarrow> (asgi_exc + reply) \<times> 's gateway \<Rightarrow> (asgi_exc + reply) \<times> 's gateway" where
  "close_request rid x = (case x of
     (Inl e, g) \<Rightarrow> (Inl e, g\<lparr>gw_finished := gw_finished g @ [(rid, 500)]\<rparr>)
   | (Inr rp, g) \<Rightarrow> (Inr (rp\<lparr>rp_headers := AList.update ''x-request-id'' rid (rp_headers rp)\<rparr>),
       g\<lparr>gw_finished := gw_finished g @ [(rid, rp_status rp)]\<rparr>))"

definition charge_reply :: "'s surroundings \<Rightarrow> string \<Rightarrow> (asgi_exc + reply) \<times> 's gateway \<Rightarrow> (asgi_exc + reply) \<times> 's gateway" where
  "charge_reply su key x = (case x of
     (Inl e, g) \<Rightarrow> (Inl e, g)
   | (Inr rp, g) \<Rightarrow> (case preauth_charge (su_allow su) key (su_after su) (rp_status rp) (gw_limiter g) of
       (Inl _, s) \<Rightarrow> (Inl OtherAsgiExc, g\<lparr>gw_limiter := s\<rparr>)
     | (Inr (Some resp), s) \<Rightarrow> (Inr (error_reply resp), g\<lparr>gw_limiter := s\<rparr>)
     | (Inr None, s) \<Rightarrow> (Inr rp, g\<lparr>gw_limiter := s\<rparr>)))"

definition declared_length :: "string option \<Rightarrow> int option" where
  "declared_length header = (case header of None \<Rightarrow> None | Some h \<Rightarrow> py_int_str h)"

definition request_key :: "'s surroundings \<Rightarrow> request \<Rightarrow> string" where
  "request_key su req = client_ip (rq_client req) (rq_forwarded_for req) (su_settings su)"

text \<open>One middleware around a handler, and all of them; the server reads each body to its end.\<close>

fun layer :: "'s surroundings \<Rightarrow> middleware \<Rightarrow> 's handler \<Rightarrow> 's handler" where
  "layer su (TrustedHost hosts) inner req g =
     (case su_host_check su hosts (rq_host req) of None \<Rightarrow> inner req g | Some rp \<Rightarrow> Respond (Inr rp, g))"
| "layer su (BodySizeLimit max_bytes) inner req g =
     (if (case declared_length (rq_content_length req) of Some n \<Rightarrow> n > max_bytes | None \<Rightarrow> False)
      then Respond (Inr (error_reply too_large_response), g)
      else map_asgi (\<lambda>(r, g'). (case r of Inl RequestBodyTooLarge \<Rightarrow> Inr (error_reply too_large_response) | _ \<Rightarrow> r, g'))
        (limit_receive max_bytes (inner req g) 0))"
| "layer su (PreAuthRateLimit rpm) inner req g =
     (if rpm \<le> 0 then inner req g
      else case preauth_check (su_preview su) (request_key su req) (su_before su) (gw_limiter g) of
        (Inl _, s) \<Rightarrow> Respond (Inl OtherAsgiExc, g\<lparr>gw_limiter := s\<rparr>)
      | (Inr (Some resp), s) \<Rightarrow> Respond (Inr (error_reply resp), g\<lparr>gw_limiter := s\<rparr>)
      | (Inr None, s) \<Rightarrow> map_asgi (charge_reply su (request_key su req)) (inner req (g\<lparr>gw_limiter := s\<rparr>)))"
| "layer su RequestId inner req g =
     map_asgi (close_request (request_id_of (rq_request_id req) (su_fresh_id su))) (inner req g)"

definition serve_request :: "'s surroundings \<Rightarrow> app \<Rightarrow> (request \<Rightarrow> reply asgi) \<Rightarrow> 's handler" where
  "serve_request su a router = foldr (layer su) (ap_middleware a) (\<lambda>req g. settle g (router req))"

subsection \<open>Facts\<close>

lemma build_rpm:
  "build_rate_limit_backend connect st rpm pre = Inr b \<Longrightarrow> limiter_rpm b = (case rpm of None \<Rightarrow> rate_limit_rpm st | Some n \<Rightarrow> n)"
  by (auto simp: build_rate_limit_backend_def Let_def new_memory_limiter_def from_url_def split: if_splits option.splits sum.splits)

lemma build_redis:
  "build_rate_limit_backend connect st rpm pre = Inr (RedisBackend rl) \<Longrightarrow> key_prefix rl = (case pre of None \<Rightarrow> ''rl:'' | Some p \<Rightarrow> p)"
  by (auto simp: build_rate_limit_backend_def Let_def from_url_def split: if_splits option.splits sum.splits)

lemma create_app_parts:
  assumes "create_app lg sha sk dec connect st = Inr a"
  shows "ap_settings a = st\<lparr>api_keys := []\<rparr>" "env_keys (ap_api_key_resolver a) = map sha (filter (\<lambda>k. k \<noteq> []) (api_keys st))"
    "ap_api_key_store a = env_keys (ap_api_key_resolver a)"
    "build_rate_limit_backend connect (st\<lparr>api_keys := []\<rparr>) None None = Inr (ap_rate_limiter a)"
    "build_rate_limit_backend connect (st\<lparr>api_keys := []\<rparr>) (Some (pre_auth_rpm_per_ip st)) (Some ''preauth:'') = Inr (ap_pre_auth_rate_limiter a)"
    "ap_middleware a = [RequestId, PreAuthRateLimit (pre_auth_rpm_per_ip st), BodySizeLimit (max_request_bytes st), TrustedHost (allowed_hosts st)]"
  using assms build_rpm [of connect "st\<lparr>api_keys := []\<rparr>" "Some (pre_auth_rpm_per_ip st)"]
  by (auto simp: create_app_def Let_def bind_res_def add_middleware_def include_router_def discard_raw_api_keys_def from_plaintext_def
      split: sum.splits)

lemma run_app_map: "run_app (map_asgi f t) ms = (map_sum id f (fst (run_app t ms)), snd (run_app t ms))"
proof (induction t arbitrary: ms)
  case (Receive k)
  obtain m rest where m: "next_message ms = (m, rest)" by (cases "next_message ms")
  have "run_app (map_asgi f (k (Inr m))) rest = (map_sum id f (fst (run_app (k (Inr m)) rest)), snd (run_app (k (Inr m)) rest))"
    by (rule Receive.IH) simp
  then show ?case by (cases "run_app (k (Inr m)) rest") (simp add: m id_def)
qed auto

text \<open>A handler that answers whatever it receives.\<close>

primrec settled :: "'r asgi \<Rightarrow> bool" where
  "settled (Receive k) \<longleftrightarrow> (\<forall>m. settled (k m))"
| "settled (Respond x) \<longleftrightarrow> True"
| "settled (Raise e) \<longleftrightarrow> False"

lemma settled_run: "settled t \<Longrightarrow> \<exists>x got. run_app t ms = (Inr x, got)"
proof (induction t arbitrary: ms)
  case (Receive k)
  obtain m rest where m: "next_message ms = (m, rest)" by (cases "next_message ms")
  have "settled (k (Inr m))" using Receive.prems by simp
  then obtain x got where "run_app (k (Inr m)) rest = (Inr x, got)" using Receive.IH by blast
  then show ?case by (simp add: m)
qed auto

lemma settled_map [simp]: "settled (map_asgi f t) \<longleftrightarrow> settled t"
  by (induction t) auto

lemma settled_settle [simp]: "settled (settle g t)"
  by (induction t) auto

lemma settled_limit [simp]: "settled t \<Longrightarrow> settled (limit_receive mx t n)"
proof (induction t arbitrary: n)
  case (Receive k)
  then show ?case by (auto simp: Let_def split: sum.split message.split)
qed auto

lemma settled_layer: "(\<And>g. settled (inner req g)) \<Longrightarrow> settled (layer su m inner req g)"
  by (cases m) (auto simp: declared_length_def split: option.split prod.split sum.split)

text \<open>The middlewares leave the list of closed requests alone, the outermost excepted.\<close>

definition keeps_finished :: "'s gateway \<Rightarrow> ((asgi_exc + reply) \<times> 's gateway) asgi \<Rightarrow> bool" where
  "keeps_finished g t \<longleftrightarrow> (\<forall>x \<in> set_asgi t. gw_finished (snd x) = gw_finished g)"

lemma set_limit: "set_asgi (limit_receive mx t n) \<subseteq> set_asgi t"
proof (induction t arbitrary: n)
  case (Receive k)
  show ?case
  proof
    fix x assume "x \<in> set_asgi (limit_receive mx (Receive k) n)"
    then obtain m where "x \<in> set_asgi (case m of Inr (HttpRequest b) \<Rightarrow> let total = n + int (length b) in
         limit_receive mx (k (if total > mx then Inl RequestBodyTooLarge else m)) total
       | _ \<Rightarrow> limit_receive mx (k m) n)" by auto
    then obtain m n' where "x \<in> set_asgi (limit_receive mx (k m) n')"
      by (cases m; cases "projr m") (auto simp: Let_def)
    then show "x \<in> set_asgi (Receive k)" using Receive.IH [of "k m" n'] by auto
  qed
qed auto

lemma keeps_settle: "keeps_finished g (settle g t)"
proof (induction t)
  case (Receive k)
  then show ?case by (auto simp: keeps_finished_def)
qed (auto simp: keeps_finished_def)

lemma charge_finished: "gw_finished (snd (charge_reply su key x)) = gw_finished (snd x)"
  by (auto simp: charge_reply_def split: prod.split sum.split option.split)

lemma keeps_layer:
  assumes "\<And>g. keeps_finished g (inner req g)" and "m \<noteq> RequestId"
  shows "keeps_finished g (layer su m inner req g)"
proof (cases m)
  case (BodySizeLimit mx)
  then show ?thesis using assms(1) [of g] set_limit [of mx "inner req g" 0]
    by (fastforce simp: keeps_finished_def asgi.set_map split: option.split)
next
  case (PreAuthRateLimit rpm)
  have "gw_finished (snd x) = gw_finished g" if "x \<in> set_asgi (inner req (g\<lparr>gw_limiter := s\<rparr>))" for x s
    using assms(1) [of "g\<lparr>gw_limiter := s\<rparr>"] that by (simp add: keeps_finished_def)
  then show ?thesis using PreAuthRateLimit assms(1) [of g]
    by (auto simp: keeps_finished_def asgi.set_map charge_finished split: prod.split sum.split option.split)
qed (use assms in \<open>auto simp: keeps_finished_def split: option.split\<close>)

lemma run_app_set: "run_app t ms = (Inr x, got) \<Longrightarrow> x \<in> set_asgi t"
proof (induction t arbitrary: ms got)
  case (Receive k)
  obtain m rest where m: "next_message ms = (m, rest)" by (cases "next_message ms")
  obtain r got' where r: "run_app (k (Inr m)) rest = (r, got')" by (cases "run_app (k (Inr m)) rest")
  then have "r = Inr x" using Receive.prems m by simp
  then have "x \<in> set_asgi (k (Inr m))" using Receive.IH [of "k (Inr m)"] r by blast
  then show ?case by auto
qed auto


text \<open>An address that has used up its failed authentications is turned away before anything else happens: no part of the body
  is read, the host check and the endpoints do not run, and the refusal is closed and numbered like every other answer.\<close>

theorem blocked_address_turned_away:
  assumes "create_app lg sha sk dec connect st = Inr a" and "0 < pre_auth_rpm_per_ip st"
    and "preauth_check (su_preview su) (request_key su req) (su_before su) (gw_limiter g) = (Inr (Some resp), s)"
  shows "run_app (serve_request su a router req g) ms =
    (Inr (close_request (request_id_of (rq_request_id req) (su_fresh_id su)) (Inr (error_reply resp), g\<lparr>gw_limiter := s\<rparr>)), [])"
  using assms(2-) by (simp add: serve_request_def create_app_parts(6) [OF assms(1)])

text \<open>The layer of the body limit is the middleware of \<open>Middleware\<close>.\<close>

lemma run_limit_receive: "fst (run_app (limit_receive mx t n) ms) = fst (run_limited mx t n ms)"
proof (induction t arbitrary: n ms)
  case (Receive k)
  obtain m rest where m: "next_message ms = (m, rest)" by (cases "next_message ms")
  show ?case using Receive.IH [of "k _"]
    by (auto simp: m Let_def split: message.split prod.split) (metis fst_conv)+
qed auto

lemma body_size_layer:
  assumes "rq_content_length req = cl"
  shows "fst (run_app (layer su (BodySizeLimit mx) (\<lambda>req g. settle g (router req)) req g) ms) =
    (case fst (body_size_limit mx True cl (router req) ms) of
       TooLarge r \<Rightarrow> Inr (Inr (error_reply r), g) | Answered rp \<Rightarrow> Inr (Inr rp, g) | Middleware.Failed e \<Rightarrow> Inr (Inl e, g))"
proof -
  have s: "fst (run_limited mx (settle g t) n ms) = Inr (fst (run_limited mx t n ms), g)" for t n ms
  proof (induction t arbitrary: n ms)
    case (Receive k)
    obtain m rest where m: "next_message ms = (m, rest)" by (cases "next_message ms")
    have "fst (run_limited mx (settle g (k x)) n' ms') = Inr (fst (run_limited mx (k x) n' ms'), g)" for x n' ms'
      by (rule Receive.IH) simp
    then show ?case by (auto simp: m Let_def split: message.split prod.split) (metis fst_conv)+
  qed auto
  obtain r got where r: "run_limited mx (router req) 0 ms = (r, got)" by (cases "run_limited mx (router req) 0 ms")
  then have "fst (run_app (limit_receive mx (settle g (router req)) 0) ms) = Inr (r, g)" by (simp add: run_limit_receive s)
  then show ?thesis using assms r
    by (auto simp: run_app_map body_size_limit_def declared_length_def split: option.split sum.split asgi_exc.split)
qed

lemma resolve_env:
  "env_validate sha (env_keys rs) tok = Some e \<Longrightarrow> p_hash e = sha tok \<Longrightarrow>
    \<exists>p. fst (resolve sha rs now tok sm) = Some p \<and> p_hash p = sha tok"
  by (simp add: resolve_def Let_def key_principal_def split: option.split)

text \<open>The configured plain keys do not outlive the construction of the application: its settings hold none and its key store
  only their digests, and yet each of them still authenticates, on its own or through a row of the database with the same digest.\<close>

theorem raw_keys_discarded:
  assumes "create_app lg sha sk dec connect st = Inr a" and "''api_key'' \<in> set (auth_mode st)" and "k \<in> set (api_keys st)" and "k \<noteq> []"
    and "py_lower scheme = ''bearer''"
  shows "api_keys (ap_settings a) = [] \<and> ap_api_key_store a = map sha (filter (\<lambda>k. k \<noteq> []) (api_keys st)) \<and>
    (\<exists>p. fst (require_api_key sha (ap_api_key_resolver a) (ap_jwt_validator a) (ap_settings a) now (Some (scheme, k)) sm) = Inr p \<and> p_hash p = sha k)"
proof -
  note parts = create_app_parts [OF assms(1)]
  have env: "env_validate sha (env_keys (ap_api_key_resolver a)) k = Some (env_principal (sha k))"
    using assms(3,4) by (auto simp: env_validate_eq parts)
  obtain p sm' where p: "resolve sha (ap_api_key_resolver a) now k sm = (Some p, sm')" "p_hash p = sha k"
    using resolve_env [OF env, of now sm] by (cases "resolve sha (ap_api_key_resolver a) now k sm") (auto simp: env_principal_def)
  then show ?thesis using assms(2,5) parts by (auto simp: require_api_key_def Let_def)
qed

subsection \<open>Two limiters\<close>

text \<open>
  Both limiters over the Redis server they share; a memory backend keeps its buckets to itself. \<open>True\<close> selects the limiter for failed
  authentications.
\<close>

record limiters =
  li_main :: rate_limit_backend
  li_pre_auth :: rate_limit_backend
  li_store :: redis_store

definition use_backend :: "(rat \<Rightarrow> rat) \<Rightarrow> rl_op \<Rightarrow> rat \<Rightarrow> rat \<Rightarrow> rate_limit_backend \<Rightarrow> redis_store \<Rightarrow>
    (py_error + rate_limit_result) \<times> rate_limit_backend \<times> redis_store" where
  "use_backend rt opn now srv b store =
     (case b of
        MemoryBackend ml \<Rightarrow> let (r, ml') = rl_step mem_allow mem_preview now opn ml in (r, MemoryBackend ml', store)
      | RedisBackend rl \<Rightarrow>
          let (r, store') = rl_step (\<lambda>k t s. redis_allow rt rl k t srv s) (\<lambda>k t s. redis_preview rt rl k t srv s) now opn store
          in (Inr r, b, store'))"

definition use_limiter :: "(rat \<Rightarrow> rat) \<Rightarrow> bool \<Rightarrow> rl_op \<times> rat \<times> rat \<Rightarrow> limiters \<Rightarrow> (py_error + rate_limit_result) \<times> limiters" where
  "use_limiter rt pre x l = (case x of (opn, now, srv) \<Rightarrow>
     case use_backend rt opn now srv (if pre then li_pre_auth l else li_main l) (li_store l) of
       (r, b, store') \<Rightarrow> (r, if pre then l\<lparr>li_pre_auth := b, li_store := store'\<rparr> else l\<lparr>li_main := b, li_store := store'\<rparr>))"

text \<open>What a backend sees of the store.\<close>

definition seen_by :: "rate_limit_backend \<Rightarrow> redis_store \<Rightarrow> string \<Rightarrow> redis_bucket option" where
  "seen_by b store k = (case b of MemoryBackend _ \<Rightarrow> None | RedisBackend rl \<Rightarrow> map_of store (key_prefix rl @ k))"

definition apart :: "rate_limit_backend \<Rightarrow> rate_limit_backend \<Rightarrow> bool" where
  "apart a b \<longleftrightarrow> (case (a, b) of (RedisBackend x, RedisBackend y) \<Rightarrow> \<forall>k j. key_prefix x @ k \<noteq> key_prefix y @ j | _ \<Rightarrow> True)"

lemma use_backend_sees:
  assumes "\<forall>k. seen_by b s1 k = seen_by b s2 k"
  shows "fst (use_backend rt opn now srv b s1) = fst (use_backend rt opn now srv b s2)"
proof (cases b)
  case (RedisBackend rl)
  then have "hmget (key_prefix rl @ k) srv s1 = hmget (key_prefix rl @ k) srv s2" for k
    using assms by (simp add: seen_by_def hmget_def)
  then show ?thesis using RedisBackend
    by (cases opn) (auto simp: use_backend_def redis_allow_def redis_preview_def allow_script_def preview_script_def script_refill_def Let_def
        split: prod.split)
qed (simp add: use_backend_def split: prod.split)

lemma use_backend_apart:
  assumes "apart a b" and "use_backend rt opn now srv b store = (r, b', store')"
  shows "seen_by a store' = seen_by a store" "apart a b'"
proof -
  have "seen_by a store' = seen_by a store \<and> apart a b'"
  proof (cases b)
    case (MemoryBackend ml)
    then show ?thesis using assms(2) by (auto simp: use_backend_def apart_def split: prod.splits rate_limit_backend.splits)
  next
    case (RedisBackend rl)
    have b': "b' = b" using assms(2) RedisBackend by (auto simp: use_backend_def split: prod.splits)
    have "map_of store' k = map_of store k" if "\<forall>j. k \<noteq> key_prefix rl @ j" for k
      using assms(2) RedisBackend that
      by (cases opn) (auto simp: use_backend_def redis_allow_def redis_preview_def allow_script_def Let_def update_conv split: prod.splits if_splits)
    then show ?thesis using assms(1) b' RedisBackend
      by (auto simp: seen_by_def apart_def fun_eq_iff split: rate_limit_backend.splits)
  qed
  then show "seen_by a store' = seen_by a store" "apart a b'" by auto
qed

lemma use_limiter_other:
  assumes "apart (if pre then li_pre_auth l else li_main l) (if pre then li_main l else li_pre_auth l)"
    and "l' = snd (use_limiter rt (\<not> pre) x l)"
  shows "apart (if pre then li_pre_auth l' else li_main l') (if pre then li_main l' else li_pre_auth l') \<and>
    (if pre then li_pre_auth l' = li_pre_auth l else li_main l' = li_main l) \<and>
    seen_by (if pre then li_pre_auth l' else li_main l') (li_store l') = seen_by (if pre then li_pre_auth l else li_main l) (li_store l)"
proof -
  obtain opn now srv where x: "x = (opn, now, srv)" by (cases x)
  obtain r b s where u: "use_backend rt opn now srv (if pre then li_main l else li_pre_auth l) (li_store l) = (r, b, s)"
    by (cases "use_backend rt opn now srv (if pre then li_main l else li_pre_auth l) (li_store l)")
  show ?thesis using use_backend_apart [OF assms(1) u] u by (auto simp: assms(2) use_limiter_def x)
qed

definition limiters_of :: "app \<Rightarrow> redis_store \<Rightarrow> limiters" where
  "limiters_of a store = \<lparr>li_main = ap_rate_limiter a, li_pre_auth = ap_pre_auth_rate_limiter a, li_store = store\<rparr>"

lemma limiters_apart:
  assumes "create_app lg sha sk dec connect st = Inr a"
  shows "apart (ap_rate_limiter a) (ap_pre_auth_rate_limiter a)" "apart (ap_pre_auth_rate_limiter a) (ap_rate_limiter a)"
  using build_redis create_app_parts(4,5) [OF assms] by (auto simp: apart_def split: rate_limit_backend.split)

text \<open>C35: the request limit and the limit on failed authentications never disturb each other, in process memory or on the Redis server they
  share: whatever happened on the one, in any number of operations, the other answers as if nothing had.\<close>

theorem limiters_independent:
  assumes "create_app lg sha sk dec connect st = Inr a"
  shows "fst (use_limiter rt pre x (fold (\<lambda>y l. snd (use_limiter rt (\<not> pre) y l)) ys (limiters_of a store))) =
    fst (use_limiter rt pre x (limiters_of a store))"
proof -
  define own where "own l = (if pre then li_pre_auth l else li_main l)" for l :: limiters
  define other where "other l = (if pre then li_main l else li_pre_auth l)" for l :: limiters
  have step: "apart (own l) (other (fold (\<lambda>y l. snd (use_limiter rt (\<not> pre) y l)) ys l)) \<and>
     own (fold (\<lambda>y l. snd (use_limiter rt (\<not> pre) y l)) ys l) = own l \<and>
     seen_by (own l) (li_store (fold (\<lambda>y l. snd (use_limiter rt (\<not> pre) y l)) ys l)) = seen_by (own l) (li_store l)"
    if "apart (own l) (other l)" for l using that
  proof (induction ys arbitrary: l)
    case (Cons y ys)
    have o: "apart (own (snd (use_limiter rt (\<not> pre) y l))) (other (snd (use_limiter rt (\<not> pre) y l)))"
      "own (snd (use_limiter rt (\<not> pre) y l)) = own l"
      "seen_by (own l) (li_store (snd (use_limiter rt (\<not> pre) y l))) = seen_by (own l) (li_store l)"
      using use_limiter_other [OF _ refl, of pre l rt y] Cons.prems by (auto simp: own_def other_def split: if_splits)
    show ?case using Cons.IH [OF o(1)] o by simp
  qed simp
  have "apart (own (limiters_of a store)) (other (limiters_of a store))"
    using limiters_apart [OF assms] by (simp add: own_def other_def limiters_of_def)
  note s = step [OF this]
  have u: "fst (use_limiter rt pre (opn, now, srv) l) = fst (use_backend rt opn now srv (own l) (li_store l))" for opn now srv l
    by (simp add: use_limiter_def own_def split: prod.split)
  show ?thesis using s use_backend_sees [of "own (limiters_of a store)"] by (cases x) (simp add: u)
qed

subsection \<open>Shutdown\<close>

lemma close_limiters_props: "distinct seen \<Longrightarrow> distinct (close_limiters ls seen) \<and> set (close_limiters ls seen) = set seen \<union> {i. Some i \<in> set ls}"
  by (induction ls arbitrary: seen) (auto split: option.split)

text \<open>Stopping runs every waiting audit task, leaves none, closes each limiter once (also if both names hold one object) and drops the engine.\<close>

lemma shutdown_complete:
  "as_tasks (rt_audit (shutdown fr st ls r)) = []"
  "as_store (rt_audit (shutdown fr st ls r)) = fold (insert_audit_log fr st) (as_tasks (rt_audit r)) (as_store (rt_audit r))"
  "distinct (rt_closed (shutdown fr st ls r)) \<and> set (rt_closed (shutdown fr st ls r)) = {i. Some i \<in> set ls}"
  "rt_engine (shutdown fr st ls r) = None"
  using close_limiters_props [of "[]" ls] by (auto simp: shutdown_def drain_tasks_def)

subsection \<open>Examples\<close>

definition sample_logging :: logging_state where
  "sample_logging = \<lparr>lg_handlers = [OtherHandler ''stderr''], lg_level = 30, lg_levels = []\<rparr>"

definition sample_config :: settings where
  "sample_config = default_settings\<lparr>api_keys := [''s3cret''], rate_limit_backend := ''redis'', redis_url := Some ''redis://cache'',
     rate_limit_rpm := 1, pre_auth_rpm_per_ip := 1\<rparr>"

abbreviation sample_create :: "settings \<Rightarrow> py_error + app" where
  "sample_create \<equiv> create_app sample_logging rev (\<lambda>_. None :: unit option) (\<lambda>_ _ _ _ _ _. None) (\<lambda>_. Inr ())"

definition sample_gateway :: app where
  "sample_gateway = projr (sample_create sample_config)"

lemma sample_created: "sample_create sample_config = Inr sample_gateway"
proof -
  have "settings.rate_limit_backend (discard_raw_api_keys sample_config) = ''redis''" "redis_url (discard_raw_api_keys sample_config) = Some ''redis://cache''"
    by (simp_all add: discard_raw_api_keys_def sample_config_def)
  moreover have "py_lower ''redis'' = ''redis''" "fst (setup_logging (log_level sample_config) sample_logging) = Inr ()" by code_simp+
  ultimately have "fst (setup_logging (log_level sample_config) sample_logging) = Inr ()" "\<exists>b. build_rate_limit_backend (\<lambda>_. Inr ()) (discard_raw_api_keys sample_config) rpm pre = Inr b" for rpm pre
    by (simp_all add: build_rate_limit_backend_def Let_def)
  then have "\<exists>a. sample_create sample_config = Inr a"
    unfolding create_app_def Let_def bind_res_def by (metis (no_types, lifting) sum.case(2))
  then show ?thesis by (auto simp: sample_gateway_def)
qed

definition sample_request :: request where
  "sample_request = \<lparr>rq_host = ''api'', rq_client = Some ''10.0.0.7'', rq_forwarded_for = None, rq_request_id = Some ''r-1'', rq_content_length = None\<rparr>"

text \<open>An endpoint that answers 401 without reading the body; a new and a used-up memory limiter of one attempt a minute.\<close>

definition sample_router :: "request \<Rightarrow> reply asgi" where
  "sample_router = (\<lambda>_. Respond \<lparr>rp_status = 401, rp_headers = [], rp_body = Inr []\<rparr>)"

definition sample_surroundings :: "memory_limiter surroundings" where
  "sample_surroundings = \<lparr>su_host_check = (\<lambda>_ _. None), su_allow = mem_allow, su_preview = mem_preview, su_before = 0, su_after = 0,
     su_fresh_id = ''fresh'', su_settings = ap_settings sample_gateway\<rparr>"

definition new_gateway :: "memory_limiter gateway" where
  "new_gateway = \<lparr>gw_limiter = new_memory_limiter 1, gw_finished = []\<rparr>"

definition used_gateway :: "memory_limiter gateway" where
  "used_gateway = new_gateway\<lparr>gw_limiter := snd (mem_allow ''10.0.0.7'' 0 (new_memory_limiter 1))\<rparr>"


theorem blocked_address_turned_away_witness:
  "run_app (serve_request sample_surroundings sample_gateway sample_router sample_request used_gateway) [HttpRequest ''body''] =
    (Inr (Inr \<lparr>rp_status = 429, rp_headers = [(''Retry-After'', ''60''), (''x-request-id'', ''r-1'')],
        rp_body = Inl (er_body (rate_limit_response unlimited))\<rparr>,
      used_gateway\<lparr>gw_finished := [(''r-1'', 429)]\<rparr>), [])"
proof -
  have c: "preauth_check (su_preview sample_surroundings) (request_key sample_surroundings sample_request) (su_before sample_surroundings)
     (gw_limiter used_gateway) = (Inr (Some (rate_limit_response \<lparr>allowed = False, retry_after_seconds = 60, remaining = Finite 0\<rparr>)), gw_limiter used_gateway)"
    by (simp add: request_key_def client_ip_def sample_surroundings_def sample_request_def create_app_parts(1) [OF sample_created] sample_config_def
        default_settings_def) code_simp
  have p: "0 < pre_auth_rpm_per_ip sample_config" by (simp add: sample_config_def)
  show ?thesis unfolding blocked_address_turned_away [OF sample_created p c] by code_simp
qed

theorem raw_keys_discarded_witness:
  "api_keys (ap_settings sample_gateway) = [] \<and> ap_api_key_store sample_gateway = [''terc3s''] \<and>
    (\<exists>p. fst (require_api_key rev (ap_api_key_resolver sample_gateway) (ap_jwt_validator sample_gateway) (ap_settings sample_gateway) 0
       (Some (''Bearer'', ''s3cret'')) None) = Inr p \<and> p_hash p = ''terc3s'')"
proof -
  have l: "py_lower ''Bearer'' = ''bearer''" by code_simp
  show ?thesis using raw_keys_discarded [OF sample_created, of "''s3cret''" "''Bearer''" 0 None] l
    by (simp add: sample_config_def default_settings_def)
qed

theorem limiters_independent_witness:
  "fst (use_limiter id False (OpAllow ''k'', 5, 5) (fold (\<lambda>y l. snd (use_limiter id True y l))
     [(OpAllow ''k'', 4, 4), (OpAllow ''k'', 4, 4)] (limiters_of sample_gateway []))) =
   Inr \<lparr>allowed = True, retry_after_seconds = 0, remaining = Finite 0\<rparr>"
proof -
  have e: "fst (use_limiter id False (OpAllow ''k'', 5, 5) (limiters_of sample_gateway [])) =
     Inr \<lparr>allowed = True, retry_after_seconds = 0, remaining = Finite 0\<rparr>" by code_simp
  show ?thesis using limiters_independent [OF sample_created, of id False "(OpAllow ''k'', 5, 5)" "[(OpAllow ''k'', 4, 4), (OpAllow ''k'', 4, 4)]" "[]"]
    unfolding e by simp
qed

end
