(* ===== verification/Sse.thy ===== *)
theory Sse
  imports Observability
begin

text \<open>
  The text of a streamed answer and the log entries of the chat endpoint (\<open>app/routers/chat.py\<close>, \<open>app/schemas.py\<close>). pydantic's
  \<open>model_dump_json\<close> is the parameter \<open>dump\<close>; which fields it prints, and that absent ones are left out, is in \<open>chunk_dump\<close>.
\<close>

definition sse_data :: "string \<Rightarrow> string" where
  "sse_data payload = ''data: '' @ payload @ [CHR 0x0A, CHR 0x0A]"

definition sse_event :: "string \<Rightarrow> string \<Rightarrow> string" where
  "sse_event event payload = ''event: '' @ event @ [CHR 0x0A] @ ''data: '' @ payload @ [CHR 0x0A, CHR 0x0A]"

definition error_dump :: "error_body \<Rightarrow> pyval" where
  "error_dump b = PyDict [(''error'', PyDict ([(''message'', PyStr (eb_message b)), (''type'', PyStr (eb_type b))]
     @ (if eb_param b then [(''param'', PyNone)] else []) @ [(''code'', opt_str (eb_code b))]))]"

definition stream_timeout_sse :: "(rat \<Rightarrow> string) \<Rightarrow> string" where
  "stream_timeout_sse fr =
     sse_event ''error'' (json_dumps fr (error_dump (openai_error_body ''Stream timed out'' ''server_error'' (Some ''stream_timeout''))))"

text \<open>A field that is left out when it is \<open>None\<close>.\<close>

definition opt_field :: "string \<Rightarrow> string option \<Rightarrow> (string \<times> pyval) list" where
  "opt_field key v = (case v of None \<Rightarrow> [] | Some s \<Rightarrow> [(key, PyStr s)])"

definition chunk_dump :: "chat_chunk \<Rightarrow> pyval" where
  "chunk_dump c = PyDict ([(''id'', PyStr (ck_id c)), (''object'', PyStr ''chat.completion.chunk''), (''created'', PyInt (ck_created c)),
      (''model'', PyStr (ck_model c)),
      (''choices'', PyList (case ck_choice c of
          None \<Rightarrow> []
        | Some (role, content, finish) \<Rightarrow>
            [PyDict ([(''index'', PyInt 0), (''delta'', PyDict (opt_field ''role'' role @ opt_field ''content'' content))]
               @ opt_field ''finish_reason'' finish)]))]
     @ (case ck_usage c of None \<Rightarrow> [] | Some u \<Rightarrow> [(''usage'', usage_dump (Some u))]))"

definition model_dump_json_line :: "(pyval \<Rightarrow> string) \<Rightarrow> chat_chunk \<Rightarrow> string" where
  "model_dump_json_line dump c = dump (chunk_dump c)"

primrec frame_text :: "(pyval \<Rightarrow> string) \<Rightarrow> (rat \<Rightarrow> string) \<Rightarrow> sse \<Rightarrow> string" where
  "frame_text dump fr (SseData c) = sse_data (model_dump_json_line dump c)"
| "frame_text dump fr (SseError b) = sse_data (json_dumps fr (error_dump b))"
| "frame_text dump fr SseTimeout = stream_timeout_sse fr"
| "frame_text dump fr SseDone = sse_data ''[DONE]''"

definition stream_text :: "(pyval \<Rightarrow> string) \<Rightarrow> (rat \<Rightarrow> string) \<Rightarrow> sse list \<Rightarrow> string" where
  "stream_text dump fr frames = concat (map (frame_text dump fr) frames)"

subsection \<open>Log entries of the endpoint\<close>

definition CHAT_LOGGER :: string where
  "CHAT_LOGGER = ''ai_serving.chat''"

definition stream_entry :: "string \<Rightarrow> string option \<Rightarrow> string \<Rightarrow> string \<Rightarrow> int \<Rightarrow> (string \<times> pyval) list \<Rightarrow> log_record" where
  "stream_entry event request_id name model status extra = log_event CHAT_LOGGER event
     ([(''request_id'', opt_str request_id), (''provider'', PyStr name), (''model'', PyStr model), (''status'', PyInt status)] @ extra)"

definition upstream_entry :: "string option \<Rightarrow> api_error \<Rightarrow> log_record" where
  "upstream_entry request_id e =
     \<lparr>lr_level = (case e_upstream e of None \<Rightarrow> ''ERROR'' | Some u \<Rightarrow> if u \<ge> 500 then ''ERROR'' else ''WARNING''),
      lr_name = CHAT_LOGGER, lr_message = ''Upstream provider stream error'',
      lr_extra = Some (PyDict [(''request_id'', opt_str request_id), (''provider_error_class'', PyStr (or_else (e_raw_class e) ''ProviderAPIError'')),
        (''upstream_status'', (case e_upstream e of None \<Rightarrow> PyNone | Some u \<Rightarrow> PyInt u))]),
      lr_exc = None\<rparr>"

text \<open>What \<open>_stream_chunks\<close> and \<open>_stream_timeout_only\<close> log; \<open>exc_class\<close> is the class of an exception that is no \<open>APIError\<close>.\<close>

definition stream_log :: "string option \<Rightarrow> string \<Rightarrow> string \<Rightarrow> string \<Rightarrow> stream_kind \<Rightarrow> log_record list" where
  "stream_log request_id name model exc_class kind =
     (case kind of
        Completed u \<Rightarrow> [stream_entry ''chat_stream_complete'' request_id name model 200 [(''token_usage'', usage_dump u)]]
      | TimedOut \<Rightarrow> [stream_entry ''chat_stream_timeout'' request_id name model 504 []]
      | Chat.Failed (ApiExc e) \<Rightarrow>
          stream_entry ''chat_stream_error'' request_id name model (e_status e) [(''error_type'', PyStr (e_type e))]
          # (if e_class e = ProviderAPIError then [upstream_entry request_id e] else [])
      | Chat.Failed _ \<Rightarrow>
          [\<lparr>lr_level = ''ERROR'', lr_name = CHAT_LOGGER, lr_message = ''Unhandled provider stream error'',
            lr_extra = Some (PyDict [(''request_id'', opt_str request_id), (''provider'', PyStr name), (''model'', PyStr model)]),
            lr_exc = Some exc_class\<rparr>]
      | Disconnected \<Rightarrow> [])"

definition policy_log :: "settings \<Rightarrow> string option \<Rightarrow> policy_match list \<Rightarrow> log_record list" where
  "policy_log st request_id pms =
     (if pms = [] then []
      else [log_event CHAT_LOGGER ''policy_event''
        [(''request_id'', opt_str request_id), (''mode'', PyStr (policy_mode st)),
         (''action'', PyStr (if policy_mode st = ''block'' then ''block'' else ''log'')),
         (''matches'', PyList (map (\<lambda>pm. PyDict [(''rule_id'', PyStr (pm_rule_id pm)), (''count'', PyInt (int (pm_count pm))),
            (''severity'', PyStr (pm_severity pm))]) pms))]])"

definition pii_log :: "string option \<Rightarrow> (string, nat) dict \<Rightarrow> log_record list" where
  "pii_log request_id summary =
     (if summary = [] then []
      else [log_event CHAT_LOGGER ''pii_masked''
        [(''request_id'', opt_str request_id), (''counts'', PyDict (map (\<lambda>(ty, n). (ty, PyInt (int n))) summary))]])"

text \<open>The status a stream is logged with is the one it is audited with.\<close>

definition logged_status :: "log_record \<Rightarrow> int option" where
  "logged_status r = (case lr_extra r of Some (PyDict d) \<Rightarrow> (case map_of d ''status'' of Some (PyInt n) \<Rightarrow> Some n | _ \<Rightarrow> None) | _ \<Rightarrow> None)"

lemma stream_log_status:
  assumes "r \<in> set (stream_log request_id name model exc_class kind)" and "logged_status r = Some n" and "q_audit_status q = None"
  shows "audit_status_code 200 (stream_state kind q) = n"
  using assms
  by (auto simp: stream_log_def stream_entry_def upstream_entry_def log_event_def logged_status_def audit_status_code_def stream_state_def
      split: stream_kind.splits exc.splits if_splits)

end
