(* ===== verification/Smoke.thy ===== *)
theory Smoke
  imports App Sse
begin

text \<open>
  \<open>scripts/smoke_provider.py\<close>: the command-line check of the gateway against the real services. The HTTP client is a
  parameter, \<open>post\<close>: it hands a request body to the gateway in the same process and returns the response or an error, and it
  changes the state \<open>'w\<close> of that gateway, of which \<open>db\<close> is the database. Printed output is a list of lines.
\<close>

subsection \<open>Python values\<close>

text \<open>\<open>v[k]\<close>, \<open>v[i]\<close>, \<open>v.get(k)\<close> and iteration.\<close>

fun py_item :: "pyval \<Rightarrow> string \<Rightarrow> py_error + pyval" where
  "py_item (PyDict d) k = (case map_of d k of None \<Rightarrow> Inl KeyError | Some v \<Rightarrow> Inr v)"
| "py_item _ k = Inl TypeError"

fun py_first :: "pyval \<Rightarrow> py_error + pyval" where
  "py_first (PyList xs) = (case xs of [] \<Rightarrow> Inl IndexError | x # _ \<Rightarrow> Inr x)"
| "py_first (PyTuple xs) = (case xs of [] \<Rightarrow> Inl IndexError | x # _ \<Rightarrow> Inr x)"
| "py_first (PyStr s) = (case s of [] \<Rightarrow> Inl IndexError | c # _ \<Rightarrow> Inr (PyStr [c]))"
| "py_first (PyDict d) = Inl KeyError"
| "py_first _ = Inl TypeError"

fun py_get :: "pyval \<Rightarrow> string \<Rightarrow> pyval \<Rightarrow> py_error + pyval" where
  "py_get (PyDict d) k dflt = Inr (case map_of d k of None \<Rightarrow> dflt | Some v \<Rightarrow> v)"
| "py_get _ k dflt = Inl AttributeError"

fun py_iter :: "pyval \<Rightarrow> py_error + pyval list" where
  "py_iter (PyList xs) = Inr xs"
| "py_iter (PyTuple xs) = Inr xs"
| "py_iter (PyDict d) = Inr (map (\<lambda>(k, v). PyStr k) d)"
| "py_iter (PyStr s) = Inr (map (\<lambda>c. PyStr [c]) s)"
| "py_iter _ = Inl TypeError"

fun join_strs :: "pyval list \<Rightarrow> py_error + string" where
  "join_strs [] = Inr []"
| "join_strs (PyStr s # xs) = bind_res (join_strs xs) (\<lambda>t. Inr (s @ t))"
| "join_strs (_ # xs) = Inl TypeError"

text \<open>\<open>repr\<close> of a string and of a list of strings.\<close>

definition repr_char :: "char \<Rightarrow> char \<Rightarrow> string" where
  "repr_char q c =
     (if c = q \<or> c = CHR 0x5C then [CHR 0x5C, c]
      else if code c = 9 then [CHR 0x5C, CHR ''t''] else if code c = 10 then [CHR 0x5C, CHR ''n'']
      else if code c = 13 then [CHR 0x5C, CHR ''r'']
      else if code c < 32 \<or> (127 \<le> code c \<and> code c \<le> 160) \<or> code c = 173
      then [CHR 0x5C, CHR ''x'', hex_digit (code c div 16), hex_digit (code c mod 16)] else [c])"

definition repr_str :: "string \<Rightarrow> string" where
  "repr_str s =
     (let q = (if CHR 0x27 \<in> set s \<and> CHR 0x22 \<notin> set s then CHR 0x22 else CHR 0x27)
      in [q] @ concat (map (repr_char q) s) @ [q])"

definition repr_strs :: "string list \<Rightarrow> string" where
  "repr_strs xs = ''['' @ py_join '', '' (map repr_str xs) @ '']''"

subsection \<open>Plans and settings\<close>

definition AUTH_TOKEN :: string where
  "AUTH_TOKEN = ''smoke-local-key''"

definition MAX_TOKENS_CAP :: int where
  "MAX_TOKENS_CAP = 64"

definition SELECTED_PROVIDERS :: "string list" where
  "SELECTED_PROVIDERS = [''openai'', ''anthropic'']"

record provider_plan =
  pl_provider :: string
  pl_model :: string
  pl_has_key :: bool
  pl_max_tokens :: int

text \<open>The arguments with their defaults; \<open>argparse\<close> admits three values for \<open>--provider\<close>.\<close>

record arguments =
  ar_run :: bool
  ar_provider :: string
  ar_max_tokens :: int
  ar_openai_model :: string
  ar_anthropic_model :: string
  ar_prompt :: string
  ar_timeout :: rat

definition build_parser :: arguments where
  "build_parser = \<lparr>ar_run = False, ar_provider = ''all'', ar_max_tokens = 16, ar_openai_model = ''gpt-4o-mini'',
     ar_anthropic_model = ''claude-3-5-haiku-latest'', ar_prompt = ''Reply with the single word: pong'', ar_timeout = 60\<rparr>"

definition provider_choices :: "string list" where
  "provider_choices = [''openai'', ''anthropic'', ''all'']"

definition selected_providers :: "string \<Rightarrow> string list" where
  "selected_providers p = (if p = ''all'' then SELECTED_PROVIDERS else [p])"

definition clamp_max_tokens :: "int \<Rightarrow> int \<times> string option" where
  "clamp_max_tokens value =
     (if value > MAX_TOKENS_CAP
      then (MAX_TOKENS_CAP, Some (''WARNING: --max-tokens '' @ int_str value @ '' exceeds the safety cap; using '' @ int_str MAX_TOKENS_CAP @ ''.''))
      else if value < 1 then (1, Some ''WARNING: --max-tokens must be at least 1; using 1.'')
      else (value, None))"

definition load_key_presence :: "settings \<Rightarrow> (string, bool) dict" where
  "load_key_presence st =
     [(''openai'', py_strip (case openai_api_key st of None \<Rightarrow> [] | Some k \<Rightarrow> k) \<noteq> []),
      (''anthropic'', py_strip (case anthropic_api_key st of None \<Rightarrow> [] | Some k \<Rightarrow> k) \<noteq> [])]"

text \<open>\<open>st\<close> are the settings of the environment. A provider that is in neither dictionary raises \<open>KeyError\<close>.\<close>

fun build_plans_for :: "settings \<Rightarrow> arguments \<Rightarrow> int \<Rightarrow> string list \<Rightarrow> py_error + provider_plan list" where
  "build_plans_for st args max_tokens [] = Inr []"
| "build_plans_for st args max_tokens (p # ps) =
     (case (map_of [(''openai'', ar_openai_model args), (''anthropic'', ar_anthropic_model args)] p, map_of (load_key_presence st) p) of
        (Some m, Some k) \<Rightarrow> bind_res (build_plans_for st args max_tokens ps)
          (\<lambda>plans. Inr (\<lparr>pl_provider = p, pl_model = m, pl_has_key = k, pl_max_tokens = max_tokens\<rparr> # plans))
      | _ \<Rightarrow> Inl KeyError)"

definition build_plans :: "settings \<Rightarrow> arguments \<Rightarrow> int \<Rightarrow> py_error + provider_plan list" where
  "build_plans st args max_tokens = build_plans_for st args max_tokens (selected_providers (ar_provider args))"

definition build_smoke_settings :: "settings \<Rightarrow> arguments \<Rightarrow> string \<Rightarrow> settings" where
  "build_smoke_settings st args url = st\<lparr>api_keys := [AUTH_TOKEN], audit_sync := True, database_url := url,
     openai_models := [ar_openai_model args], anthropic_models := [ar_anthropic_model args], max_output_tokens := MAX_TOKENS_CAP\<rparr>"

definition temp_sqlite_url :: "string \<Rightarrow> string \<Rightarrow> string" where
  "temp_sqlite_url tmpdir hex = ''sqlite+aiosqlite:///'' @ tmpdir @ ''/ai-serving-smoke-'' @ hex @ ''.db''"

subsection \<open>Output\<close>

definition ljust :: "nat \<Rightarrow> string \<Rightarrow> string" where
  "ljust w s = s @ replicate (w - length s) (CHR '' '')"

definition column_widths :: "string list \<Rightarrow> string list list \<Rightarrow> nat list" where
  "column_widths headers rows = map (\<lambda>i. foldr max (map (\<lambda>row. length (row ! i)) (headers # rows)) 0) [0..<length headers]"

definition print_table :: "string list \<Rightarrow> string list list \<Rightarrow> string list" where
  "print_table headers rows =
     (let widths = column_widths headers rows in
      [py_join '' | '' (map2 ljust widths headers), py_join ''-+-'' (map (\<lambda>w. replicate w (CHR ''-'')) widths)]
      @ map (\<lambda>row. py_join '' | '' (map2 ljust widths row)) rows)"

definition print_plan :: "provider_plan list \<Rightarrow> string list" where
  "print_plan plans = print_table [''provider'', ''key'', ''model'', ''max_tokens'', ''plan'']
     (map (\<lambda>p. [pl_provider p, if pl_has_key p then ''yes'' else ''no'', pl_model p, int_str (pl_max_tokens p),
        if pl_has_key p then ''WOULD CALL (stream + non-stream)'' else ''SKIP (no key)'']) plans)"

definition truncate_text :: "string \<Rightarrow> nat \<Rightarrow> string" where
  "truncate_text value limit =
     (let normalized = py_join '' '' (py_words value []) in
      if length normalized \<le> limit then normalized else take (limit - 3) normalized @ ''...'')"

subsection \<open>Results\<close>

text \<open>A cell of the result is a number or, before anything is known, a dash.\<close>

datatype 'a cell = Cell 'a | Dash

record check_result =
  cx_provider :: string
  cx_mode :: string
  cx_http_status :: "int cell"
  cx_prompt_tokens :: "int cell"
  cx_completion_tokens :: "int cell"
  cx_total_tokens :: "int cell"
  cx_cost_usd :: "rat cell"
  cx_audit_status :: string
  cx_status :: string
  cx_text :: pyval
  cx_error :: string

definition new_result :: "string \<Rightarrow> string \<Rightarrow> check_result" where
  "new_result p mode = \<lparr>cx_provider = p, cx_mode = mode, cx_http_status = Dash, cx_prompt_tokens = Dash, cx_completion_tokens = Dash,
     cx_total_tokens = Dash, cx_cost_usd = Dash, cx_audit_status = ''missing'', cx_status = ''FAIL'', cx_text = PyStr [], cx_error = []\<rparr>"

fun cell_str :: "('a \<Rightarrow> string) \<Rightarrow> 'a cell \<Rightarrow> string" where
  "cell_str f (Cell x) = f x"
| "cell_str f Dash = ''-''"

text \<open>The lines after the table for one result; a text that is no string has no \<open>split\<close>.\<close>

definition result_notes :: "check_result \<Rightarrow> string list \<times> py_error option" where
  "result_notes r =
     (let err = (if cx_error r \<noteq> [] then [cx_provider r @ '' '' @ cx_mode r @ '' error: '' @ truncate_text (cx_error r) 1000] else []) in
      if py_truthy (cx_text r)
      then (case cx_text r of PyStr s \<Rightarrow> ([cx_provider r @ '' '' @ cx_mode r @ '' response: '' @ truncate_text s 300] @ err, None)
            | _ \<Rightarrow> ([], Some AttributeError))
      else (err, None))"

fun all_notes :: "check_result list \<Rightarrow> string list \<times> py_error option" where
  "all_notes [] = ([], None)"
| "all_notes (r # rs) = (case result_notes r of
     (ls, Some e) \<Rightarrow> (ls, Some e)
   | (ls, None) \<Rightarrow> (let (ms, e) = all_notes rs in (ls @ ms, e)))"

text \<open>The printed lines and the exception that ended the printing, if any; \<open>cost_str\<close> is the \<open>str\<close> of the decimal that the
  database driver returns for a cost.\<close>

definition print_results :: "(rat \<Rightarrow> string) \<Rightarrow> check_result list \<Rightarrow> string list \<times> py_error option" where
  "print_results cost_str rs =
     (let (notes, e) = all_notes rs in
      (print_table [''provider'', ''mode'', ''HTTP'', ''tokens(p/c/t)'', ''cost_usd'', ''audit'', ''result'']
         (map (\<lambda>r. [cx_provider r, cx_mode r, cell_str int_str (cx_http_status r),
            cell_str int_str (cx_prompt_tokens r) @ ''/'' @ cell_str int_str (cx_completion_tokens r) @ ''/'' @ cell_str int_str (cx_total_tokens r),
            cell_str cost_str (cx_cost_usd r), cx_audit_status r, cx_status r]) rs) @ notes, e))"

subsection \<open>Checks\<close>

definition chat_payload :: "provider_plan \<Rightarrow> string \<Rightarrow> bool \<Rightarrow> pyval" where
  "chat_payload plan prompt stream = PyDict
     [(''model'', PyStr (pl_model plan)),
      (''messages'', PyList [PyDict [(''role'', PyStr ''user''), (''content'', PyStr prompt)]]),
      (''stream'', PyBool stream), (''max_tokens'', PyInt (pl_max_tokens plan))]"

text \<open>The response as the HTTP client gives it; the headers have lower-case names.\<close>

record http_response =
  hr_status :: int
  hr_headers :: "(string, string) dict"
  hr_text :: string

datatype smoke_exc = HttpExc string | PyExc py_error

type_synonym 'w client = "pyval \<Rightarrow> 'w \<Rightarrow> (smoke_exc + http_response) \<times> 'w"

definition lift_exc :: "py_error + 'a \<Rightarrow> smoke_exc + 'a" where
  "lift_exc r = (case r of Inl e \<Rightarrow> Inl (PyExc e) | Inr v \<Rightarrow> Inr v)"

text \<open>\<open>fetch_audit\<close>: more than one row raises, as does a database that cannot be read.\<close>

definition fetch_audit :: "connection \<Rightarrow> string \<Rightarrow> smoke_exc + audit_log option" where
  "fetch_audit c request_id =
     (if \<not> read_ok c then Inl (HttpExc ''database'')
      else case scalar_one_or_none (filter (\<lambda>r. a_request_id r = request_id) (audit_logs (conn_db c))) of
        None \<Rightarrow> Inl (HttpExc ''MultipleResultsFound'') | Some r \<Rightarrow> Inr r)"

definition audit_matches :: "audit_log \<Rightarrow> provider_plan \<Rightarrow> bool \<Rightarrow> bool" where
  "audit_matches a plan stream \<longleftrightarrow> a_provider a = Some (pl_provider plan) \<and> a_model a = Some (pl_model plan) \<and> a_total_tokens a > 0 \<and>
     a_cost_usd a \<ge> 0 \<and> a_stream a = stream"

definition validate_audit :: "audit_log option \<Rightarrow> provider_plan \<Rightarrow> bool \<Rightarrow> bool \<times> (check_result \<Rightarrow> check_result)" where
  "validate_audit audit plan stream =
     (case audit of
        None \<Rightarrow> (False, \<lambda>r. r\<lparr>cx_audit_status := ''missing''\<rparr>)
      | Some a \<Rightarrow> (audit_matches a plan stream,
          \<lambda>r. r\<lparr>cx_audit_status := (if audit_matches a plan stream then ''OK'' else ''bad''), cx_prompt_tokens := Cell (a_prompt_tokens a),
            cx_completion_tokens := Cell (a_completion_tokens a), cx_total_tokens := Cell (a_total_tokens a), cx_cost_usd := Cell (a_cost_usd a)\<rparr>))"

text \<open>The body of a non-streamed answer: its content and whether the request counts as good.\<close>

definition read_answer :: "string \<Rightarrow> py_error + pyval \<times> bool" where
  "read_answer t =
     bind_res (case json_loads t of None \<Rightarrow> Inl ValueError | Some v \<Rightarrow> Inr v) (\<lambda>body.
     bind_res (py_item body ''choices'') (\<lambda>choices.
     bind_res (py_first choices) (\<lambda>choice.
     bind_res (py_item choice ''message'') (\<lambda>message.
     bind_res (py_item message ''content'') (\<lambda>content.
     bind_res (py_item body ''usage'') (\<lambda>usage.
     if \<not> py_truthy content then Inr (content, False)
     else bind_res (py_item usage ''total_tokens'') (\<lambda>total.
          bind_res (py_int_of total) (\<lambda>n. Inr (content, n > 0)))))))))"

definition request_id_header :: "http_response \<Rightarrow> py_error + string" where
  "request_id_header resp = (case map_of (hr_headers resp) ''x-request-id'' of None \<Rightarrow> Inl KeyError | Some i \<Rightarrow> Inr i)"

definition finish_check :: "bool \<Rightarrow> string \<Rightarrow> pyval \<Rightarrow> bool \<times> (check_result \<Rightarrow> check_result) \<Rightarrow> check_result \<Rightarrow> check_result" where
  "finish_check ok note content audit r =
     (snd audit r)\<lparr>cx_text := content, cx_status := (if ok \<and> fst audit then ''PASS'' else ''FAIL''), cx_error := (if ok then [] else note)\<rparr>"

definition run_non_stream_check :: "'w client \<Rightarrow> ('w \<Rightarrow> connection) \<Rightarrow> provider_plan \<Rightarrow> string \<Rightarrow> 'w \<Rightarrow> (smoke_exc + check_result) \<times> 'w" where
  "run_non_stream_check post db plan prompt w =
     (let result = new_result (pl_provider plan) ''non-stream'' in
      case post (chat_payload plan prompt False) w of
        (Inl e, w') \<Rightarrow> (Inl e, w')
      | (Inr resp, w') \<Rightarrow>
          let result = result\<lparr>cx_http_status := Cell (hr_status resp)\<rparr> in
          if hr_status resp \<noteq> 200 then (Inr (result\<lparr>cx_error := hr_text resp\<rparr>), w')
          else
            (bind_res (lift_exc (read_answer (hr_text resp))) (\<lambda>(content, ok).
             bind_res (lift_exc (request_id_header resp)) (\<lambda>i.
             bind_res (fetch_audit (db w') i) (\<lambda>audit.
             Inr (finish_check ok ''Response content was empty or usage.total_tokens was not positive.'' content
               (validate_audit audit plan False) result)))), w'))"

text \<open>\<open>parse_sse_body\<close>; the text of a decoding error is a parameter.\<close>

record sse_body =
  sb_chunks :: "pyval list"
  sb_done :: bool
  sb_usage :: bool
  sb_errors :: "string list"

fun add_choices :: "pyval list \<Rightarrow> pyval list \<Rightarrow> py_error + pyval list" where
  "add_choices [] chunks = Inr chunks"
| "add_choices (choice # cs) chunks =
     bind_res (py_get choice ''delta'' PyNone) (\<lambda>d.
     bind_res (py_get (if py_truthy d then d else PyDict []) ''content'' PyNone) (\<lambda>content.
     add_choices cs (if py_truthy content then chunks @ [content] else chunks)))"

definition parse_sse_line :: "(string \<Rightarrow> string) \<Rightarrow> string \<Rightarrow> sse_body \<Rightarrow> py_error + sse_body" where
  "parse_sse_line err line b =
     (if \<not> py_startswith line ''data:'' then Inr b
      else let data = py_strip (drop 5 line) in
        if data = ''[DONE]'' then Inr (b\<lparr>sb_done := True\<rparr>)
        else case json_loads data of
          None \<Rightarrow> Inr (b\<lparr>sb_errors := sb_errors b @ [err data]\<rparr>)
        | Some payload \<Rightarrow>
            bind_res (py_get payload ''usage'' PyNone) (\<lambda>u.
            bind_res (py_get payload ''choices'' (PyList [])) (\<lambda>cs.
            bind_res (py_iter cs) (\<lambda>cs.
            bind_res (add_choices cs (sb_chunks b)) (\<lambda>chunks.
            Inr (b\<lparr>sb_usage := (sb_usage b \<or> u \<noteq> PyNone), sb_chunks := chunks\<rparr>))))))"

fun parse_sse_lines :: "(string \<Rightarrow> string) \<Rightarrow> string list \<Rightarrow> sse_body \<Rightarrow> py_error + sse_body" where
  "parse_sse_lines err [] b = Inr b"
| "parse_sse_lines err (l # ls) b = bind_res (parse_sse_line err l b) (parse_sse_lines err ls)"

definition parse_sse_body :: "(string \<Rightarrow> string) \<Rightarrow> string \<Rightarrow> py_error + sse_body" where
  "parse_sse_body err body = parse_sse_lines err (splitlines body) \<lparr>sb_chunks = [], sb_done = False, sb_usage = False, sb_errors = []\<rparr>"

definition run_stream_check :: "(string \<Rightarrow> string) \<Rightarrow> 'w client \<Rightarrow> ('w \<Rightarrow> connection) \<Rightarrow> provider_plan \<Rightarrow> string \<Rightarrow> 'w \<Rightarrow> (smoke_exc + check_result) \<times> 'w" where
  "run_stream_check err post db plan prompt w =
     (let result = new_result (pl_provider plan) ''stream'' in
      case post (chat_payload plan prompt True) w of
        (Inl e, w') \<Rightarrow> (Inl e, w')
      | (Inr resp, w') \<Rightarrow>
          let result = result\<lparr>cx_http_status := Cell (hr_status resp)\<rparr> in
          if hr_status resp \<noteq> 200 then (Inr (result\<lparr>cx_error := hr_text resp\<rparr>), w')
          else
            let content_type = (case map_of (hr_headers resp) ''content-type'' of None \<Rightarrow> [] | Some t \<Rightarrow> t) in
            (bind_res (lift_exc (parse_sse_body err (hr_text resp))) (\<lambda>b.
             bind_res (lift_exc (join_strs (sb_chunks b))) (\<lambda>content.
             let ok = (py_startswith content_type ''text/event-stream'' \<and> sb_chunks b \<noteq> [] \<and> content \<noteq> [] \<and> sb_done b \<and> sb_usage b \<and>
                   sb_errors b = []);
                 note = ''Stream did not contain valid content chunks and [DONE].'' @
                   (if sb_usage b then [] else '' usage chunk absent.'') @
                   '' content-type='' @ repr_str content_type @ ''; parse_errors='' @ repr_strs (sb_errors b)
             in bind_res (lift_exc (request_id_header resp)) (\<lambda>i.
                bind_res (fetch_audit (db w') i) (\<lambda>audit.
                Inr (finish_check ok note (PyStr content) (validate_audit audit plan True) result))))), w'))"

definition guarded :: "(smoke_exc \<Rightarrow> string) \<Rightarrow> provider_plan \<Rightarrow> string \<Rightarrow> smoke_exc + check_result \<Rightarrow> check_result" where
  "guarded exc_text plan mode r = (case r of Inr x \<Rightarrow> x | Inl e \<Rightarrow> (new_result (pl_provider plan) mode)\<lparr>cx_error := exc_text e\<rparr>)"

definition run_provider_checks :: "(string \<Rightarrow> string) \<Rightarrow> (smoke_exc \<Rightarrow> string) \<Rightarrow> 'w client \<Rightarrow> ('w \<Rightarrow> connection) \<Rightarrow> string \<Rightarrow> provider_plan \<Rightarrow> 'w \<Rightarrow>
    check_result list \<times> 'w" where
  "run_provider_checks err exc_text post db prompt plan w =
     (let (r1, w1) = run_non_stream_check post db plan prompt w;
          (r2, w2) = run_stream_check err post db plan prompt w1
      in ([guarded exc_text plan ''non-stream'' r1, guarded exc_text plan ''stream'' r2], w2))"

fun run_all :: "('p \<Rightarrow> 'w \<Rightarrow> 'r list \<times> 'w) \<Rightarrow> 'p list \<Rightarrow> 'w \<Rightarrow> 'r list \<times> 'w" where
  "run_all f [] w = ([], w)"
| "run_all f (p # ps) w = (let (rs, w1) = f p w; (rest, w2) = run_all f ps w1 in (rs @ rest, w2))"

text \<open>
  What the script meets: the settings of the environment, the temporary directory and a random name in it, how an application
  is created (the parameters of \<open>create_app\<close>) and started, and the client.
\<close>

record ('key, 'w) smoke_world =
  sw_settings :: settings
  sw_tmpdir :: string
  sw_hex :: string
  sw_logging :: logging_state
  sw_sha :: "string \<Rightarrow> string"
  sw_signing_key :: "string \<Rightarrow> 'key option"
  sw_decode :: "string \<Rightarrow> 'key \<Rightarrow> string list \<Rightarrow> string option \<Rightarrow> string option \<Rightarrow> string list \<Rightarrow> claims option"
  sw_connect :: "string \<Rightarrow> py_error + unit"
  sw_start :: "app \<Rightarrow> 'w"
  sw_post :: "'w client"
  sw_db :: "'w \<Rightarrow> connection"
  sw_decode_error :: "string \<Rightarrow> string"
  sw_exc_text :: "smoke_exc \<Rightarrow> string"
  sw_cost_str :: "rat \<Rightarrow> string"

text \<open>\<open>run_smoke\<close>: the exit code or the exception, the output, and the gateway if one was started.\<close>

definition run_smoke :: "('key, 'w) smoke_world \<Rightarrow> arguments \<Rightarrow> (py_error + int) \<times> string list \<times> 'w option" where
  "run_smoke sw args =
     (let (max_tokens, warning) = clamp_max_tokens (ar_max_tokens args);
          out = (case warning of None \<Rightarrow> [] | Some l \<Rightarrow> [l]) in
      case build_plans (sw_settings sw) args max_tokens of
        Inl e \<Rightarrow> (Inl e, out, None)
      | Inr plans \<Rightarrow>
          if \<not> ar_run args
          then (Inr 0, out @ [''DRY-RUN only. No provider clients are constructed and no network calls are made.''] @ print_plan plans, None)
          else
            let runnable = filter pl_has_key plans;
                out = out @ map (\<lambda>p. ''SKIP '' @ pl_provider p @ '': no API key found in environment.'') (filter (\<lambda>p. \<not> pl_has_key p) plans) in
            if runnable = [] then (Inr 0, out @ [''No selected providers have API keys; nothing to run.''], None)
            else case create_app (sw_logging sw) (sw_sha sw) (sw_signing_key sw) (sw_decode sw) (sw_connect sw)
                (build_smoke_settings (sw_settings sw) args (temp_sqlite_url (sw_tmpdir sw) (sw_hex sw))) of
              Inl e \<Rightarrow> (Inl e, out, None)
            | Inr a \<Rightarrow>
                let (results, w) = run_all (run_provider_checks (sw_decode_error sw) (sw_exc_text sw) (sw_post sw) (sw_db sw) (ar_prompt args))
                      runnable (sw_start sw a);
                    (ls, e) = print_results (sw_cost_str sw) results
                in (case e of Some e \<Rightarrow> Inl e
                    | None \<Rightarrow> Inr (if results \<noteq> [] \<and> list_all (\<lambda>r. cx_status r = ''PASS'') results then 0 else 1), out @ ls, Some w))"

subsection \<open>Output fits\<close>

lemma truncate_bound: "3 \<le> limit \<Longrightarrow> length (truncate_text value limit) \<le> limit"
  by (auto simp: truncate_text_def Let_def)

lemma length_ljust: "length s \<le> w \<Longrightarrow> length (ljust w s) = w"
  by (simp add: ljust_def)

lemma length_py_join: "length (py_join sep xs) = sum_list (map length xs) + length sep * (length xs - 1)"
  by (induction sep xs rule: py_join.induct) (auto simp: algebra_simps)

lemma foldr_max_ge: "x \<in> set xs \<Longrightarrow> x \<le> foldr max xs (0 :: nat)"
  by (induction xs) auto

lemma width_enough:
  assumes "row \<in> set (headers # rows)" and "length row = length headers" and "i < length headers"
  shows "length (row ! i) \<le> column_widths headers rows ! i"
proof -
  have "length (row ! i) \<in> set (map (\<lambda>row. length (row ! i)) (headers # rows))" using assms(1) by auto
  from foldr_max_ge [OF this] show ?thesis using assms(3) by (simp add: column_widths_def)
qed

text \<open>All lines of a table have one length, so the columns stand under each other.\<close>

lemma table_aligned:
  assumes "\<forall>row \<in> set rows. length row = length headers" and "l \<in> set (print_table headers rows)"
  shows "length l = sum_list (column_widths headers rows) + 3 * (length headers - 1)"
proof -
  let ?w = "column_widths headers rows"
  have w: "length ?w = length headers" by (simp add: column_widths_def)
  have row: "length (py_join '' | '' (map2 ljust ?w row)) = sum_list ?w + 3 * (length headers - 1)"
    if "row \<in> set (headers # rows)" for row
  proof -
    have r: "length row = length headers" using assms(1) that by auto
    have "map length (map2 ljust ?w row) = ?w"
      by (rule nth_equalityI) (use w r width_enough [OF that r] in \<open>auto simp: length_ljust\<close>)
    then show ?thesis using w r by (simp add: length_py_join)
  qed
  have "length (py_join ''-+-'' (map (\<lambda>w. replicate w (CHR ''-'')) ?w)) = sum_list ?w + 3 * (length headers - 1)"
    by (simp add: length_py_join comp_def w)
  then show ?thesis using assms(2) row by (auto simp: print_table_def Let_def)
qed

subsection \<open>What the script may spend\<close>

text \<open>A client that keeps the bodies it sent.\<close>

definition recording :: "'w client \<Rightarrow> (pyval list \<times> 'w) client" where
  "recording post = (\<lambda>body (sent, w). let (r, w') = post body w in (r, (sent @ [body], w')))"

lemma clamp_bounds: "1 \<le> fst (clamp_max_tokens v) \<and> fst (clamp_max_tokens v) \<le> MAX_TOKENS_CAP"
  by (simp add: clamp_max_tokens_def MAX_TOKENS_CAP_def)

lemma build_plans_facts:
  "build_plans_for st args n ps = Inr plans \<Longrightarrow> length plans = length ps \<and> (\<forall>p \<in> set plans. pl_max_tokens p = n \<and>
     map_of (load_key_presence st) (pl_provider p) = Some (pl_has_key p) \<and> pl_provider p \<in> set ps)"
proof (induction ps arbitrary: plans)
  case (Cons p ps)
  obtain m k where mk: "map_of [(''openai'', ar_openai_model args), (''anthropic'', ar_anthropic_model args)] p = Some m" "map_of (load_key_presence st) p = Some k"
    using Cons.prems by (auto simp del: map_of.simps split: option.splits)
  obtain qs where q: "build_plans_for st args n ps = Inr qs"
    using Cons.prems mk by (cases "build_plans_for st args n ps") (auto simp del: map_of.simps)
  then show ?case using Cons.IH [OF q] Cons.prems mk by (auto simp del: map_of.simps)
qed simp

lemma check_records:
  "fst (snd (run_non_stream_check (recording post) db plan prompt (sent, w))) = sent @ [chat_payload plan prompt False]"
  "fst (snd (run_stream_check err (recording post) db plan prompt (sent, w))) = sent @ [chat_payload plan prompt True]"
  by (auto simp: run_non_stream_check_def run_stream_check_def recording_def Let_def split: prod.split sum.split)

lemma provider_checks_record:
  "fst (snd (run_provider_checks err exc_text (recording post) db prompt plan w)) =
     fst w @ [chat_payload plan prompt False, chat_payload plan prompt True]"
proof -
  obtain r1 sent1 v1 where 1: "run_non_stream_check (recording post) db plan prompt w = (r1, sent1, v1)"
    by (cases "run_non_stream_check (recording post) db plan prompt w") auto
  have "sent1 = fst w @ [chat_payload plan prompt False]" using check_records(1) [of post db plan prompt "fst w" "snd w"] 1 by simp
  then show ?thesis using 1 check_records(2) [of err post db plan prompt sent1 v1]
    by (cases "run_stream_check err (recording post) db plan prompt (sent1, v1)") (simp add: run_provider_checks_def)
qed

lemma run_all_records:
  "fst (snd (run_all (run_provider_checks err exc_text (recording post) db prompt) ps w)) =
     fst w @ concat (map (\<lambda>p. [chat_payload p prompt False, chat_payload p prompt True]) ps)"
proof (induction ps arbitrary: w)
  case (Cons p ps)
  obtain rs w1 where 1: "run_provider_checks err exc_text (recording post) db prompt p w = (rs, w1)"
    by (cases "run_provider_checks err exc_text (recording post) db prompt p w")
  then show ?case using provider_checks_record [of err exc_text post db prompt p w] Cons [of w1]
    by (cases "run_all (run_provider_checks err exc_text (recording post) db prompt) ps w1") simp
qed simp

text \<open>When a gateway was started, and what ran on it.\<close>

lemma smoke_gateway:
  assumes "run_smoke sw args = (res, out, Some w)" and "clamp_max_tokens (ar_max_tokens args) = (n, warn)"
  shows "ar_run args \<and> (\<exists>plans a results. build_plans (sw_settings sw) args n = Inr plans \<and>
    run_all (run_provider_checks (sw_decode_error sw) (sw_exc_text sw) (sw_post sw) (sw_db sw) (ar_prompt args)) (filter pl_has_key plans) (sw_start sw a) = (results, w) \<and>
    (res = Inr 0 \<longrightarrow> list_all (\<lambda>r. cx_status r = ''PASS'') results))"
proof -
  obtain plans where p: "build_plans (sw_settings sw) args n = Inr plans"
    using assms by (cases "build_plans (sw_settings sw) args n") (auto simp: run_smoke_def)
  have run: "ar_run args" "filter pl_has_key plans \<noteq> []" using assms p by (auto simp: run_smoke_def Let_def split: if_splits)
  let ?st = "build_smoke_settings (sw_settings sw) args (temp_sqlite_url (sw_tmpdir sw) (sw_hex sw))"
  obtain a where a: "create_app (sw_logging sw) (sw_sha sw) (sw_signing_key sw) (sw_decode sw) (sw_connect sw) ?st = Inr a"
    using assms p run by (cases "create_app (sw_logging sw) (sw_sha sw) (sw_signing_key sw) (sw_decode sw) (sw_connect sw) ?st") (auto simp: run_smoke_def Let_def)
  obtain results w' where r: "run_all (run_provider_checks (sw_decode_error sw) (sw_exc_text sw) (sw_post sw) (sw_db sw) (ar_prompt args)) (filter pl_has_key plans)
      (sw_start sw a) = (results, w')" by fastforce
  have "w' = w" "res = Inr 0 \<longrightarrow> list_all (\<lambda>r. cx_status r = ''PASS'') results"
    using assms p run a r by (auto simp: run_smoke_def Let_def split: prod.splits option.splits if_splits)
  with p run(1) r show ?thesis by blast
qed

text \<open>The script spends little and only where it may: without \<open>--run\<close> no gateway is started and no request made; with it there are at
  most four requests, only for selected providers whose key is configured, each for between 1 and 64 tokens.\<close>

theorem smoke_spend_bounded:
  assumes "run_smoke (sw\<lparr>sw_post := recording post\<rparr>) args = (res, out, gateway)" and "\<forall>a. fst (sw_start sw a) = []"
  shows "(\<not> ar_run args \<longrightarrow> gateway = None) \<and>
    (case gateway of None \<Rightarrow> True | Some (sent, w) \<Rightarrow> length sent \<le> 4 \<and>
      (\<forall>body \<in> set sent. \<exists>plan stream. body = chat_payload plan (ar_prompt args) stream \<and> 1 \<le> pl_max_tokens plan \<and> pl_max_tokens plan \<le> 64 \<and>
        pl_provider plan \<in> set (selected_providers (ar_provider args)) \<and>
        map_of (load_key_presence (sw_settings sw)) (pl_provider plan) = Some True))"
proof (cases gateway)
  case None
  then show ?thesis by simp
next
  case (Some g)
  obtain n warn where n: "clamp_max_tokens (ar_max_tokens args) = (n, warn)" by (cases "clamp_max_tokens (ar_max_tokens args)")
  obtain plans a results where p: "build_plans (sw_settings sw) args n = Inr plans" and run: "ar_run args"
    and r: "run_all (run_provider_checks (sw_decode_error sw) (sw_exc_text sw) (recording post) (sw_db sw) (ar_prompt args)) (filter pl_has_key plans)
      (sw_start sw a) = (results, g)"
    using smoke_gateway [OF assms(1) [unfolded Some] n] by auto
  have g: "fst g = concat (map (\<lambda>p. [chat_payload p (ar_prompt args) False, chat_payload p (ar_prompt args) True]) (filter pl_has_key plans))"
    using run_all_records [of "sw_decode_error sw" "sw_exc_text sw" post "sw_db sw" "ar_prompt args" "filter pl_has_key plans" "sw_start sw a"] r assms(2) by simp
  have facts: "length plans = length (selected_providers (ar_provider args))" "\<forall>p \<in> set plans. pl_max_tokens p = n \<and>
     map_of (load_key_presence (sw_settings sw)) (pl_provider p) = Some (pl_has_key p) \<and> pl_provider p \<in> set (selected_providers (ar_provider args))"
    using build_plans_facts p unfolding build_plans_def by blast+
  have "length (fst g) = 2 * length (filter pl_has_key plans)" unfolding g by (induction "filter pl_has_key plans") (auto simp: length_concat comp_def sum_list_triv)
  also have "\<dots> \<le> 2 * length plans" by simp
  also have "\<dots> \<le> 4" unfolding facts(1) by (simp add: selected_providers_def SELECTED_PROVIDERS_def)
  finally have "length (fst g) \<le> 4" .
  moreover have "\<exists>plan stream. body = chat_payload plan (ar_prompt args) stream \<and> 1 \<le> pl_max_tokens plan \<and> pl_max_tokens plan \<le> 64 \<and>
      pl_provider plan \<in> set (selected_providers (ar_provider args)) \<and> map_of (load_key_presence (sw_settings sw)) (pl_provider plan) = Some True"
    if b: "body \<in> set (fst g)" for body
  proof -
    obtain plan where "plan \<in> set plans" "pl_has_key plan" "body = chat_payload plan (ar_prompt args) False \<or> body = chat_payload plan (ar_prompt args) True"
      using b unfolding g by auto
    then show ?thesis using facts(2) clamp_bounds [of "ar_max_tokens args"] n by (auto simp: MAX_TOKENS_CAP_def)
  qed
  ultimately show ?thesis using Some run by (cases g) simp
qed

subsection \<open>What a pass means\<close>

text \<open>A request was answered with 200 and is in the audit log, under the identifier of the response, with the right provider, model and mode.\<close>

definition confirmed :: "'w client \<Rightarrow> ('w \<Rightarrow> connection) \<Rightarrow> provider_plan \<Rightarrow> string \<Rightarrow> bool \<Rightarrow> bool" where
  "confirmed post db plan prompt stream \<longleftrightarrow> (\<exists>w resp w' a. post (chat_payload plan prompt stream) w = (Inr resp, w') \<and> hr_status resp = 200 \<and>
     a \<in> set (audit_logs (conn_db (db w'))) \<and> map_of (hr_headers resp) ''x-request-id'' = Some (a_request_id a) \<and> audit_matches a plan stream)"

lemma fetch_audit_found: "fetch_audit c i = Inr (Some a) \<Longrightarrow> a \<in> set (audit_logs (conn_db c)) \<and> a_request_id a = i"
proof -
  assume "fetch_audit c i = Inr (Some a)"
  then have "filter (\<lambda>r. a_request_id r = i) (audit_logs (conn_db c)) = [a]"
    by (auto simp: fetch_audit_def scalar_one_or_none_def split: if_splits option.splits list.splits)
  then have "a \<in> set (filter (\<lambda>r. a_request_id r = i) (audit_logs (conn_db c)))" by simp
  then show ?thesis by simp
qed

lemma finish_pass:
  assumes "cx_status (finish_check ok note content (validate_audit audit plan stream) r) = ''PASS''"
  shows "ok \<and> (\<exists>a. audit = Some a \<and> audit_matches a plan stream)"
  using assms by (cases audit) (auto simp: finish_check_def validate_audit_def split: if_splits)

lemma guarded_pass: "cx_status (guarded exc_text plan mode r) = ''PASS'' \<Longrightarrow> \<exists>x. r = Inr x \<and> cx_status x = ''PASS''"
  by (auto simp: guarded_def new_result_def split: sum.splits)

lemma non_stream_pass:
  assumes "run_non_stream_check post db plan prompt w = (Inr r, w')" and "cx_status r = ''PASS''"
  shows "confirmed post db plan prompt False"
proof -
  obtain resp where resp: "post (chat_payload plan prompt False) w = (Inr resp, w')" "hr_status resp = 200"
    using assms by (auto simp: run_non_stream_check_def Let_def new_result_def split: prod.splits sum.splits if_splits)
  obtain content ok i audit r0 where c: "read_answer (hr_text resp) = Inr (content, ok)" "request_id_header resp = Inr i" "fetch_audit (db w') i = Inr audit"
    "r = finish_check ok ''Response content was empty or usage.total_tokens was not positive.'' content (validate_audit audit plan False) r0"
    using assms resp by (auto simp: run_non_stream_check_def Let_def bind_res_def lift_exc_def split: prod.splits sum.splits if_splits)
  obtain a where "audit = Some a" "audit_matches a plan False" using finish_pass assms(2) c(4) by blast
  then show ?thesis using resp c fetch_audit_found [of "db w'" i a]
    by (auto simp: confirmed_def request_id_header_def split: option.splits)
qed

lemma stream_pass:
  assumes "run_stream_check err post db plan prompt w = (Inr r, w')" and "cx_status r = ''PASS''"
  shows "confirmed post db plan prompt True"
proof -
  obtain resp where resp: "post (chat_payload plan prompt True) w = (Inr resp, w')" "hr_status resp = 200"
    using assms by (auto simp: run_stream_check_def Let_def new_result_def split: prod.splits sum.splits if_splits)
  obtain ok msg content i audit r0 where c: "request_id_header resp = Inr i" "fetch_audit (db w') i = Inr audit"
    "r = finish_check ok msg content (validate_audit audit plan True) r0"
    using assms resp by (auto simp: run_stream_check_def Let_def bind_res_def lift_exc_def split: prod.splits sum.splits if_splits)
  obtain a where "audit = Some a" "audit_matches a plan True" using finish_pass assms(2) c(3) by blast
  then show ?thesis using resp c fetch_audit_found [of "db w'" i a]
    by (auto simp: confirmed_def request_id_header_def split: option.splits)
qed

lemma checks_pass:
  assumes "run_provider_checks err exc_text post db prompt plan w = (rs, w')" and "list_all (\<lambda>r. cx_status r = ''PASS'') rs"
  shows "confirmed post db plan prompt False \<and> confirmed post db plan prompt True"
proof -
  obtain r1 w1 where 1: "run_non_stream_check post db plan prompt w = (r1, w1)" by fastforce
  obtain r2 w2 where 2: "run_stream_check err post db plan prompt w1 = (r2, w2)" by fastforce
  have "cx_status (guarded exc_text plan ''non-stream'' r1) = ''PASS''" "cx_status (guarded exc_text plan ''stream'' r2) = ''PASS''"
    using assms 1 2 by (auto simp: run_provider_checks_def)
  then show ?thesis using guarded_pass non_stream_pass stream_pass 1 2 by metis
qed

lemma run_all_pass:
  assumes "run_all (run_provider_checks err exc_text post db prompt) ps w = (rs, w')" and "list_all (\<lambda>r. cx_status r = ''PASS'') rs" and "p \<in> set ps"
  shows "confirmed post db p prompt False \<and> confirmed post db p prompt True"
  using assms
proof (induction ps arbitrary: w rs)
  case (Cons q ps)
  obtain r1 w1 where 1: "run_provider_checks err exc_text post db prompt q w = (r1, w1)" by fastforce
  obtain r2 w2 where 2: "run_all (run_provider_checks err exc_text post db prompt) ps w1 = (r2, w2)" by fastforce
  have rs: "rs = r1 @ r2" "w' = w2" using Cons.prems(1) 1 2 by auto
  show ?case
  proof (cases "p = q")
    case True
    then show ?thesis using checks_pass [OF 1] Cons.prems(2) rs by simp
  next
    case False
    then show ?thesis using Cons.IH [of w1 r2] 2 Cons.prems(2,3) rs by auto
  qed
qed simp


subsection \<open>Reading the gateway's streams\<close>

text \<open>What is relied on of \<open>model_dump_json\<close>: the text is the JSON of the value, on one line, without blanks at its ends.\<close>

definition reads_back :: "(pyval \<Rightarrow> string) \<Rightarrow> pyval \<Rightarrow> bool" where
  "reads_back dump v \<longleftrightarrow> json_loads (dump v) = Some v \<and> line_safe (dump v) \<and> py_strip (dump v) = dump v"

text \<open>What one frame adds to the parsed body.\<close>

definition chunk_texts :: "chat_chunk \<Rightarrow> string list" where
  "chunk_texts c = (case ck_choice c of Some (_, Some t, _) \<Rightarrow> if t = [] then [] else [t] | _ \<Rightarrow> [])"

fun frame_adds :: "sse \<Rightarrow> sse_body \<Rightarrow> sse_body" where
  "frame_adds (SseData c) b = b\<lparr>sb_usage := (sb_usage b \<or> ck_usage c \<noteq> None), sb_chunks := sb_chunks b @ map PyStr (chunk_texts c)\<rparr>"
| "frame_adds SseDone b = b\<lparr>sb_done := True\<rparr>"
| "frame_adds _ b = b"

fun frame_ok :: "(pyval \<Rightarrow> string) \<Rightarrow> sse \<Rightarrow> bool" where
  "frame_ok dump (SseData c) = reads_back dump (chunk_dump c)"
| "frame_ok dump SseDone = True"
| "frame_ok dump (SseError b) = False"
| "frame_ok dump SseTimeout = False"

lemma splitlines_from_line: "line_safe x \<Longrightarrow> splitlines_from cur (x @ CHR 0x0A # s) = (rev cur @ x) # splitlines_from [] s"
  by (rule splitlines_line) (simp add: line_safe_def)

lemma splitlines_data: "line_safe x \<Longrightarrow> splitlines (sse_data x @ s) = (''data: '' @ x) # [] # splitlines s"
proof -
  assume "line_safe x"
  then have "line_safe (''data: '' @ x)" by (simp add: line_end_def)
  from splitlines_from_line [OF this, of "[]" "CHR 0x0A # s"] splitlines_from_line [of "[]" "[]" s]
  show ?thesis by (simp add: splitlines_def sse_data_def)
qed

lemma strip_space: "py_strip (CHR '' '' # x) = py_strip x"
  by (simp add: py_strip_def py_isspace_def)

lemma chunk_not_done: "json_loads x = Some (chunk_dump c) \<Longrightarrow> x \<noteq> ''[DONE]''"
proof
  assume "json_loads x = Some (chunk_dump c)" "x = ''[DONE]''"
  moreover have "json_loads ''[DONE]'' = None" by code_simp
  ultimately show False by simp
qed

lemma chunk_dump_get:
  "py_get (chunk_dump c) ''usage'' PyNone = Inr (case ck_usage c of None \<Rightarrow> PyNone | Some u \<Rightarrow> usage_dump (Some u))"
  "\<exists>xs. py_get (chunk_dump c) ''choices'' d = Inr (PyList xs) \<and> (\<forall>chunks. add_choices xs chunks = Inr (chunks @ map PyStr (chunk_texts c)))"
  by (auto simp: chunk_dump_def chunk_texts_def opt_field_def split: option.split prod.split)

lemma parse_data_line:
  assumes "reads_back dump (chunk_dump c)"
  shows "parse_sse_line err (''data: '' @ model_dump_json_line dump c) b = Inr (frame_adds (SseData c) b)"
proof -
  let ?x = "dump (chunk_dump c)"
  have x: "json_loads ?x = Some (chunk_dump c)" "py_strip (CHR '' '' # ?x) = ?x" using assms by (simp_all add: reads_back_def strip_space)
  obtain xs where xs: "py_get (chunk_dump c) ''choices'' (PyList []) = Inr (PyList xs)" "\<And>chunks. add_choices xs chunks = Inr (chunks @ map PyStr (chunk_texts c))"
    using chunk_dump_get(2) by blast
  have "usage_dump (Some u) \<noteq> PyNone" for u by (simp add: usage_dump_def)
  then show ?thesis using x xs chunk_not_done [OF x(1)]
    by (simp add: parse_sse_line_def py_startswith_def model_dump_json_line_def chunk_dump_get(1) split: option.split)
qed

lemma parse_blank: "parse_sse_line err [] b = Inr b"
  by (simp add: parse_sse_line_def py_startswith_def)

lemma parse_done: "parse_sse_line err (''data: '' @ ''[DONE]'') b = Inr (b\<lparr>sb_done := True\<rparr>)"
proof -
  have "py_strip (drop 5 (''data: '' @ ''[DONE]'')) = ''[DONE]''" by code_simp
  then show ?thesis by (simp add: parse_sse_line_def py_startswith_def)
qed

lemma parse_frames:
  assumes "\<forall>f \<in> set frames. frame_ok dump f"
  shows "parse_sse_lines err (splitlines (stream_text dump fr frames)) b = Inr (fold frame_adds frames b)"
  using assms
proof (induction frames arbitrary: b)
  case Nil
  then show ?case by (simp add: stream_text_def splitlines_def)
next
  case (Cons f fs)
  have ih: "parse_sse_lines err (splitlines (stream_text dump fr fs)) b = Inr (fold frame_adds fs b)" for b using Cons by simp
  have t: "stream_text dump fr (f # fs) = frame_text dump fr f @ stream_text dump fr fs" by (simp add: stream_text_def)
  show ?case
  proof (cases f)
    case (SseData c)
    then have c: "reads_back dump (chunk_dump c)" using Cons.prems by simp
    then show ?thesis unfolding t unfolding SseData
      using parse_data_line [OF c, of err b] splitlines_data [of "model_dump_json_line dump c"]
      by (simp add: reads_back_def model_dump_json_line_def parse_blank ih)
  next
    case SseDone
    have "line_safe ''[DONE]''" by (simp add: line_end_def)
    from splitlines_data [OF this] show ?thesis unfolding t unfolding SseDone using parse_done [of err b] by (simp add: parse_blank ih)
  qed (use Cons.prems in auto)
qed

lemma chunk_texts_delta: "chunk_texts (chunk_from_normalized created i m c) = (if nc_delta c = [] then [] else [nc_delta c])"
  by (auto simp: chunk_texts_def chunk_from_normalized_def Let_def)

lemma fold_frames:
  "fold frame_adds (map (\<lambda>c. SseData (chunk_from_normalized created i m c)) cs) b =
    b\<lparr>sb_usage := (sb_usage b \<or> (\<exists>c \<in> set cs. nc_usage c \<noteq> None)), sb_chunks := sb_chunks b @ map PyStr (filter (\<lambda>t. t \<noteq> []) (map nc_delta cs))\<rparr>"
proof (induction cs arbitrary: b)
  case (Cons c cs)
  have "ck_usage (chunk_from_normalized created i m c) = nc_usage c" by (simp add: chunk_from_normalized_def Let_def)
  with Cons show ?case by (simp add: chunk_texts_delta disj_assoc)
qed simp

lemma completed_frames:
  assumes "chat_stream_response w st key name n now pulls cancelled q sl = (ChatStream status frames (Completed u), q', sl')"
  shows "frames = map (\<lambda>c. SseData (chunk_from_normalized (w_created w) (w_fallback_id w) (nr_model n) c)) (upstream_chunks (w_stream w name n)) @ [SseDone]"
  using stream_response_well [OF assms] by (auto simp: well_streamed_def)


text \<open>A chunk whose text contains U+0085 is one line for a reader of JSON but two for \<open>splitlines\<close>: the check reports an unreadable line.\<close>

lemma nel_breaks_check:
  "case parse_sse_body (\<lambda>_. ''error'') (stream_text (json_dumps (\<lambda>_. [])) (\<lambda>_. [])
      [SseData (chunk_from_normalized 0 ''i'' ''m'' (sample_chunk [CHR 0x85])), SseDone]) of Inr b \<Rightarrow> sb_errors b = [''error''] | Inl _ \<Rightarrow> False"
  by code_simp

subsection \<open>Examples\<close>

definition sample_args :: arguments where
  "sample_args = build_parser\<lparr>ar_run := True, ar_max_tokens := 1000, ar_provider := ''openai''\<rparr>"

text \<open>A gateway that answers every request with one text and writes the matching row.\<close>

definition sample_row :: "bool \<Rightarrow> audit_log" where
  "sample_row stream = \<lparr>a_id = ''a'', a_request_id = (if stream then ''r2'' else ''r1''), a_ts = 0, a_principal_hash = None, a_org_id = None, a_api_key_id = None,
     a_provider = Some ''openai'', a_model = Some ''gpt-4o-mini'', a_status_code = 200, a_error_type = None, a_prompt_tokens = 3, a_completion_tokens = 1,
     a_total_tokens = 4, a_cost_usd = 0, a_latency_ms = 1, a_stream = stream\<rparr>"

definition sample_answer :: string where
  "sample_answer = json_dumps (\<lambda>_. []) (PyDict [(''choices'', PyList [PyDict [(''message'', PyDict [(''content'', PyStr ''pong'')])]]),
     (''usage'', PyDict [(''total_tokens'', PyInt 4)])])"

definition sample_post :: "audit_log list client" where
  "sample_post body rows =
     (case body of
        PyDict d \<Rightarrow> (if map_of d ''stream'' = Some (PyBool True)
          then (Inr \<lparr>hr_status = 200, hr_headers = [(''x-request-id'', ''r2''), (''content-type'', ''text/event-stream; charset=utf-8'')],
                 hr_text = stream_text (json_dumps (\<lambda>_. [])) (\<lambda>_. []) [SseData (chunk_from_normalized 0 ''i'' ''m'' (sample_chunk ''pong'')), SseDone]\<rparr>,
                rows @ [sample_row True])
          else (Inr \<lparr>hr_status = 200, hr_headers = [(''x-request-id'', ''r1'')], hr_text = sample_answer\<rparr>, rows @ [sample_row False]))
      | _ \<Rightarrow> (Inl (HttpExc []), rows))"

definition sample_smoke :: "('w \<Rightarrow> connection) \<Rightarrow> 'w \<Rightarrow> 'w client \<Rightarrow> (unit, 'w) smoke_world" where
  "sample_smoke db w0 post = \<lparr>sw_settings = default_settings\<lparr>openai_api_key := Some ''sk''\<rparr>, sw_tmpdir = ''/tmp'', sw_hex = ''ab'', sw_logging = sample_logging, sw_sha = rev,
     sw_signing_key = (\<lambda>_. None), sw_decode = (\<lambda>_ _ _ _ _ _. None), sw_connect = (\<lambda>_. Inr ()), sw_start = (\<lambda>_. w0), sw_post = post, sw_db = db,
     sw_decode_error = id, sw_exc_text = (\<lambda>_. ''error''), sw_cost_str = (\<lambda>_. ''0'')\<rparr>"

definition rows_conn :: "audit_log list \<Rightarrow> connection" where
  "rows_conn rows = \<lparr>conn_db = empty_db\<lparr>audit_logs := rows\<rparr>, read_ok = True, write_ok = True\<rparr>"

abbreviation sample_plan :: provider_plan where
  "sample_plan \<equiv> \<lparr>pl_provider = ''openai'', pl_model = ''gpt-4o-mini'', pl_has_key = True, pl_max_tokens = 64\<rparr>"

lemma sample_plans: "build_plans (default_settings\<lparr>openai_api_key := Some ''sk''\<rparr>) sample_args 64 = Inr [sample_plan]"
  by code_simp


theorem smoke_spend_bounded_witness:
  "\<exists>res out sent w. run_smoke (sample_smoke (rows_conn \<circ> snd) ([], []) (recording sample_post)) sample_args = (res, out, Some (sent, w)) \<and>
     sent \<noteq> [] \<and> length sent \<le> 4"
proof -
  let ?sw = "sample_smoke (rows_conn \<circ> snd) ([], []) (recording sample_post)"
  have "(case run_smoke ?sw sample_args of (r, out, w) \<Rightarrow> (case w of Some (sent, rows) \<Rightarrow> length sent | None \<Rightarrow> 0)) = 2" by code_simp
  then obtain res out sent w where r: "run_smoke ?sw sample_args = (res, out, Some (sent, w))" "length sent = 2"
    by (auto split: prod.splits option.splits)
  have u: "?sw\<lparr>sw_post := recording sample_post\<rparr> = ?sw" by (simp add: sample_smoke_def)
  have "length sent \<le> 4"
    using smoke_spend_bounded [where sw = ?sw and post = sample_post, unfolded u, OF r(1)] by (simp add: sample_smoke_def)
  then show ?thesis using r by fastforce
qed


end
