(* ===== verification/Gateway.thy ===== *)
theory Gateway
  imports App Sse
begin

text \<open>
  The whole path of a chat request, over the components: authentication and the other dependencies of the endpoint, the handler, the
  exception handlers, and the audit record that the closing middleware writes from the request state. An exception without a handler
  of its own is answered by the outermost layer of the framework, after the request has been closed.
\<close>

datatype chat_reply = ReplyError error_response | ReplyJson chat_response | ReplyStream int "sse list" stream_kind | ReplyCrashed | ReplyCancelled

definition answer_exc :: "exc \<Rightarrow> request_state \<Rightarrow> chat_reply \<times> request_state" where
  "answer_exc x q =
     (case x of
        OtherExc \<Rightarrow> (ReplyCrashed, q)
      | _ \<Rightarrow> (ReplyError (handle_exc x), q\<lparr>q_error_type := Some (handled_error_type x)\<rparr>))"

definition authenticated_state :: "exc + api_key_principal \<Rightarrow> request_state" where
  "authenticated_state auth = (case auth of Inr p \<Rightarrow> set_request_principal p new_request_state | Inl _ \<Rightarrow> new_request_state)"

text \<open>The reply, the request state at the end, the stream registry, and the request handed to a provider, if any.\<close>

definition chat_path :: "'pat world \<Rightarrow> (chat_request \<Rightarrow> validation_entry list) \<Rightarrow> settings \<Rightarrow> exc + api_key_principal \<Rightarrow>
    (string \<Rightarrow> py_error + rate_limit_result) \<Rightarrow> chat_request option \<Rightarrow> rat \<Rightarrow> rat list \<Rightarrow> bool \<Rightarrow> stream_limiter \<Rightarrow>
    (chat_reply \<times> request_state) \<times> stream_limiter \<times> normalized_request option" where
  "chat_path w schema_errors st auth allow body now pulls cancelled sl =
     (let q = authenticated_state auth in
      case chat_dependencies schema_errors st auth allow body of
        Inl e \<Rightarrow> (answer_exc e q, sl, None)
      | Inr (p, payload) \<Rightarrow>
          (case create_chat_completion w st p payload now pulls cancelled (q\<lparr>q_stream := cr_stream payload\<rparr>) sl of
             ((oc, q', sl'), sent) \<Rightarrow>
               ((case oc of
                   ChatRaised e \<Rightarrow> answer_exc e q'
                 | ChatCancelled \<Rightarrow> (ReplyCancelled, q')
                 | ChatJson r \<Rightarrow> (ReplyJson r, q')
                 | ChatStream status frames kind \<Rightarrow> (ReplyStream status frames kind, q')), sl', sent)))"

text \<open>The status the closing middleware sees: 500 when an exception passes it.\<close>

fun reply_status :: "chat_reply \<Rightarrow> int" where
  "reply_status (ReplyError r) = er_status r"
| "reply_status (ReplyJson r) = 200"
| "reply_status (ReplyStream status frames kind) = status"
| "reply_status ReplyCrashed = 500"
| "reply_status ReplyCancelled = 500"

definition audited :: "string \<Rightarrow> int \<Rightarrow> string \<Rightarrow> int \<Rightarrow> chat_reply \<times> request_state \<Rightarrow> audit_log" where
  "audited i t request_id latency x = (case x of (r, q) \<Rightarrow>
     the_row i t request_id q (audit_status_code (reply_status r) q) latency (cost_of (q_model q) (q_token_usage q)))"

subsection \<open>What the handler leaves in the request state\<close>

definition clean :: "request_state \<Rightarrow> bool" where
  "clean q \<longleftrightarrow> q_token_usage q = None \<and> q_audit_status q = None \<and> q_error_type q = None"

definition same_caller :: "request_state \<Rightarrow> request_state \<Rightarrow> bool" where
  "same_caller q q' \<longleftrightarrow> q_principal_hash q' = q_principal_hash q \<and> q_org_id q' = q_org_id q \<and> q_api_key_id q' = q_api_key_id q"

text \<open>The state after an outcome, from a clean state.\<close>

fun outcome_state :: "chat_outcome \<Rightarrow> request_state \<Rightarrow> bool" where
  "outcome_state (ChatRaised e) q \<longleftrightarrow> q_token_usage q = None \<and> q_audit_status q = None \<and> (e = OtherExc \<longrightarrow> q_error_type q = None)"
| "outcome_state ChatCancelled q \<longleftrightarrow> clean q"
| "outcome_state (ChatJson r) q \<longleftrightarrow> q_token_usage q = Some (rs_usage r) \<and> q_audit_status q = None \<and> q_error_type q = None"
| "outcome_state (ChatStream status frames kind) q \<longleftrightarrow> (\<exists>q0. clean q0 \<and> q = stream_state kind q0) \<and> (status = 200 \<or> kind = TimedOut \<and> status = 504)"

lemma stream_state_caller: "same_caller q (stream_state kind q) \<and> q_model (stream_state kind q) = q_model q"
  by (simp add: stream_state_def same_caller_def split: stream_kind.split exc.split)

lemma stream_response_state_clean:
  assumes "chat_stream_response w st key name n now pulls cancelled q sl = (oc, q', sl')" and "clean q"
  shows "outcome_state oc q' \<and> same_caller q q' \<and> q_model q' = q_model q"
proof -
  consider "\<exists>e. oc = ChatRaised e \<and> q' = q" | "oc = ChatCancelled \<and> q' = q" |
    status frames kind where "oc = ChatStream status frames kind" "q' = stream_state kind q" "status = 200 \<or> kind = TimedOut \<and> status = 504"
    using assms(1) by (auto simp: chat_stream_response_def Let_def split: option.splits prod.splits stream_event.splits if_splits)
  then show ?thesis using assms(2) stream_state_caller by cases (auto simp: clean_def same_caller_def)
qed

lemma policy_state:
  assumes "apply_policy w st n q = (eo, q')" and "clean q"
  shows "same_caller q q' \<and> q_model q' = q_model q \<and>
    (case eo of None \<Rightarrow> clean q' | Some e \<Rightarrow> outcome_state (ChatRaised e) q')"
  using assms by (auto simp: apply_policy_def Let_def clean_def same_caller_def split: if_splits)

lemma pii_state: "apply_pii st n q = (Inr n', q') \<Longrightarrow> clean q \<Longrightarrow> clean q' \<and> same_caller q q' \<and> q_model q' = q_model q"
  by (auto simp: apply_pii_eq clean_def same_caller_def split: if_splits)

lemma chat_state:
  assumes c: "create_chat_completion w st p payload now pulls cancelled q sl = ((oc, q', sl'), sent)" and "clean q"
  shows "outcome_state oc q' \<and> same_caller q q' \<and> q_model q' = Some (cr_model payload)"
proof -
  let ?n = "to_normalized payload"
  let ?q1 = "q\<lparr>q_model := Some (nr_model ?n), q_stream := nr_stream ?n\<rparr>"
  have q1: "clean ?q1" "same_caller q ?q1" "q_model ?q1 = Some (cr_model payload)"
    using assms(2) by (simp_all add: clean_def same_caller_def to_normalized_def)
  obtain eo q2 where pol: "apply_policy w st ?n ?q1 = (eo, q2)" by fastforce
  note p = policy_state [OF pol q1(1)]
  show ?thesis
  proof (cases eo)
    case (Some e)
    then have "oc = ChatRaised e" "q' = q2" using c pol by (auto simp: create_chat_completion_def Let_def)
    then show ?thesis using p q1 Some by (auto simp: same_caller_def)
  next
    case None
    obtain q3 where pii: "apply_pii st ?n q2 = (Inr (masked_request st payload), q3)"
      using apply_pii_request [of st payload q2] by (metis prod.collapse)
    then have q3: "clean q3" "same_caller q q3" "q_model q3 = Some (cr_model payload)"
      using pii_state [OF pii] p q1 None by (auto simp: same_caller_def)
    let ?m = "masked_request st payload"
    show ?thesis
    proof (cases "provider_for_model st (nr_model ?m)")
      case (Inl e)
      then have "oc = ChatRaised e" "q' = q3" using c pol pii None by (auto simp: create_chat_completion_def Let_def)
      then show ?thesis using q3 by (auto simp: clean_def)
    next
      case (Inr name)
      let ?q4 = "q3\<lparr>q_provider := Some name\<rparr>"
      have q4: "clean ?q4" "same_caller q ?q4" "q_model ?q4 = Some (cr_model payload)" using q3 by (simp_all add: clean_def same_caller_def)
      show ?thesis
      proof (cases "nr_stream ?m")
        case True
        then have "chat_stream_response w st (p_hash p) name ?m now pulls cancelled ?q4 sl = (oc, q', sl')"
          using c pol pii None Inr by (auto simp: create_chat_completion_def Let_def)
        from stream_response_state_clean [OF this q4(1)] show ?thesis using q4 by (auto simp: same_caller_def)
      next
        case False
        then show ?thesis using c pol pii None Inr q4
          by (auto simp: create_chat_completion_def Let_def clean_def same_caller_def response_from_normalized_def split: sum.splits)
      qed
    qed
  qed
qed

subsection \<open>The audit row tells the answer\<close>

definition no_usage :: "audit_log \<Rightarrow> bool" where
  "no_usage a \<longleftrightarrow> a_prompt_tokens a = 0 \<and> a_completion_tokens a = 0 \<and> a_total_tokens a = 0 \<and> a_cost_usd a = 0"

definition usage_recorded :: "audit_log \<Rightarrow> string \<Rightarrow> normalized_usage option \<Rightarrow> bool" where
  "usage_recorded a model u \<longleftrightarrow> a_prompt_tokens a = prompt_of u \<and> a_completion_tokens a = completion_of u \<and> a_total_tokens a = total_of u \<and>
     a_cost_usd a = dec_val (cost_of (Some model) u)"

text \<open>What a row has to say about a reply to a request for \<open>model\<close>.\<close>

fun tells :: "audit_log \<Rightarrow> string \<Rightarrow> chat_reply \<Rightarrow> bool" where
  "tells a model (ReplyError r) \<longleftrightarrow> a_status_code a = er_status r \<and> a_error_type a \<noteq> None \<and> no_usage a"
| "tells a model (ReplyJson r) \<longleftrightarrow> a_status_code a = 200 \<and> a_error_type a = None \<and> usage_recorded a model (Some (rs_usage r))"
| "tells a model (ReplyStream status frames kind) \<longleftrightarrow>
     (case kind of
        Completed u \<Rightarrow> a_status_code a = 200 \<and> a_error_type a = None \<and> usage_recorded a model u
      | TimedOut \<Rightarrow> a_status_code a = 504 \<and> a_error_type a = Some ''stream_timeout'' \<and> no_usage a
      | Chat.Failed (ApiExc e) \<Rightarrow> a_status_code a = e_status e \<and> a_error_type a = Some (e_type e) \<and> no_usage a
      | Chat.Failed _ \<Rightarrow> a_status_code a = 500 \<and> a_error_type a = Some ''server_error'' \<and> no_usage a
      | Disconnected \<Rightarrow> a_status_code a = 200 \<and> a_error_type a = None \<and> no_usage a)"
| "tells a model ReplyCrashed \<longleftrightarrow> a_status_code a = 500 \<and> a_error_type a = None \<and> no_usage a"
| "tells a model ReplyCancelled \<longleftrightarrow> a_status_code a = 500 \<and> a_error_type a = None \<and> no_usage a"

lemma audited_simps:
  "a_status_code (audited i t rid l (r, q)) = audit_status_code (reply_status r) q" "a_error_type (audited i t rid l (r, q)) = q_error_type q"
  "a_principal_hash (audited i t rid l (r, q)) = q_principal_hash q" "a_org_id (audited i t rid l (r, q)) = q_org_id q"
  "a_api_key_id (audited i t rid l (r, q)) = q_api_key_id q" "a_model (audited i t rid l (r, q)) = q_model q"
  by (simp_all add: audited_def the_row_def)

lemma audited_usage: "q_token_usage q = u \<Longrightarrow> q_model q = Some m \<Longrightarrow> usage_recorded (audited i t rid l (r, q)) m u"
  by (simp add: audited_def the_row_def usage_recorded_def)

lemma audited_no_usage: "q_token_usage q = None \<Longrightarrow> no_usage (audited i t rid l (r, q))"
  by (simp add: audited_def the_row_def no_usage_def prompt_of_def completion_of_def total_of_def unused_stream_cost split: option.split)

lemmas audited_facts = audited_simps audited_usage audited_no_usage

lemma tells_exc:
  assumes "answer_exc e q = (r, q')" and "outcome_state (ChatRaised e) q"
  shows "tells (audited i t rid l (r, q')) model r \<and> same_caller q q' \<and> q_model q' = q_model q \<and> (e \<noteq> OtherExc \<longrightarrow> r = ReplyError (handle_exc e))"
  using assms by (cases e) (auto simp: answer_exc_def audited_facts audit_status_code_def same_caller_def)

lemma tells_stream:
  assumes "outcome_state (ChatStream status frames kind) q" and "q_model q = Some model"
  shows "tells (audited i t rid l (ReplyStream status frames kind, q)) model (ReplyStream status frames kind)"
proof -
  obtain q0 where q0: "clean q0" "q = stream_state kind q0" and status: "status = 200 \<or> kind = TimedOut" using assms(1) by auto
  have "q_model q0 = Some model" using assms(2) q0(2) stream_state_caller by metis
  then show ?thesis using q0 status
    by (auto simp: clean_def stream_state_def audited_facts audit_status_code_def split: stream_kind.split exc.split)
qed

lemma chat_dependencies_auth: "chat_dependencies schema_errors st (Inl e) allow body = Inl e"
  by (simp add: chat_dependencies_def)

text \<open>What is recorded of the caller.\<close>

definition recorded_caller :: "exc + api_key_principal \<Rightarrow> audit_log \<Rightarrow> bool" where
  "recorded_caller auth a \<longleftrightarrow>
     (case auth of
        Inl _ \<Rightarrow> a_principal_hash a = None \<and> a_org_id a = None \<and> a_api_key_id a = None
      | Inr p \<Rightarrow> a_principal_hash a = Some (p_hash p) \<and> a_org_id a = p_org_id p \<and> a_api_key_id a = p_key_id p)"

lemma authenticated_clean: "clean (authenticated_state auth)" "q_model (authenticated_state auth) = None"
  by (simp_all add: authenticated_state_def set_request_principal_def new_request_state_def clean_def split: sum.split)

lemma recorded_same_caller:
  "same_caller (authenticated_state auth) q \<Longrightarrow> recorded_caller auth (audited i t rid l (r, q))"
  by (simp add: recorded_caller_def audited_simps same_caller_def authenticated_state_def set_request_principal_def new_request_state_def split: sum.split)

text \<open>A request that the dependencies of the endpoint stop, and one that they let in.\<close>

lemma path_stopped:
  assumes "chat_path w schema_errors st auth allow body now pulls cancelled sl = ((r, q), sl', sent)"
    and "chat_dependencies schema_errors st auth allow body = Inl e"
  shows "same_caller (authenticated_state auth) q \<and> q_model q = None \<and> tells (audited i t rid latency (r, q)) [] r"
    and "(e \<noteq> OtherExc \<longrightarrow> r = ReplyError (handle_exc e)) \<and> sl' = sl \<and> sent = None"
proof -
  have a: "answer_exc e (authenticated_state auth) = (r, q)" "sl' = sl" "sent = None" using assms by (simp_all add: chat_path_def)
  have "outcome_state (ChatRaised e) (authenticated_state auth)" using authenticated_clean by (simp add: clean_def)
  from tells_exc [OF a(1) this, of i t rid latency "[]"] a authenticated_clean
  show "same_caller (authenticated_state auth) q \<and> q_model q = None \<and> tells (audited i t rid latency (r, q)) [] r"
    "(e \<noteq> OtherExc \<longrightarrow> r = ReplyError (handle_exc e)) \<and> sl' = sl \<and> sent = None" by simp_all
qed

lemma path_admitted:
  assumes "chat_path w schema_errors st auth allow body now pulls cancelled sl = ((r, q), sl', sent)"
    and "chat_dependencies schema_errors st auth allow body = Inr (p, payload)"
  shows "same_caller (authenticated_state auth) q \<and> q_model q = Some (cr_model payload) \<and> tells (audited i t rid latency (r, q)) (cr_model payload) r"
proof -
  let ?q = "(authenticated_state auth)\<lparr>q_stream := cr_stream payload\<rparr>"
  obtain oc q1 sl1 sent1 where c: "create_chat_completion w st p payload now pulls cancelled ?q sl = ((oc, q1, sl1), sent1)"
    by (metis prod.collapse)
  have "clean ?q" using authenticated_clean by (simp add: clean_def)
  from chat_state [OF c this] have o: "outcome_state oc q1" "same_caller (authenticated_state auth) q1" "q_model q1 = Some (cr_model payload)"
    by (simp_all add: same_caller_def)
  note d = assms(1) [unfolded chat_path_def Let_def assms(2)]
  have "tells (audited i t rid latency (r, q)) (cr_model payload) r \<and> same_caller q1 q \<and> q_model q = q_model q1"
  proof (cases oc)
    case (ChatRaised e)
    then have "answer_exc e q1 = (r, q)" using d c by simp
    from tells_exc [OF this] show ?thesis using o(1) ChatRaised by blast
  next
    case ChatCancelled
    then show ?thesis using d c o(1) by (auto simp: clean_def audited_facts audit_status_code_def same_caller_def)
  next
    case (ChatJson resp)
    then show ?thesis using d c o by (auto simp: audited_facts audit_status_code_def same_caller_def)
  next
    case (ChatStream status frames kind)
    then have e: "r = ReplyStream status frames kind" "q = q1" using d c by simp_all
    from tells_stream [OF o(1) [unfolded ChatStream] o(3)] show ?thesis using e by (simp add: same_caller_def)
  qed
  then show ?thesis using o by (simp add: same_caller_def)
qed

text \<open>Both together: the row of any request.\<close>

definition model_of :: "audit_log \<Rightarrow> string" where
  "model_of a = (case a_model a of Some m \<Rightarrow> m | None \<Rightarrow> [])"

lemma path_recorded:
  assumes "chat_path w schema_errors st auth allow body now pulls cancelled sl = ((r, q), sl', sent)"
  shows "recorded_caller auth (audited i t rid latency (r, q)) \<and> tells (audited i t rid latency (r, q)) (model_of (audited i t rid latency (r, q))) r"
proof (cases "chat_dependencies schema_errors st auth allow body")
  case (Inl e)
  from path_stopped(1) [OF assms this] show ?thesis using recorded_same_caller by (simp add: model_of_def audited_simps)
next
  case (Inr x)
  then obtain p payload where "chat_dependencies schema_errors st auth allow body = Inr (p, payload)" by (cases x) simp
  from path_admitted [OF assms this] show ?thesis using recorded_same_caller by (simp add: model_of_def audited_simps)
qed



subsection \<open>What reaches a provider\<close>

lemma dependencies_passed:
  assumes "chat_dependencies schema_errors st auth allow body = Inr (p, payload)"
  shows "auth = Inr p \<and> (\<exists>r. allow (p_hash p) = Inr r \<and> allowed r) \<and> ''chat'' \<in> p_scopes p \<and> body = Some payload \<and> chat_request_valid st payload"
proof -
  from assms obtain p0 where a: "auth = Inr p0" by (auto simp: chat_dependencies_def bind_res_Inr)
  with assms obtain r where r: "allow (p_hash p0) = Inr r" by (auto simp: chat_dependencies_def bind_res_Inr split: sum.splits)
  with a assms have e: "allowed r" "p = p0"
    by (auto simp: chat_dependencies_def bind_res_Inr enforce_rate_limit_def split: if_splits)
  then have "require_scope ''chat'' p \<noteq> Inl (ApiExc (plain_error AuthenticationError ''Missing required scope''))"
    "parse_chat_completion_request schema_errors st body = Inr payload"
    using assms a r by (auto simp: chat_dependencies_def bind_res_Inr enforce_rate_limit_def)
  then show ?thesis using a r e
    by (auto simp: require_scope_def parse_chat_completion_request_def split: if_splits option.splits)
qed

lemma sent_unblocked:
  assumes "create_chat_completion w st p payload now pulls cancelled q sl = (res, Some n)"
  shows "policy_mode st = ''block'' \<longrightarrow> policy_matches w st (nr_messages (to_normalized payload)) = []"
    and "\<exists>name. provider_for_model st (cr_model payload) = Inr name" and "cr_stream payload \<longrightarrow> fst (acquire (p_hash p) sl) \<noteq> None"
proof -
  let ?n = "to_normalized payload"
  let ?q = "q\<lparr>q_model := Some (nr_model ?n), q_stream := nr_stream ?n\<rparr>"
  obtain eo q2 where pol: "apply_policy w st ?n ?q = (eo, q2)" by fastforce
  then have eo: "eo = None" using assms by (cases eo) (simp_all add: create_chat_eq Let_def)
  then show "policy_mode st = ''block'' \<longrightarrow> policy_matches w st (nr_messages ?n) = []"
    using pol by (auto simp: apply_policy_def Let_def split: if_splits)
  have m: "nr_model (masked_request st payload) = cr_model payload" "nr_stream (masked_request st payload) = cr_stream payload"
    by (simp_all add: masked_request_eq to_normalized_def)
  have s: "serve w st p payload now pulls cancelled q2 sl = (res, Some n)" using assms pol eo by (simp add: create_chat_eq Let_def)
  then show "\<exists>name. provider_for_model st (cr_model payload) = Inr name"
    by (auto simp: serve_def Let_def m split: sum.splits)
  from s show "cr_stream payload \<longrightarrow> fst (acquire (p_hash p) sl) \<noteq> None"
    by (auto simp: serve_def Let_def m split: sum.splits if_splits)
qed

text \<open>C1: A provider sees a request only after every guard let it through, and sees nothing that masking removes: the caller is authenticated,
  has a token of its rate limit left and the scope, the body is valid, no rule matches in blocking mode, the model is configured,
  a streaming caller has a slot left; and what is sent has the model, the parameters and the roles of the client's request, with the
  masked messages when masking is on and the client's own otherwise.\<close>

theorem provider_call_guarded:
  assumes "chat_path w schema_errors st auth allow body now pulls cancelled sl = (rq, sl', Some n)"
  shows "\<exists>p payload r. auth = Inr p \<and> allow (p_hash p) = Inr r \<and> allowed r \<and> ''chat'' \<in> p_scopes p \<and>
    body = Some payload \<and> chat_request_valid st payload \<and>
    (policy_mode st = ''block'' \<longrightarrow> (\<forall>rule \<in> set (compile_rules (w_compile w) (forbidden_patterns st)). \<forall>m \<in> set (cr_messages payload).
       w_matches w (pattern rule) (cm_content m) = 0)) \<and>
    cr_model payload \<in> set (openai_models st) \<union> set (anthropic_models st) \<and> (cr_stream payload \<longrightarrow> fst (acquire (p_hash p) sl) \<noteq> None) \<and>
    nr_model n = cr_model payload \<and> nr_temperature n = cr_temperature payload \<and> nr_max_tokens n = cr_max_tokens payload \<and>
    nr_stream n = cr_stream payload \<and> map nm_role (nr_messages n) = map cm_role (cr_messages payload) \<and>
    (if pii_masking_enabled st then \<exists>summary. mask_messages (nr_messages (to_normalized payload)) (pii_types st) = Inr (nr_messages n, summary)
     else map nm_content (nr_messages n) = map cm_content (cr_messages payload))"
proof -
  from assms obtain p payload where d: "chat_dependencies schema_errors st auth allow body = Inr (p, payload)"
    by (cases "chat_dependencies schema_errors st auth allow body") (auto simp: chat_path_def Let_def)
  obtain q sent res where c: "create_chat_completion w st p payload now pulls cancelled q sl = (res, sent)" "sent = Some n"
    using assms d by (auto simp: chat_path_def Let_def split: prod.splits)
  note u = sent_unblocked [OF c(1) [unfolded c(2)]]
  have n: "n = masked_request st payload" by (rule sent_masked [OF c(1) [unfolded c(2)]])
  have guard: "policy_mode st = ''block'' \<longrightarrow> (\<forall>rule \<in> set (compile_rules (w_compile w) (forbidden_patterns st)). \<forall>m \<in> set (cr_messages payload).
       w_matches w (pattern rule) (cm_content m) = 0)"
  proof
    assume b: "policy_mode st = ''block''"
    with u(1) show "\<forall>rule \<in> set (compile_rules (w_compile w) (forbidden_patterns st)). \<forall>m \<in> set (cr_messages payload).
       w_matches w (pattern rule) (cm_content m) = 0"
      unfolding policy_matches_nil by (auto simp: to_normalized_def compile_rules_def List.map_filter_def)
  qed
  have masked: "if pii_masking_enabled st then \<exists>summary. mask_messages (nr_messages (to_normalized payload)) (pii_types st) = Inr (nr_messages n, summary)
     else map nm_content (nr_messages n) = map cm_content (cr_messages payload)"
    using sent_only_masked [OF c(1) [unfolded c(2)]] by (simp add: n masked_request_eq to_normalized_def comp_def)
  have params: "nr_model n = cr_model payload" "nr_temperature n = cr_temperature payload" "nr_max_tokens n = cr_max_tokens payload"
    "nr_stream n = cr_stream payload" by (simp_all add: n masked_request_eq to_normalized_def)
  have roles: "map nm_role (nr_messages n) = map cm_role (cr_messages payload)"
    by (simp add: n masked_request_eq to_normalized_def comp_def masked_by_def)
  show ?thesis
    using dependencies_passed [OF d] guard masked params roles u(2,3) provider_for_model_iff [of st "cr_model payload"] by blast
qed

theorem provider_call_guarded_witness:
  "\<exists>rq sl' n. chat_path sample_world (\<lambda>_. []) default_settings (Inr sample_user) (\<lambda>_. Inr \<lparr>allowed = True, retry_after_seconds = 0, remaining = Finite 1\<rparr>)
      (Some sample_chat) 0 [1, 1] False (new_limiter 4) = (rq, sl', Some n) \<and> map nm_content (nr_messages n) = [''mail [REDACTED:EMAIL:1]'']"
proof -
  let ?r = "chat_path sample_world (\<lambda>_. []) default_settings (Inr sample_user) (\<lambda>_. Inr \<lparr>allowed = True, retry_after_seconds = 0, remaining = Finite 1\<rparr>)
    (Some sample_chat) 0 [1, 1] False (new_limiter 4)"
  have "snd (snd ?r) = Some (the (snd (snd ?r)))" by code_simp
  then have r: "?r = (fst ?r, fst (snd ?r), Some (the (snd (snd ?r))))" by (metis prod.collapse)
  have m: "map nm_content (fst (case mask_messages (nr_messages (to_normalized sample_chat)) (pii_types default_settings) of Inr x \<Rightarrow> x)) = [''mail [REDACTED:EMAIL:1]'']"
    "pii_masking_enabled default_settings" by code_simp+
  from provider_call_guarded [OF r] m have "map nm_content (nr_messages (the (snd (snd ?r)))) = [''mail [REDACTED:EMAIL:1]'']" by auto
  with r show ?thesis by (intro exI conjI)
qed

end
