(* ===== verification/Service.thy ===== *)
theory Service
  imports Gateway AuditReplay
begin

text \<open>
  The service as a whole: its database, its fallback file, the audit inserts that are waiting, and the requests that are open. A chat
  request arrives (authentication), is answered at some later time (the path of \<open>Gateway\<close>) and leaves its audit job; the event loop runs
  the waiting jobs in any order, between and during other requests, and so does \<open>gather\<close> at the shutdown. Administrators act through
  their endpoints, and the database may come and go. What was closed is kept as a history: it is not part of the program.
\<close>

subsection \<open>State and operations\<close>

record open_request =
  op_id :: string
  op_auth :: "exc + api_key_principal"

record closing =
  cl_auth :: "exc + api_key_principal"
  cl_reply :: chat_reply
  cl_record :: audited
  cl_id :: string
  cl_time :: int

text \<open>The row and the fields of a closed request.\<close>

definition cl_row :: "closing \<Rightarrow> audit_log" where
  "cl_row cl = row_of (cl_id cl) (cl_time cl) (cl_record cl)"

definition cl_fields :: "closing \<Rightarrow> (string, pyval) dict" where
  "cl_fields cl = fields_of (cl_record cl)"

record service =
  sv_audit :: audit_state
  sv_open :: "open_request list"
  sv_closed :: "closing list"

abbreviation conn_of :: "service \<Rightarrow> sessionmaker" where
  "conn_of s \<equiv> st_conn (as_store (sv_audit s))"

definition set_conn :: "sessionmaker \<Rightarrow> service \<Rightarrow> service" where
  "set_conn sm s = s\<lparr>sv_audit := (sv_audit s)\<lparr>as_store := (as_store (sv_audit s))\<lparr>st_conn := sm\<rparr>\<rparr>\<rparr>"

definition set_files :: "files \<Rightarrow> service \<Rightarrow> service" where
  "set_files fs s = s\<lparr>sv_audit := (sv_audit s)\<lparr>as_store := (as_store (sv_audit s))\<lparr>st_files := fs\<rparr>\<rparr>\<rparr>"

definition arrive :: "(string \<Rightarrow> string) \<Rightarrow> resolver \<Rightarrow> (string \<Rightarrow> claims option) option \<Rightarrow> settings \<Rightarrow> int \<Rightarrow> string \<Rightarrow> (string \<times> string) option \<Rightarrow>
    service \<Rightarrow> service" where
  "arrive sha rs v st now rid cred s =
     (case require_api_key sha rs v st now cred (conn_of s) of
        (auth, sm) \<Rightarrow> (set_conn sm s)\<lparr>sv_open := sv_open s @ [\<lparr>op_id = rid, op_auth = auth\<rparr>]\<rparr>)"

definition closing_of :: "string \<Rightarrow> int \<Rightarrow> int \<Rightarrow> open_request \<Rightarrow> chat_reply \<times> request_state \<Rightarrow> closing" where
  "closing_of i now latency x rq = (case rq of (r, q) \<Rightarrow>
     \<lparr>cl_auth = op_auth x, cl_reply = r,
      cl_record = (op_id x, q, audit_status_code (reply_status r) q, latency, cost_of (q_model q) (q_token_usage q)), cl_id = i, cl_time = now\<rparr>)"

lemma closing_of_simps [simp]:
  "cl_auth (closing_of i now latency x (r, q)) = op_auth x" "cl_reply (closing_of i now latency x (r, q)) = r"
  "cl_row (closing_of i now latency x (r, q)) = audited i now (op_id x) latency (r, q)"
  "cl_fields (closing_of i now latency x (r, q)) =
     audit_fields (op_id x) q (audit_status_code (reply_status r) q) latency (cost_of (q_model q) (q_token_usage q))"
  by (simp_all add: closing_of_def cl_row_def cl_fields_def audited_def row_of_def fields_of_def)

definition close_chat :: "(rat \<Rightarrow> string) \<Rightarrow> (nat \<Rightarrow> string) \<Rightarrow> int \<Rightarrow> settings \<Rightarrow> int \<Rightarrow> open_request \<Rightarrow> chat_reply \<times> request_state \<Rightarrow> service \<Rightarrow> service" where
  "close_chat fr uid now st latency x rq s =
     s\<lparr>sv_audit := schedule_audit_log fr uid now st AUDIT_PATH (op_id x) (snd rq) (audit_status_code (reply_status (fst rq)) (snd rq)) latency (sv_audit s),
       sv_open := remove1 x (sv_open s), sv_closed := sv_closed s @ [closing_of (uid 0) now latency x rq]\<rparr>"

text \<open>One waiting insert runs to its end; each of its transactions is one step, as the code awaits nothing between the rows it adds.\<close>

definition run_task :: "(rat \<Rightarrow> string) \<Rightarrow> settings \<Rightarrow> nat \<Rightarrow> audit_state \<Rightarrow> audit_state" where
  "run_task fr st k a = a\<lparr>as_store := insert_audit_log fr st (as_tasks a ! k) (as_store a), as_tasks := take k (as_tasks a) @ drop (Suc k) (as_tasks a)\<rparr>"

text \<open>The steps of ordinary traffic. \<open>ws\<close> are the providers and engines as they behave from time to time.\<close>

inductive traffic_step :: "(string \<Rightarrow> string) \<Rightarrow> resolver \<Rightarrow> settings \<Rightarrow> (rat \<Rightarrow> string) \<Rightarrow> (nat \<Rightarrow> 'pat world) \<Rightarrow> service \<Rightarrow> service \<Rightarrow> bool"
    for sha rs st fr ws where
  arrive: "traffic_step sha rs st fr ws s (arrive sha rs v st now rid cred s)"
| close: "x \<in> set (sv_open s) \<Longrightarrow> chat_path (ws n) schema_errors st (op_auth x) allow body t pulls cancelled sl = (rq, rest) \<Longrightarrow>
    traffic_step sha rs st fr ws s (close_chat fr uid now st latency x rq s)"
| insert: "k < length (as_tasks (sv_audit s)) \<Longrightarrow> traffic_step sha rs st fr ws s (s\<lparr>sv_audit := run_task fr st k (sv_audit s)\<rparr>)"
| administer: "admin_step sha rs st (conn_of s) sm \<Longrightarrow> traffic_step sha rs st fr ws s (set_conn sm s)"
| outage: "conn_of s = Some c \<Longrightarrow> traffic_step sha rs st fr ws s (set_conn (Some (c\<lparr>read_ok := can_read, write_ok := can_write\<rparr>)) s)"

text \<open>With the rare events: a replay of the fallback file, and a disk that fails or recovers.\<close>

inductive service_step :: "(string \<Rightarrow> string) \<Rightarrow> resolver \<Rightarrow> settings \<Rightarrow> (rat \<Rightarrow> string) \<Rightarrow> (nat \<Rightarrow> 'pat world) \<Rightarrow> service \<Rightarrow> service \<Rightarrow> bool"
    for sha rs st fr ws where
  traffic: "traffic_step sha rs st fr ws s s' \<Longrightarrow> service_step sha rs st fr ws s s'"
| replay: "require_api_key sha rs v st now cred (conn_of s) = (Inr p, sm) \<Longrightarrow>
    replay_audit_fallback fromiso uid later hex da stop st p sm (st_files (as_store (sv_audit s))) = (res, sm', fs') \<Longrightarrow>
    service_step sha rs st fr ws s (set_files fs' (set_conn sm' s))"
| disk: "service_step sha rs st fr ws s (s\<lparr>sv_audit := (sv_audit s)\<lparr>as_store := (as_store (sv_audit s))\<lparr>st_disk_ok := ok\<rparr>\<rparr>\<rparr>)"

text \<open>
  Steps in which nothing goes wrong that is known to lose records: the disk keeps working, a replay can read and quarantine and is not
  cancelled, and the texts of the records contain no U+0085, at which a replay would split them (\<open>writable\<close>).
\<close>

inductive careful_step :: "(string \<Rightarrow> string) \<Rightarrow> resolver \<Rightarrow> settings \<Rightarrow> (rat \<Rightarrow> string) \<Rightarrow> (nat \<Rightarrow> 'pat world) \<Rightarrow> service \<Rightarrow> service \<Rightarrow> bool"
    for sha rs st fr ws where
  ordinary: "traffic_step sha rs st fr ws s s' \<Longrightarrow> \<forall>cl \<in> set (sv_closed s'). writable (cl_record cl) \<Longrightarrow> careful_step sha rs st fr ws s s'"
| replay: "require_api_key sha rs v st now cred (conn_of s) = (Inr p, sm) \<Longrightarrow> da_readable da \<Longrightarrow> da_quarantine_ok da \<Longrightarrow>
    replay_audit_fallback fromiso uid later hex da None st p sm (st_files (as_store (sv_audit s))) = (res, sm', fs') \<Longrightarrow>
    careful_step sha rs st fr ws s (set_files fs' (set_conn sm' s))"

subsection \<open>The five transactions\<close>

text \<open>Whatever the service does to the database is a sequence of these.\<close>

inductive account_change :: "database \<Rightarrow> database \<Rightarrow> bool" where
  key_used: "account_change db (update_key i (k_last_used_at_update (\<lambda>_. Some now)) db)"
| key_revoked: "account_change db (update_key i (k_revoked_at_update (\<lambda>_. Some now)) db)"
| key_created: "insert_key k db = Inr db' \<Longrightarrow> get_org (k_org_id k) db \<noteq> None \<Longrightarrow> account_change db db'"
| org_created: "insert_org org db = Inr db' \<Longrightarrow> account_change db db'"

inductive db_change :: "database \<Rightarrow> database \<Rightarrow> bool" where
  account: "account_change db db' \<Longrightarrow> db_change db db'"
| recorded: "insert_audit r pes ams db = Inr db' \<Longrightarrow> db_change db db'"

fun sm_changes :: "(database \<Rightarrow> database \<Rightarrow> bool) \<Rightarrow> sessionmaker \<Rightarrow> sessionmaker \<Rightarrow> bool" where
  "sm_changes R None sm \<longleftrightarrow> sm = None"
| "sm_changes R (Some c) sm \<longleftrightarrow> (\<exists>c'. sm = Some c' \<and> R\<^sup>*\<^sup>* (conn_db c) (conn_db c'))"

lemma sm_changes_refl [simp]: "sm_changes R sm sm"
  by (cases sm) auto

lemma sm_changes_trans: "sm_changes R a b \<Longrightarrow> sm_changes R b c \<Longrightarrow> sm_changes R a c"
  by (cases a; cases b) (auto intro: rtranclp_trans)

lemma account_changes: "sm_changes account_change sm sm' \<Longrightarrow> sm_changes db_change sm sm'"
  using rtranclp_mono [of account_change db_change] db_change.account by (cases sm) auto

lemma resolve_changes: "sm_changes account_change sm (snd (resolve sha rs now tok sm))"
  by (auto simp: resolve_def Let_def intro: account_change.key_used split: option.split)

lemma require_changes: "sm_changes account_change sm (snd (require_api_key sha rs v st now cred sm))"
  using require_api_key_state [of sha rs v st now cred sm] resolve_changes by auto

lemma create_key_changes: "sm_changes account_change sm (snd (create_api_key sha rnd i now body p sm))"
  using create_api_key_cases [of _ sha rnd i now body p sm, OF refl]
proof
  assume "\<exists>r. create_api_key sha rnd i now body p sm = (Inr r, snd (create_api_key sha rnd i now body p sm))"
  then obtain r sm' where e: "create_api_key sha rnd i now body p sm = (Inr r, sm')" by blast
  then obtain c where c: "sm = Some c" using create_api_key_conn by blast
  show ?thesis
    by (rule create_api_key_Inr [OF e [unfolded c]]) (use e c account_change.key_created in auto)
qed simp

lemma revoke_key_changes: "sm_changes account_change sm (snd (revoke_api_key now key_id p sm))"
  using revoke_api_key_cases [of _ now key_id p sm, OF refl]
proof
  assume "\<exists>r. revoke_api_key now key_id p sm = (Inr r, snd (revoke_api_key now key_id p sm))"
  then obtain r sm' where e: "revoke_api_key now key_id p sm = (Inr r, sm')" by blast
  then obtain c where c: "sm = Some c" using revoke_api_key_conn by blast
  show ?thesis
    by (rule revoke_api_key_Inr [OF e [unfolded c]]) (use e c in \<open>auto intro: account_change.key_revoked\<close>)
qed simp

lemma create_org_changes: "sm_changes account_change sm (snd (create_organization i now name p sm))"
  by (auto simp: create_organization_def bind_res_Inr require_sessionmaker_def Let_def intro: account_change.org_created split: sum.split option.splits if_splits)

lemma admin_changes: "admin_step sha rs st sm sm' \<Longrightarrow> sm_changes account_change sm sm'"
proof (induction rule: admin_step.induct)
  case (create_key v now cred sm p sm1 raw body rnd i)
  then show ?case using sm_changes_trans [OF _ create_key_changes] require_changes by (metis snd_conv)
next
  case (revoke_key v now cred sm p sm1 key_id)
  then show ?case using sm_changes_trans [OF _ revoke_key_changes] require_changes by (metis snd_conv)
next
  case (create_org v now cred sm p sm1 i name)
  then show ?case using sm_changes_trans [OF _ create_org_changes] require_changes by (metis snd_conv)
qed (rule require_changes)

lemma commit_changes: "commit_audit j (Some c) = Some c' \<Longrightarrow> db_change (conn_db c) (conn_db c')"
  by (auto simp: commit_audit_def intro: db_change.recorded split: option.splits sum.splits if_splits)

lemma insert_changes: "sm_changes db_change (st_conn x) (st_conn (insert_audit_log fr st j x))"
proof (cases "commit_audit j (st_conn x)")
  case (Some c')
  then obtain c where "st_conn x = Some c" by (auto simp: commit_audit_def split: option.splits)
  then show ?thesis using Some commit_changes [of j c c'] by (auto simp: insert_audit_log_def)
qed (simp add: insert_audit_log_def try_audit_fallback_def)

lemma replay_loop_changes:
  "replay_loop (\<lambda>i. replay_line fromiso (uid i) now) stop i ls s = (s', n, b) \<Longrightarrow> db_change\<^sup>*\<^sup>* (conn_db (rs_conn s)) (conn_db (rs_conn s'))"
proof (induction "\<lambda>i. replay_line fromiso (uid i) now" stop i ls s rule: replay_loop.induct)
  case (2 stop i line rest s)
  show ?case
  proof (cases "py_strip line = [] \<or> stop = Some (i, False)")
    case False
    have c: "db_change (conn_db (rs_conn s)) (conn_db c)" if "replay_line fromiso (uid i) now line (rs_conn s) = Some c" for c
      using that commit_changes by (auto simp: replay_line_def split: option.splits)
    then show ?thesis using 2 False by (auto split: option.splits if_splits intro: converse_rtranclp_into_rtranclp)
  qed (use 2 in \<open>auto split: if_splits\<close>)
qed simp

lemma replay_changes:
  assumes "replay_audit_fallback fromiso uid now hex da stop st p sm fs = (res, sm', fs')"
  shows "sm_changes db_change sm sm'"
proof (cases "sm' = sm")
  case False
  with assms obtain c content where c: "sm = Some c" "fs (audit_fallback_path st) = Some content" "is_super_admin p"
      "da_replace da = Replaced" "da_readable da"
    by (auto simp: replay_audit_fallback_def require_super_admin_def require_sessionmaker_def bind_res_Inr Let_def
        split: sum.splits option.splits replace_outcome.splits if_splits)
  obtain s n b where l: "replay_loop (\<lambda>i. replay_line fromiso (uid i) now) stop 0 (splitlines content)
      \<lparr>rs_conn = c, rs_replayed = 0, rs_failed = 0, rs_quarantine = []\<rparr> = (s, n, b)" by (metis prod_cases3)
  then have "sm' = Some (rs_conn s)"
    using assms c by (auto simp: replay_audit_fallback_def require_super_admin_def Let_def split: if_splits)
  then show ?thesis using replay_loop_changes [OF l] c by simp
qed simp

lemma service_changes:
  assumes "service_step sha rs st fr ws s s'"
  shows "sm_changes db_change (conn_of s) (conn_of s')"
  using assms
proof (induction rule: service_step.induct)
  case (traffic s s')
  then show ?case
  proof (induction rule: traffic_step.induct)
    case (arrive s v now rid cred)
    show ?case using account_changes [OF require_changes [of "conn_of s" sha rs v st now cred]]
      by (cases "require_api_key sha rs v st now cred (conn_of s)") (simp add: arrive_def set_conn_def)
  next
    case (close x s n schema_errors allow body t pulls cancelled sl rq rest uid now latency)
    show ?case using insert_changes [of "as_store (sv_audit s)"]
      by (simp add: close_chat_def schedule_audit_log_def split: prod.split option.split)
  next
    case (insert k s)
    show ?case using insert_changes [of "as_store (sv_audit s)"] by (simp add: run_task_def)
  next
    case (administer s sm)
    then show ?case using account_changes [OF admin_changes] by (simp add: set_conn_def)
  qed (simp add: set_conn_def)
next
  case replay
  then show ?case using sm_changes_trans [OF account_changes [OF require_changes] replay_changes] by (simp add: set_conn_def set_files_def) (metis snd_conv)
qed simp

subsection \<open>What no request undoes\<close>

text \<open>A key as a later database has it: the same row, with a time of last use and perhaps a revocation.\<close>

definition same_key :: "api_key \<Rightarrow> api_key \<Rightarrow> bool" where
  "same_key k k' \<longleftrightarrow> k_id k' = k_id k \<and> k_org_id k' = k_org_id k \<and> k_prefix k' = k_prefix k \<and> k_key_hash k' = k_key_hash k \<and>
     k_name k' = k_name k \<and> k_scopes k' = k_scopes k \<and> k_created_at k' = k_created_at k \<and> (k_revoked_at k \<noteq> None \<longrightarrow> k_revoked_at k' \<noteq> None)"

definition keys_kept :: "api_key list \<Rightarrow> api_key list \<Rightarrow> bool" where
  "keys_kept xs ys \<longleftrightarrow> (\<exists>ks zs. ys = ks @ zs \<and> list_all2 same_key xs ks)"

definition extends :: "database \<Rightarrow> database \<Rightarrow> bool" where
  "extends a b \<longleftrightarrow> (\<exists>xs. organizations b = organizations a @ xs) \<and> keys_kept (keys a) (keys b) \<and> (\<exists>xs. audit_logs b = audit_logs a @ xs) \<and>
     (\<exists>xs. policy_events b = policy_events a @ xs) \<and> (\<exists>xs. audit_messages b = audit_messages a @ xs)"

lemma same_key_refl [simp]: "same_key k k"
  by (simp add: same_key_def)

lemma same_key_trans: "same_key a b \<Longrightarrow> same_key b c \<Longrightarrow> same_key a c"
  by (simp add: same_key_def)

lemma keys_kept_append [simp]: "keys_kept xs (xs @ ys)"
  unfolding keys_kept_def by (rule exI [of _ xs]) (simp add: list.rel_refl)

lemma keys_kept_refl [simp]: "keys_kept xs xs"
  using keys_kept_append [of xs "[]"] by simp

lemma keys_kept_trans:
  assumes "keys_kept a b" and "keys_kept b c"
  shows "keys_kept a c"
proof -
  obtain ks xs where b: "b = ks @ xs" "list_all2 same_key a ks" using assms(1) by (auto simp: keys_kept_def)
  obtain us vs ys where u: "c = (us @ vs) @ ys" "list_all2 same_key ks us" using assms(2) b(1) by (auto simp: keys_kept_def list_all2_append1)
  have "list_all2 same_key a us" by (rule list_all2_trans [OF same_key_trans b(2) u(2)])
  then show ?thesis using u(1) unfolding keys_kept_def by (intro exI [of _ us] exI [of _ "vs @ ys"]) simp
qed

lemma keys_kept_update: "(\<And>r. same_key r (f r)) \<Longrightarrow> keys_kept (keys db) (keys (update_key i f db))"
  unfolding keys_kept_def update_key_def by (rule exI [of _ "map (\<lambda>r. if k_id r = i then f r else r) (keys db)"]) (simp add: list_all2_conv_all_nth)

lemma extends_refl [simp]: "extends a a"
  by (simp add: extends_def)

lemma extends_trans: "extends a b \<Longrightarrow> extends b c \<Longrightarrow> extends a c"
  by (auto simp: extends_def intro: keys_kept_trans)

lemma account_change_extends: "account_change a b \<Longrightarrow> extends a b"
proof (induction rule: account_change.induct)
  case (key_used db i now)
  have "keys_kept (keys db) (keys (update_key i (k_last_used_at_update (\<lambda>_. Some now)) db))" by (rule keys_kept_update) (simp add: same_key_def)
  then show ?case by (simp add: extends_def update_key_def)
next
  case (key_revoked db i now)
  have "keys_kept (keys db) (keys (update_key i (k_revoked_at_update (\<lambda>_. Some now)) db))" by (rule keys_kept_update) (simp add: same_key_def)
  then show ?case by (simp add: extends_def update_key_def)
qed (auto simp: extends_def insert_org_def insert_key_def split: if_splits)

lemma db_change_extends: "db_change a b \<Longrightarrow> extends a b"
proof (induction rule: db_change.induct)
  case (recorded r pes ams db db')
  then show ?case by (auto simp: extends_def insert_audit_def split: if_splits)
qed (rule account_change_extends)

lemma db_changes_extends: "db_change\<^sup>*\<^sup>* a b \<Longrightarrow> extends a b"
  by (induction rule: rtranclp_induct) (auto intro: extends_trans db_change_extends)

lemma keys_kept_member: "keys_kept xs ys \<Longrightarrow> k \<in> set xs \<Longrightarrow> \<exists>k' \<in> set ys. same_key k k'"
  by (auto simp: keys_kept_def list_all2_conv_all_nth in_set_conv_nth intro: nth_mem) (metis nth_append nth_mem set_append UnI1)

subsection \<open>The constraints of the tables\<close>

text \<open>Unique columns and primary keys, and the reference of a key to its organization, which SQLite does not enforce.\<close>

definition db_ok :: "database \<Rightarrow> bool" where
  "db_ok db \<longleftrightarrow> db_wf db \<and> distinct (map a_id (audit_logs db)) \<and> distinct (map pe_id (policy_events db)) \<and> distinct (map am_id (audit_messages db)) \<and>
     k_org_id ` set (keys db) \<subseteq> o_id ` set (organizations db)"

lemma distinct_map_append: "distinct (map f xs) \<Longrightarrow> distinct (map f ys) \<Longrightarrow> \<forall>y \<in> set ys. f y \<notin> f ` set xs \<Longrightarrow> distinct (map f (xs @ ys))"
proof -
  assume d: "distinct (map f xs)" "distinct (map f ys)" "\<forall>y \<in> set ys. f y \<notin> f ` set xs"
  have "z \<notin> f ` set ys" if x: "z \<in> f ` set xs" for z
  proof
    assume "z \<in> f ` set ys"
    then obtain y where "y \<in> set ys" "z = f y" by blast
    with d(3) x show False by metis
  qed
  then have "set (map f xs) \<inter> set (map f ys) = {}" unfolding set_map by (simp only: disjoint_iff) blast
  then show ?thesis using d(1,2) by simp
qed

lemma update_key_orgs: "(\<And>r. k_org_id (f r) = k_org_id r) \<Longrightarrow> k_org_id ` set (keys (update_key i f db)) = k_org_id ` set (keys db)"
proof -
  assume "\<And>r. k_org_id (f r) = k_org_id r"
  then have "map k_org_id (keys (update_key i f db)) = map k_org_id (keys db)" by (simp add: update_key_def)
  then show ?thesis by (metis list.set_map)
qed

lemma update_key_others [simp]:
  "organizations (update_key i f db) = organizations db" "audit_logs (update_key i f db) = audit_logs db"
  "policy_events (update_key i f db) = policy_events db" "audit_messages (update_key i f db) = audit_messages db"
  by (simp_all add: update_key_def)

lemma update_key_ok: "db_ok db \<Longrightarrow> (\<And>r. k_id (f r) = k_id r \<and> k_key_hash (f r) = k_key_hash r \<and> k_org_id (f r) = k_org_id r) \<Longrightarrow> db_ok (update_key i f db)"
  by (simp add: db_ok_def update_key_wf update_key_orgs)

lemma account_change_ok: "account_change a b \<Longrightarrow> db_ok a \<Longrightarrow> db_ok b"
proof (induction rule: account_change.induct)
  case (key_created k db db')
  then obtain org where "get_org (k_org_id k) db = Some org" by blast
  then have "k_org_id k \<in> o_id ` set (organizations db)" using get_org_Some by (metis image_eqI)
  moreover have "db' = db\<lparr>keys := keys db @ [k]\<rparr>" by (rule insert_key_Inr [OF key_created(1)])
  ultimately show ?case using key_created insert_key_wf [of db k db'] by (auto simp: db_ok_def)
next
  case (org_created org db db')
  then show ?case using insert_org_wf [of db org db'] by (auto simp: db_ok_def insert_org_def image_subset_iff split: if_splits)
qed (auto intro!: update_key_ok)

lemma db_change_ok: "db_change a b \<Longrightarrow> db_ok a \<Longrightarrow> db_ok b"
proof (induction rule: db_change.induct)
  case (recorded r pes ams db db')
  from recorded(1) have u: "a_id r \<notin> a_id ` set (audit_logs db)" "distinct (map pe_id pes)" "distinct (map am_id ams)"
      "\<forall>p \<in> set pes. pe_id p \<notin> pe_id ` set (policy_events db)" "\<forall>m \<in> set ams. am_id m \<notin> am_id ` set (audit_messages db)"
    and db': "db' = db\<lparr>audit_logs := audit_logs db @ [r], policy_events := policy_events db @ pes, audit_messages := audit_messages db @ ams\<rparr>"
    by (auto simp: insert_audit_def split: if_splits)
  note ok = recorded(2) [unfolded db_ok_def]
  have "distinct (map a_id (audit_logs db @ [r]))" using u(1) ok by (intro distinct_map_append) auto
  moreover have "distinct (map pe_id (policy_events db @ pes))" using u(2,4) ok by (intro distinct_map_append) blast+
  moreover have "distinct (map am_id (audit_messages db @ ams))" using u(3,5) ok by (intro distinct_map_append) blast+
  ultimately show ?case using ok unfolding db' by (simp add: db_ok_def db_wf_def del: map_append)
qed (rule account_change_ok)

lemma db_changes_ok: "db_change\<^sup>*\<^sup>* a b \<Longrightarrow> db_ok a \<Longrightarrow> db_ok b"
  by (induction rule: rtranclp_induct) (auto intro: db_change_ok)

lemma service_steps_changes: "(service_step sha rs st fr ws)\<^sup>*\<^sup>* s s' \<Longrightarrow> sm_changes db_change (conn_of s) (conn_of s')"
  by (induction rule: rtranclp_induct) (auto intro: sm_changes_trans service_changes)

lemma traffic_runs: "(traffic_step sha rs st fr ws)\<^sup>*\<^sup>* s s' \<Longrightarrow> (service_step sha rs st fr ws)\<^sup>*\<^sup>* s s'"
  using rtranclp_mono [of "traffic_step sha rs st fr ws" "service_step sha rs st fr ws"] service_step.traffic by blast

lemma revoked_for_ever:
  assumes "(service_step sha rs st fr ws)\<^sup>*\<^sup>* s s'" and "conn_of s = Some c" and "db_ok (conn_db c)"
    and "k \<in> set (keys (conn_db c))" and "k_revoked_at k \<noteq> None" and "sha tok = k_key_hash k"
    and "sha tok \<notin> set (env_keys rs)" and "''jwt'' \<notin> set (auth_mode st)" and "py_lower scheme = ''bearer''"
  shows "fst (require_api_key sha rs v st now (Some (scheme, tok)) (conn_of s')) = Inl invalid_credentials"
proof -
  obtain c' where c': "conn_of s' = Some c'" and ch: "db_change\<^sup>*\<^sup>* (conn_db c) (conn_db c')"
    using service_steps_changes [OF assms(1)] assms(2) by auto
  from db_changes_extends [OF ch] assms(4,5) obtain k' where k': "k' \<in> set (keys (conn_db c'))" "same_key k k'"
    using keys_kept_member unfolding extends_def by blast
  have "db_wf (conn_db c')" using db_changes_ok [OF ch assms(3)] by (simp add: db_ok_def)
  then show ?thesis unfolding c'
    by (rule revoked_refused [OF _ k'(1)]) (use k'(2) assms(5-9) in \<open>auto simp: same_key_def\<close>)
qed

text \<open>C7: A token is refused ever after the endpoint revoked its key, whatever requests, outages, replays and acts of administrators come in
  between: rows of keys are never taken away, and a revocation is never taken back.\<close>

theorem revocation_is_final:
  assumes "revoke_api_key then_now key_id p (Some c) = (Inr answer, conn_of s)" and "db_ok (conn_db c)"
    and "get_key key_id (conn_db c) = Some k" and "sha tok = k_key_hash k"
    and "(service_step sha rs st fr ws)\<^sup>*\<^sup>* s s'"
    and "sha tok \<notin> set (env_keys rs)" and "''jwt'' \<notin> set (auth_mode st)" and "py_lower scheme = ''bearer''"
  shows "fst (require_api_key sha rs v st now (Some (scheme, tok)) (conn_of s')) = Inl invalid_credentials"
proof (rule revoke_api_key_Inr [OF assms(1)])
  let ?f = "k_revoked_at_update (\<lambda>_. Some then_now)"
  assume c: "conn_of s = Some (c\<lparr>conn_db := update_key key_id ?f (conn_db c)\<rparr>)"
  have "k \<in> set (keys (conn_db c))" "k_id k = key_id" using assms(2,3) by (auto simp: get_key_eq db_ok_def)
  then have k: "?f k \<in> set (keys (conn_db (c\<lparr>conn_db := update_key key_id ?f (conn_db c)\<rparr>)))"
    by (force simp: update_key_def)
  have ok: "db_ok (conn_db (c\<lparr>conn_db := update_key key_id ?f (conn_db c)\<rparr>))" using update_key_ok [OF assms(2)] by simp
  show ?thesis by (rule revoked_for_ever [OF assms(5) c ok k]) (use assms(4,6-8) in simp_all)
qed

text \<open>C12: The records only grow: no request, replay, outage or administrator takes away or changes an organization, an audit row, a policy event
  or a stored message, nor anything of a key but the time of its last use and its revocation; and the constraints of the tables, with
  the references of keys to organizations, hold as long as the service runs.\<close>

theorem records_only_grow:
  assumes "(service_step sha rs st fr ws)\<^sup>*\<^sup>* s s'" and "conn_of s = Some c"
  shows "\<exists>c'. conn_of s' = Some c' \<and> extends (conn_db c) (conn_db c') \<and> (db_ok (conn_db c) \<longrightarrow> db_ok (conn_db c'))"
proof -
  obtain c' where "conn_of s' = Some c'" and ch: "db_change\<^sup>*\<^sup>* (conn_db c) (conn_db c')"
    using service_steps_changes [OF assms(1)] assms(2) by auto
  then show ?thesis using db_changes_extends [OF ch] db_changes_ok [OF ch] by blast
qed

subsection \<open>A day of the service\<close>

text \<open>A key is used for a streamed chat, and the request is closed.\<close>

definition sample_service :: service where
  "sample_service = \<lparr>sv_audit = \<lparr>as_store = \<lparr>st_conn = Some sample_conn, st_files = Map.empty, st_disk_ok = True\<rparr>, as_tasks = [], as_warned = {}\<rparr>,
     sv_open = [], sv_closed = []\<rparr>"

definition sample_open :: open_request where
  "sample_open = \<lparr>op_id = ''r'', op_auth = Inr (key_principal ''1-ks'' sample_key)\<rparr>"

definition sample_ok :: "string \<Rightarrow> py_error + rate_limit_result" where
  "sample_ok k = Inr \<lparr>allowed = True, retry_after_seconds = 0, remaining = Finite 1\<rparr>"

definition sample_answer :: "(chat_reply \<times> request_state) \<times> stream_limiter \<times> normalized_request option" where
  "sample_answer = chat_path sample_world (\<lambda>_. []) default_settings (op_auth sample_open) sample_ok (Some sample_chat) 0 [1, 1] False (new_limiter 4)"

definition sample_arrived :: service where
  "sample_arrived = arrive rev sample_resolver None default_settings 9 ''r'' (Some (''Bearer'', ''sk-1'')) sample_service"

definition sample_closed :: service where
  "sample_closed = close_chat (\<lambda>_. []) nat_str 7 default_settings 5 sample_open (fst sample_answer) sample_arrived"

lemma sample_arrives: "sample_arrived = sample_service\<lparr>sv_open := [sample_open]\<rparr>"
proof -
  have "require_api_key rev sample_resolver None default_settings 9 (Some (''Bearer'', ''sk-1'')) (Some sample_conn) =
      (Inr (key_principal ''1-ks'' sample_key), Some sample_conn)" by code_simp
  then show ?thesis by (simp add: sample_arrived_def arrive_def sample_service_def sample_open_def set_conn_def)
qed

lemma sample_steps:
  "traffic_step rev sample_resolver default_settings (\<lambda>_. []) (\<lambda>_. sample_world) sample_service sample_arrived"
  "traffic_step rev sample_resolver default_settings (\<lambda>_. []) (\<lambda>_. sample_world) sample_arrived sample_closed"
proof -
  show "traffic_step rev sample_resolver default_settings (\<lambda>_. []) (\<lambda>_. sample_world) sample_service sample_arrived"
    unfolding sample_arrived_def by (rule traffic_step.arrive)
  show "traffic_step rev sample_resolver default_settings (\<lambda>_. []) (\<lambda>_. sample_world) sample_arrived sample_closed" unfolding sample_closed_def
    by (rule traffic_step.close [of _ _ "\<lambda>_. sample_world" 0]) (simp add: sample_arrives, unfold sample_answer_def, rule prod.collapse [symmetric])
qed

lemma sample_run:
  "(traffic_step rev sample_resolver default_settings (\<lambda>_. []) (\<lambda>_. sample_world))\<^sup>*\<^sup>* sample_service sample_closed"
  using sample_steps by (meson converse_rtranclp_into_rtranclp rtranclp.rtrancl_refl)

lemma sample_service_facts:
  "audit_enabled default_settings" "st_disk_ok (as_store (sv_audit sample_service))" "conn_of sample_service = Some sample_conn"
  "db_ok (conn_db sample_conn)" "as_tasks (sv_audit sample_service) = []" "sv_open sample_service = []" "sv_closed sample_service = []"
  "audit_logs (conn_db sample_conn) = []"
  by code_simp+

theorem revocation_is_final_witness:
  "\<exists>s. conn_of s = snd (revoke_api_key 9 ''k1'' sample_admin (Some sample_conn)) \<and>
     fst (require_api_key rev sample_resolver None default_settings 99 (Some (''Bearer'', ''sk-1''))
       (conn_of (arrive rev sample_resolver None default_settings 50 ''r'' (Some (''Bearer'', ''sk-1'')) s))) = Inl invalid_credentials"
proof -
  let ?s = "set_conn (snd (revoke_api_key 9 ''k1'' sample_admin (Some sample_conn))) sample_service"
  have s: "conn_of ?s = snd (revoke_api_key 9 ''k1'' sample_admin (Some sample_conn))" by (simp add: set_conn_def)
  have "fst (revoke_api_key 9 ''k1'' sample_admin (Some sample_conn)) = Inr (''k1'', 9)" by code_simp
  then have r: "revoke_api_key 9 ''k1'' sample_admin (Some sample_conn) = (Inr (''k1'', 9), conn_of ?s)" unfolding s by (metis prod.collapse)
  have k: "get_key ''k1'' (conn_db sample_conn) = Some sample_key" "rev ''sk-1'' = k_key_hash sample_key" by code_simp+
  have f: "rev ''sk-1'' \<notin> set (env_keys sample_resolver)" "''jwt'' \<notin> set (auth_mode default_settings)" "py_lower ''Bearer'' = ''bearer''" by code_simp+
  have "(service_step rev sample_resolver default_settings (\<lambda>_. []) (\<lambda>_. sample_world))\<^sup>*\<^sup>* ?s
      (arrive rev sample_resolver None default_settings 50 ''r'' (Some (''Bearer'', ''sk-1'')) ?s)"
    by (rule r_into_rtranclp, rule service_step.traffic, rule traffic_step.arrive)
  from revocation_is_final [OF r sample_service_facts(4) k this f] s show ?thesis by blast
qed

theorem records_only_grow_witness:
  "\<exists>c. conn_of sample_closed = Some c \<and> extends (conn_db sample_conn) (conn_db c) \<and> db_ok (conn_db c)"
  using records_only_grow [OF _ sample_service_facts(3)] sample_run traffic_runs sample_service_facts(4) by blast

end
