(* ===== verification/Trail.thy ===== *)
theory Trail
  imports Service
begin

text \<open>
  The audit trail of the service over time. Every closed request leaves its record in one place only, whatever the order in which the
  waiting inserts run and also across replays (\<open>no_record_lost\<close>), and what the rows say is what happened (\<open>audit_trail_true\<close>).
\<close>

subsection \<open>Where the records are\<close>

text \<open>A waiting insert that belongs to a closed request.\<close>

definition job_for :: "audit_job \<Rightarrow> closing \<Rightarrow> bool" where
  "job_for j cl \<longleftrightarrow> j_fields j = cl_fields cl \<and> audit_row (j_id j) (j_now j) (j_fields j) = Some (cl_row cl)"

text \<open>Rows that differ in identifier and time only, as a replayed row does from the one that could not be inserted.\<close>

definition same_record :: "audit_log \<Rightarrow> audit_log \<Rightarrow> bool" where
  "same_record a b \<longleftrightarrow> a\<lparr>a_id := a_id b, a_ts := a_ts b\<rparr> = b"

definition lines_of :: "(rat \<Rightarrow> string) \<Rightarrow> closing list \<Rightarrow> string" where
  "lines_of fr xs = concat (map (\<lambda>cl. audit_line fr (cl_fields cl) @ [CHR 0x0A]) xs)"

definition file_text :: "string option \<Rightarrow> string" where
  "file_text t = (case t of None \<Rightarrow> [] | Some x \<Rightarrow> x)"

text \<open>
  A ledger says where the record of each closed request is: in a row of the database, in the fallback file, in the quarantine file, or
  in an insert that waits. \<open>old\<close> are the rows and \<open>failed\<close> is the quarantine text from before.
\<close>

record ledger =
  ld_rows :: "(closing \<times> audit_log) list"
  ld_spilled :: "closing list"
  ld_quarantined :: "closing list"
  ld_waiting :: "closing list"

definition ledger_all :: "ledger \<Rightarrow> closing multiset" where
  "ledger_all l = mset (map fst (ld_rows l)) + mset (ld_spilled l) + mset (ld_quarantined l) + mset (ld_waiting l)"

abbreviation fallback_of :: "settings \<Rightarrow> service \<Rightarrow> string option" where
  "fallback_of st s \<equiv> st_files (as_store (sv_audit s)) (audit_fallback_path st)"

abbreviation quarantine_of :: "settings \<Rightarrow> service \<Rightarrow> string option" where
  "quarantine_of st s \<equiv> st_files (as_store (sv_audit s)) (audit_fallback_path st @ ''.failed'')"

definition records_kept :: "(rat \<Rightarrow> string) \<Rightarrow> settings \<Rightarrow> audit_log list \<Rightarrow> string \<Rightarrow> service \<Rightarrow> ledger \<Rightarrow> bool" where
  "records_kept fr st old failed s l \<longleftrightarrow>
     (\<exists>c. conn_of s = Some c \<and> audit_logs (conn_db c) = old @ map snd (ld_rows l)) \<and> (\<forall>(cl, row) \<in> set (ld_rows l). same_record row (cl_row cl)) \<and>
     file_text (fallback_of st s) = lines_of fr (ld_spilled l) \<and> file_text (quarantine_of st s) = failed @ lines_of fr (ld_quarantined l) \<and>
     list_all2 job_for (as_tasks (sv_audit s)) (ld_waiting l) \<and> mset (sv_closed s) = ledger_all l"

lemma same_record_refl [simp]: "same_record a a"
  by (simp add: same_record_def)

lemma lines_of_simps [simp]:
  "lines_of fr [] = []" "lines_of fr (xs @ ys) = lines_of fr xs @ lines_of fr ys" "lines_of fr (cl # xs) = audit_line fr (cl_fields cl) @ [CHR 0x0A] @ lines_of fr xs"
  by (simp_all add: lines_of_def)

lemma file_text_simps [simp]: "file_text None = []" "file_text (Some t) = t"
  by (simp_all add: file_text_def)

lemma records_insert:
  assumes "st_conn x = Some c" and "st_disk_ok x" and "job_for j cl"
  shows "(\<exists>c'. st_conn (insert_audit_log fr st j x) = Some c' \<and> audit_logs (conn_db c') = audit_logs (conn_db c) @ [cl_row cl] \<and>
      st_files (insert_audit_log fr st j x) = st_files x) \<or>
    (st_conn (insert_audit_log fr st j x) = Some c \<and>
     st_files (insert_audit_log fr st j x) = (st_files x)(audit_fallback_path st \<mapsto> file_text (st_files x (audit_fallback_path st)) @ lines_of fr [cl]))"
  using insert_audit_log_cases [OF assms(1), of j fr st]
proof
  assume "\<exists>r db. audit_row (j_id j) (j_now j) (j_fields j) = Some r \<and> insert_audit r (j_events j) (j_messages j) (conn_db c) = Inr db \<and>
      write_ok c \<and> insert_audit_log fr st j x = x\<lparr>st_conn := Some (c\<lparr>conn_db := db\<rparr>)\<rparr>"
  then show ?thesis using assms(3) by (auto simp: job_for_def insert_audit_def split: if_splits)
next
  assume "insert_audit_log fr st j x = (if st_disk_ok x
      then x\<lparr>st_files := write_audit_fallback fr (audit_fallback_path st) (j_fields j) (st_files x)\<rparr> else x)"
  then show ?thesis using assms
    by (simp add: job_for_def write_audit_fallback_def file_append_def file_text_def split: option.split)
qed

text \<open>Running a job moves its closing from the waiting ones to one of the other lists.\<close>

lemma records_run:
  assumes "records_kept fr st old failed s l" and "ld_waiting l = waiting1 @ cl # waiting2" and "st_disk_ok (as_store (sv_audit s))"
    and "job_for j cl" and "list_all2 job_for tasks (waiting1 @ waiting2)"
  shows "\<exists>l'. records_kept fr st old failed
    (s\<lparr>sv_audit := (sv_audit s)\<lparr>as_store := insert_audit_log fr st j (as_store (sv_audit s)), as_tasks := tasks\<rparr>\<rparr>) l'"
proof -
  obtain c where c: "conn_of s = Some c" "audit_logs (conn_db c) = old @ map snd (ld_rows l)" using assms(1) by (auto simp: records_kept_def)
  from records_insert [OF c(1) assms(3,4), of fr st] show ?thesis
  proof (elim disjE exE conjE)
    fix c'
    assume "st_conn (insert_audit_log fr st j (as_store (sv_audit s))) = Some c'" "audit_logs (conn_db c') = audit_logs (conn_db c) @ [cl_row cl]"
      "st_files (insert_audit_log fr st j (as_store (sv_audit s))) = st_files (as_store (sv_audit s))"
    with assms(1,2,5) c show ?thesis unfolding records_kept_def
      by (intro exI [of _ "l\<lparr>ld_rows := ld_rows l @ [(cl, cl_row cl)], ld_waiting := waiting1 @ waiting2\<rparr>"]) (auto simp: ledger_all_def)
  next
    assume "st_conn (insert_audit_log fr st j (as_store (sv_audit s))) = Some c"
      "st_files (insert_audit_log fr st j (as_store (sv_audit s))) =
        (st_files (as_store (sv_audit s)))(audit_fallback_path st \<mapsto> file_text (fallback_of st s) @ lines_of fr [cl])"
    with assms(1,2,5) c show ?thesis unfolding records_kept_def
      by (intro exI [of _ "l\<lparr>ld_spilled := ld_spilled l @ [cl], ld_waiting := waiting1 @ waiting2\<rparr>"]) (auto simp: ledger_all_def)
  qed
qed

lemma schedule_job:
  assumes "audit_enabled st" and "conn_of s = Some c"
  shows "\<exists>j w. job_for j (closing_of (uid 0) now latency x (r, q)) \<and>
    schedule_audit_log fr uid now st AUDIT_PATH (op_id x) q (audit_status_code (reply_status r) q) latency (sv_audit s) =
      (if audit_sync st then (sv_audit s)\<lparr>as_store := insert_audit_log fr st j (as_store (sv_audit s)), as_warned := w\<rparr>
       else (sv_audit s)\<lparr>as_tasks := as_tasks (sv_audit s) @ [j], as_warned := w\<rparr>)"
proof -
  let ?status = "audit_status_code (reply_status r) q"
  let ?j = "\<lparr>j_fields = audit_fields (op_id x) q ?status latency (cost_of (q_model q) (q_token_usage q)),
       j_events = policy_rows uid now (op_id x) q, j_messages = message_rows uid now st (op_id x) q, j_id = uid 0, j_now = now\<rparr>"
  obtain w where "audit_job_of uid now st AUDIT_PATH (op_id x) q ?status latency (st_conn (as_store (sv_audit s))) (as_warned (sv_audit s)) = (Some ?j, w)"
    using audit_job_cases [OF assms(1) refl assms(2)] by blast
  moreover have "job_for ?j (closing_of (uid 0) now latency x (r, q))"
    by (simp add: job_for_def audited_def audit_row_fields)
  ultimately show ?thesis by (intro exI [of _ ?j] exI [of _ w]) (simp add: schedule_audit_log_def)
qed

lemma records_close:
  assumes "records_kept fr st old failed s l" and "audit_enabled st" and "st_disk_ok (as_store (sv_audit s))"
  shows "\<exists>l'. records_kept fr st old failed (close_chat fr uid now st latency x (r, q) s) l'"
proof -
  let ?cl = "closing_of (uid 0) now latency x (r, q)"
  obtain c where c: "conn_of s = Some c" using assms(1) by (auto simp: records_kept_def)
  obtain j w where j: "job_for j ?cl" and sch: "schedule_audit_log fr uid now st AUDIT_PATH (op_id x) q (audit_status_code (reply_status r) q) latency (sv_audit s) =
      (if audit_sync st then (sv_audit s)\<lparr>as_store := insert_audit_log fr st j (as_store (sv_audit s)), as_warned := w\<rparr>
       else (sv_audit s)\<lparr>as_tasks := as_tasks (sv_audit s) @ [j], as_warned := w\<rparr>)"
    using schedule_job [OF assms(2) c] by blast
  let ?s = "s\<lparr>sv_audit := (sv_audit s)\<lparr>as_tasks := as_tasks (sv_audit s) @ [j]\<rparr>, sv_closed := sv_closed s @ [?cl]\<rparr>"
  let ?l = "l\<lparr>ld_waiting := ld_waiting l @ [?cl]\<rparr>"
  have k: "records_kept fr st old failed ?s ?l"
    using assms(1) j by (simp add: records_kept_def list_all2_appendI ledger_all_def)
  have t: "list_all2 job_for (as_tasks (sv_audit s)) (ld_waiting l @ [])" using assms(1) by (simp add: records_kept_def)
  show ?thesis
  proof (cases "audit_sync st")
    case True
    have "ld_waiting ?l = ld_waiting l @ ?cl # []" by simp
    from records_run [OF k this _ j t] assms(3) obtain l' where
      "records_kept fr st old failed (?s\<lparr>sv_audit := (sv_audit ?s)\<lparr>as_store := insert_audit_log fr st j (as_store (sv_audit ?s)), as_tasks := as_tasks (sv_audit s)\<rparr>\<rparr>) l'"
      by auto
    then show ?thesis using True sch by (intro exI [of _ l']) (simp add: close_chat_def records_kept_def)
  next
    case False
    then show ?thesis using k sch by (intro exI [of _ ?l]) (simp add: close_chat_def records_kept_def)
  qed
qed

lemma records_set_conn:
  assumes "records_kept fr st old failed s l" and "conn_of s = Some c" and "sm = Some c'" and "audit_logs (conn_db c') = audit_logs (conn_db c)"
  shows "records_kept fr st old failed (set_conn sm s) l"
  using assms by (auto simp: records_kept_def set_conn_def)

lemma account_change_logs: "account_change a b \<Longrightarrow> audit_logs b = audit_logs a"
  by (induction rule: account_change.induct) (auto simp: insert_key_def insert_org_def split: if_splits)

lemma account_changes_logs: "account_change\<^sup>*\<^sup>* a b \<Longrightarrow> audit_logs b = audit_logs a"
  by (induction rule: rtranclp_induct) (simp_all add: account_change_logs)

lemma records_account:
  assumes "records_kept fr st old failed s l" and "sm_changes account_change (conn_of s) sm"
  shows "records_kept fr st old failed (set_conn sm s) l"
proof -
  obtain c where c: "conn_of s = Some c" using assms(1) by (auto simp: records_kept_def)
  with assms(2) obtain c' where "sm = Some c'" "audit_logs (conn_db c') = audit_logs (conn_db c)"
    using account_changes_logs by auto
  then show ?thesis using records_set_conn [OF assms(1) c] by blast
qed

lemma records_open: "records_kept fr st old failed (s\<lparr>sv_open := xs\<rparr>) l \<longleftrightarrow> records_kept fr st old failed s l"
  by (simp add: records_kept_def)

lemma traffic_disk: "traffic_step sha rs st fr ws s s' \<Longrightarrow> st_disk_ok (as_store (sv_audit s')) = st_disk_ok (as_store (sv_audit s))"
proof -
  have i: "st_disk_ok (insert_audit_log fr st j x) = st_disk_ok x" for j x
    by (simp add: insert_audit_log_def try_audit_fallback_def split: option.split)
  assume "traffic_step sha rs st fr ws s s'"
  then show ?thesis
    by (induction rule: traffic_step.induct)
      (auto simp: arrive_def set_conn_def close_chat_def schedule_audit_log_def run_task_def i split: prod.split option.split)
qed

lemma traffic_records:
  assumes "traffic_step sha rs st fr ws s s'" and "audit_enabled st" and "st_disk_ok (as_store (sv_audit s))"
    and "\<exists>l. records_kept fr st old failed s l"
  shows "\<exists>l. records_kept fr st old failed s' l"
proof -
  obtain l where k: "records_kept fr st old failed s l" using assms(4) by blast
  from assms(1) show ?thesis
  proof cases
    case (arrive v now rid cred)
    then show ?thesis using records_account [OF k require_changes [of "conn_of s" sha rs v st now cred]]
      by (cases "require_api_key sha rs v st now cred (conn_of s)") (auto simp: arrive_def records_open)
  next
    case (close x n schema_errors allow body t pulls cancelled sl rq rest uid now latency)
    then show ?thesis using records_close [OF k assms(2,3)] by (cases rq) simp
  next
    case (insert m)
    let ?w = "ld_waiting l"
    have all: "list_all2 job_for (as_tasks (sv_audit s)) ?w" using k by (simp add: records_kept_def)
    then have m: "m < length ?w" using insert by (simp add: list_all2_lengthD)
    have "list_all2 job_for (take m (as_tasks (sv_audit s)) @ drop (Suc m) (as_tasks (sv_audit s))) (take m ?w @ drop (Suc m) ?w)"
      using all by (intro list_all2_appendI) auto
    moreover have "job_for (as_tasks (sv_audit s) ! m) (?w ! m)" using all insert by (simp add: list_all2_nthD)
    ultimately show ?thesis unfolding insert(1) run_task_def using records_run [OF k id_take_nth_drop [OF m] assms(3)] by blast
  next
    case (administer sm)
    then show ?thesis using records_account [OF k admin_changes] by blast
  next
    case (outage c can_read can_write)
    have "records_kept fr st old failed s' l" unfolding outage(1) by (rule records_set_conn [OF k outage(2) refl]) simp
    then show ?thesis by blast
  qed
qed

subsection \<open>Replays\<close>

lemma lines_of_fallback: "lines_of fr xs = fallback_text fr (map cl_record xs)"
  by (simp add: lines_of_def fallback_text_def cl_fields_def comp_def)

text \<open>A line of the fallback file gives the row of its record, under another identifier and with the time of the replay.\<close>

lemma replay_line_row:
  assumes "writable (cl_record cl)" and "replay_line fromiso i now (audit_line fr (cl_fields cl)) c = Some c'"
  shows "\<exists>row. audit_logs (conn_db c') = audit_logs (conn_db c) @ [row] \<and> same_record row (cl_row cl)"
proof -
  obtain rid q sc lat cost where x: "cl_record cl = (rid, q, sc, lat, cost)" by (metis prod_cases5)
  have p: "json_plain (PyDict (audit_fields rid q sc lat cost))" using assms(1) by (simp add: writable_def fields_of_def x)
  have "json_loads (audit_line fr (cl_fields cl)) = Some (json_norm (PyDict (audit_fields rid q sc lat cost)))"
    unfolding audit_line_def cl_fields_def fields_of_def x by (simp only: prod.case json_roundtrip [OF p])
  then have "commit_audit \<lparr>j_fields = audit_fields rid q sc lat cost, j_events = [], j_messages = [], j_id = i, j_now = now\<rparr> (Some c) = Some c'"
    using assms(2) by (simp add: replay_line_def audit_fields_back del: json_norm.simps)
  then have "audit_logs (conn_db c') = audit_logs (conn_db c) @ [the_row i now rid q sc lat cost]"
    by (auto simp: commit_audit_def audit_row_fields insert_audit_def split: sum.splits if_splits)
  moreover have "same_record (the_row i now rid q sc lat cost) (cl_row cl)"
    by (simp add: same_record_def cl_row_def row_of_def x the_row_def)
  ultimately show ?thesis by blast
qed

text \<open>The loop: each line becomes a row or is set aside.\<close>

definition replayed_lines :: "(rat \<Rightarrow> string) \<Rightarrow> closing list \<Rightarrow> replay_state \<Rightarrow> replay_state \<Rightarrow> (closing \<times> audit_log) list \<Rightarrow> closing list \<Rightarrow> bool" where
  "replayed_lines fr xs s s' good bad \<longleftrightarrow> mset xs = mset (map fst good) + mset bad \<and>
     audit_logs (conn_db (rs_conn s')) = audit_logs (conn_db (rs_conn s)) @ map snd good \<and> (\<forall>(cl, row) \<in> set good. same_record row (cl_row cl)) \<and>
     rs_quarantine s' = rs_quarantine s @ map (\<lambda>cl. audit_line fr (cl_fields cl)) bad"

lemma audit_line_nonblank: "py_strip (audit_line fr fds) \<noteq> []"
  by (rule strip_nonblank) (simp_all add: audit_line_def py_isspace_def)

lemma replay_loop_lines:
  assumes "\<forall>cl \<in> set xs. writable (cl_record cl)"
  shows "\<exists>s' good bad. replay_loop (\<lambda>i. replay_line fromiso (uid i) now) None i (map (\<lambda>cl. audit_line fr (cl_fields cl)) xs) s = (s', i + length xs, False) \<and>
    replayed_lines fr xs s s' good bad"
  using assms
proof (induction xs arbitrary: i s)
  case Nil
  have "replayed_lines fr [] s s [] []" by (simp add: replayed_lines_def)
  then show ?case by (auto simp del: replayed_lines_def)
next
  case (Cons cl xs)
  let ?line = "audit_line fr (cl_fields cl)"
  let ?r = "replay_line fromiso (uid i) now ?line (rs_conn s)"
  let ?s = "case ?r of Some c \<Rightarrow> s\<lparr>rs_conn := c, rs_replayed := rs_replayed s + 1\<rparr>
    | None \<Rightarrow> s\<lparr>rs_failed := rs_failed s + 1, rs_quarantine := rs_quarantine s @ [?line]\<rparr>"
  obtain s' good bad where IH: "replay_loop (\<lambda>i. replay_line fromiso (uid i) now) None (Suc i) (map (\<lambda>cl. audit_line fr (cl_fields cl)) xs) ?s =
      (s', Suc i + length xs, False)" "replayed_lines fr xs ?s s' good bad" using Cons by fastforce
  have step: "replay_loop (\<lambda>i. replay_line fromiso (uid i) now) None i (map (\<lambda>cl. audit_line fr (cl_fields cl)) (cl # xs)) s = (s', i + length (cl # xs), False)"
    using IH(1) by (simp add: audit_line_nonblank split: option.splits)
  show ?case
  proof (cases ?r)
    case None
    then have "replayed_lines fr (cl # xs) s s' good (cl # bad)" using IH(2) by (simp add: replayed_lines_def)
    then show ?thesis using step by blast
  next
    case (Some c)
    from replay_line_row [OF _ this] Cons.prems obtain row where "audit_logs (conn_db c) = audit_logs (conn_db (rs_conn s)) @ [row]" "same_record row (cl_row cl)"
      by auto
    then have "replayed_lines fr (cl # xs) s s' ((cl, row) # good) bad" using IH(2) Some by (simp add: replayed_lines_def)
    then show ?thesis using step by blast
  qed
qed

text \<open>A line ends in a brace, so it is quarantined as it is.\<close>

lemma quarantine_line: "rstrip_newlines (audit_line fr fds) = audit_line fr fds"
proof -
  obtain t where "audit_line fr fds = t @ ''}''" by (auto simp: audit_line_def)
  then show ?thesis by (simp add: rstrip_newlines_def)
qed

lemma append_quarantine:
  "append_audit_quarantine path (map (\<lambda>cl. audit_line fr (cl_fields cl)) bad) fs =
    (if bad = [] then fs else fs(path @ ''.failed'' \<mapsto> file_text (fs (path @ ''.failed'')) @ lines_of fr bad))"
  by (simp add: append_audit_quarantine_def file_append_def quarantine_line lines_of_def file_text_def comp_def)

lemma records_replay:
  assumes "records_kept fr st old failed s l" and "\<forall>cl \<in> set (ld_spilled l). writable (cl_record cl)" and "da_readable da" and "da_quarantine_ok da"
    and "replay_audit_fallback fromiso uid now hex da None st p (conn_of s) (st_files (as_store (sv_audit s))) = (res, sm, fs)"
  shows "\<exists>l'. records_kept fr st old failed (set_files fs (set_conn sm s)) l'"
proof (cases "is_super_admin p \<and> da_replace da = Replaced \<and> fallback_of st s \<noteq> None")
  case False
  obtain c where c: "conn_of s = Some c" using assms(1) by (auto simp: records_kept_def)
  then have "sm = conn_of s \<and> fs = st_files (as_store (sv_audit s))"
    using assms(5) False by (auto simp: replay_audit_fallback_def require_super_admin_def Let_def split: option.splits replace_outcome.splits if_splits)
  then have "records_kept fr st old failed (set_files fs (set_conn sm s)) l" using assms(1) by (auto simp: records_kept_def set_files_def set_conn_def)
  then show ?thesis by blast
next
  case True
  let ?p = "audit_fallback_path st" and ?fs = "st_files (as_store (sv_audit s))"
  obtain c where c: "conn_of s = Some c" "audit_logs (conn_db c) = old @ map snd (ld_rows l)" using assms(1) by (auto simp: records_kept_def)
  have content: "?fs ?p = Some (lines_of fr (ld_spilled l))" using True assms(1) by (auto simp: records_kept_def)
  let ?s0 = "\<lparr>rs_conn = c, rs_replayed = 0, rs_failed = 0, rs_quarantine = []\<rparr>"
  have w: "\<forall>x \<in> set (map cl_record (ld_spilled l)). writable x" using assms(2) by simp
  have ls: "splitlines (lines_of fr (ld_spilled l)) = map (\<lambda>cl. audit_line fr (cl_fields cl)) (ld_spilled l)"
    unfolding lines_of_fallback using fallback_lines [OF w, of fr] by (simp add: cl_fields_def comp_def)
  obtain s' good bad where loop: "replay_loop (\<lambda>i. replay_line fromiso (uid i) now) None 0 (splitlines (lines_of fr (ld_spilled l))) ?s0 =
      (s', length (ld_spilled l), False)" and r: "replayed_lines fr (ld_spilled l) ?s0 s' good bad"
    using replay_loop_lines [OF assms(2), of fromiso uid now 0 fr ?s0] unfolding ls by auto
  have runs: "replay_runs da p" using True assms(3,4) by (simp add: replay_runs_def)
  have d: "drop (length (ld_spilled l)) (splitlines (lines_of fr (ld_spilled l))) = []" unfolding ls by simp
  have e: "sm = Some (rs_conn s')" "fs = (append_audit_quarantine ?p (rs_quarantine s') ((?fs(?p := None))(?p @ ''.replay-'' @ hex \<mapsto> lines_of fr (ld_spilled l))))(?p @ ''.replay-'' @ hex := None)"
    using assms(5) unfolding c(1) replay_eq [where fromiso = fromiso and uid = uid and hex = hex and fs = ?fs and st = st, OF runs content loop] d by simp_all
  have q: "rs_quarantine s' = map (\<lambda>cl. audit_line fr (cl_fields cl)) bad" using r by (simp add: replayed_lines_def)
  have ne: "?p @ ''.failed'' \<noteq> ?p @ ''.replay-'' @ hex" "?p \<noteq> ?p @ ''.replay-'' @ hex" "?p \<noteq> ?p @ ''.failed''" by auto
  have f1: "fs ?p = None" using ne by (simp add: e(2) q append_quarantine)
  have f2: "file_text (fs (?p @ ''.failed'')) = file_text (?fs (?p @ ''.failed'')) @ lines_of fr bad"
    using ne by (simp add: e(2) q append_quarantine)
  let ?l = "l\<lparr>ld_rows := ld_rows l @ good, ld_spilled := [], ld_quarantined := ld_quarantined l @ bad\<rparr>"
  have "records_kept fr st old failed (set_files fs (set_conn sm s)) ?l"
    using assms(1) r c f1 f2 e(1) by (auto simp: records_kept_def set_files_def set_conn_def replayed_lines_def ledger_all_def)
  then show ?thesis by blast
qed

lemma ledger_closed: "records_kept fr st old failed s l \<Longrightarrow> set (sv_closed s) = set_mset (ledger_all l)"
  unfolding records_kept_def by (metis set_mset_mset)

lemma ledger_spilled: "records_kept fr st old failed s l \<Longrightarrow> set (ld_spilled l) \<subseteq> set (sv_closed s)"
  by (auto simp: ledger_closed ledger_all_def)

lemma ledger_rows: "records_kept fr st old failed s l \<Longrightarrow> (cl, row) \<in> set (ld_rows l) \<Longrightarrow> cl \<in> set (sv_closed s) \<and> same_record row (cl_row cl)"
proof -
  assume k: "records_kept fr st old failed s l" and m: "(cl, row) \<in> set (ld_rows l)"
  then have "cl \<in># ledger_all l" by (force simp: ledger_all_def)
  then have "cl \<in> set (sv_closed s)" using ledger_closed [OF k] by simp
  then show ?thesis using k m by (auto simp: records_kept_def)
qed

lemma careful_records:
  assumes "careful_step sha rs st fr ws s s'" and "audit_enabled st" and "st_disk_ok (as_store (sv_audit s))"
    and "\<forall>cl \<in> set (sv_closed s). writable (cl_record cl)" and "\<exists>l. records_kept fr st old failed s l"
  shows "(\<exists>l. records_kept fr st old failed s' l) \<and> st_disk_ok (as_store (sv_audit s')) \<and> (\<forall>cl \<in> set (sv_closed s'). writable (cl_record cl))"
  using assms(1)
proof cases
  case ordinary
  then show ?thesis using traffic_records [OF ordinary(1) assms(2,3,5)] traffic_disk [OF ordinary(1)] assms(3) by blast
next
  case (replay v now cred p sm da fromiso uid later hex res sm' fs')
  obtain l where k: "records_kept fr st old failed s l" using assms(5) by blast
  have "sm_changes account_change (conn_of s) sm" using require_changes [of "conn_of s" sha rs v st now cred] replay(2) by simp
  note k1 = records_account [OF k this]
  have w: "\<forall>cl \<in> set (ld_spilled l). writable (cl_record cl)" using ledger_spilled [OF k] assms(4) by blast
  have "replay_audit_fallback fromiso uid later hex da None st p (conn_of (set_conn sm s)) (st_files (as_store (sv_audit (set_conn sm s)))) = (res, sm', fs')"
    using replay(5) by (simp add: set_conn_def)
  from records_replay [OF k1 w replay(3,4) this] obtain l' where "records_kept fr st old failed (set_files fs' (set_conn sm' (set_conn sm s))) l'" by blast
  moreover have "set_conn sm' (set_conn sm s) = set_conn sm' s" by (simp add: set_conn_def)
  ultimately show ?thesis using replay(1) assms(3,4) by (auto simp: set_files_def set_conn_def)
qed

lemma careful_runs_records:
  assumes "(careful_step sha rs st fr ws)\<^sup>*\<^sup>* s s'" and "audit_enabled st" and "st_disk_ok (as_store (sv_audit s))" and "conn_of s = Some c"
    and "as_tasks (sv_audit s) = []" and "sv_closed s = []" and "file_text (fallback_of st s) = []"
  shows "\<exists>l. records_kept fr st (audit_logs (conn_db c)) (file_text (quarantine_of st s)) s' l"
proof -
  let ?K = "\<lambda>s'. \<exists>l. records_kept fr st (audit_logs (conn_db c)) (file_text (quarantine_of st s)) s' l"
  have "?K s' \<and> st_disk_ok (as_store (sv_audit s')) \<and> (\<forall>cl \<in> set (sv_closed s'). writable (cl_record cl))"
    using assms(1)
  proof (induction rule: rtranclp_induct)
    case base
    have "records_kept fr st (audit_logs (conn_db c)) (file_text (quarantine_of st s)) s \<lparr>ld_rows = [], ld_spilled = [], ld_quarantined = [], ld_waiting = []\<rparr>"
      using assms by (simp add: records_kept_def ledger_all_def)
    then show ?case using assms(3,6) by auto
  next
    case (step y z)
    then show ?case using careful_records [OF step.hyps(2) assms(2)] by blast
  qed
  then show ?thesis by blast
qed


subsection \<open>The trail is true\<close>

text \<open>Whoever came in is known to the database: an organization that exists, a key of that organization.\<close>

definition caller_known :: "database \<Rightarrow> exc + api_key_principal \<Rightarrow> bool" where
  "caller_known db auth \<longleftrightarrow>
     (case auth of
        Inl _ \<Rightarrow> True
      | Inr p \<Rightarrow> (\<forall>i. p_org_id p = Some i \<longrightarrow> i \<in> o_id ` set (organizations db)) \<and>
          (\<forall>i. p_key_id p = Some i \<longrightarrow> (\<exists>k \<in> set (keys db). k_id k = i \<and> p_org_id p = Some (k_org_id k) \<and> p_hash p = k_key_hash k)))"

lemma caller_known_extends: "caller_known a auth \<Longrightarrow> extends a b \<Longrightarrow> caller_known b auth"
proof (cases auth)
  case (Inr p)
  assume known: "caller_known a auth" and e: "extends a b"
  from e obtain xs where "organizations b = organizations a @ xs" by (auto simp: extends_def)
  moreover have "\<exists>k' \<in> set (keys b). k_id k' = k_id k \<and> k_org_id k' = k_org_id k \<and> k_key_hash k' = k_key_hash k" if "k \<in> set (keys a)" for k
    using keys_kept_member [of "keys a" "keys b" k] e that by (auto simp: extends_def same_key_def)
  ultimately show ?thesis using known Inr by (fastforce simp: caller_known_def)
qed (simp add: caller_known_def)

lemma require_source:
  assumes "require_api_key sha rs v st now cred sm = (Inr p, sm')"
  shows "(\<exists>tok. resolve sha rs now tok sm = (Some p, sm')) \<or> (\<exists>cl. build_jwt_principal sha st cl sm' = Inr p)"
proof -
  from assms obtain scheme tok where c: "cred = Some (scheme, tok)" and b: "py_lower scheme = ''bearer''"
    by (auto simp: require_api_key_def split: option.splits if_splits)
  obtain x sm1 where e: "(if ''api_key'' \<in> set (auth_mode st) then resolve sha rs now tok sm else (None, sm)) = (x, sm1)"
    by fastforce
  show ?thesis
  proof (cases x)
    case None
    then show ?thesis using assms [unfolded c require_api_key_bearer [OF b] e] by (auto split: if_splits option.splits)
  next
    case (Some p')
    then have "resolve sha rs now tok sm = (Some p, sm')" using assms [unfolded c require_api_key_bearer [OF b] e] e by (auto split: if_splits)
    then show ?thesis by blast
  qed
qed

lemma arrival_known:
  assumes "require_api_key sha rs v st now cred sm = (auth, sm')" and "sm = Some c" and "db_ok (conn_db c)" and "sm' = Some c'"
  shows "caller_known (conn_db c') auth"
proof (cases auth)
  case (Inr p)
  have ext: "extends (conn_db c) (conn_db c')"
    using account_changes [OF require_changes [of sm sha rs v st now cred]] assms db_changes_extends by auto
  from require_source [OF assms(1) [unfolded Inr]] show ?thesis
  proof (elim disjE exE)
    fix tok assume "resolve sha rs now tok sm = (Some p, sm')"
    from resolve_sound [OF this] assms(2)
    have "p = env_principal (sha tok) \<or> (\<exists>k \<in> set (keys (conn_db c)). k_key_hash k = sha tok \<and> p = key_principal (sha tok) k)" by auto
    then have "caller_known (conn_db c) (Inr p)"
      using assms(3) by (auto simp: caller_known_def env_principal_def key_principal_def db_ok_def image_subset_iff)
    then show ?thesis using caller_known_extends [OF _ ext] Inr by simp
  next
    fix cl assume "build_jwt_principal sha st cl sm' = Inr p"
    from jwt_principal_sound [OF this] assms(4) show ?thesis by (auto simp: caller_known_def Inr)
  qed
qed (simp add: caller_known_def)

text \<open>A closed request whose record tells what happened.\<close>

definition closing_true :: "database \<Rightarrow> closing \<Rightarrow> bool" where
  "closing_true db cl \<longleftrightarrow> caller_known db (cl_auth cl) \<and> recorded_caller (cl_auth cl) (cl_row cl) \<and> tells (cl_row cl) (model_of (cl_row cl)) (cl_reply cl)"

definition all_true :: "service \<Rightarrow> bool" where
  "all_true s \<longleftrightarrow> (\<exists>c. conn_of s = Some c \<and> db_ok (conn_db c) \<and> (\<forall>x \<in> set (sv_open s). caller_known (conn_db c) (op_auth x)) \<and>
     (\<forall>cl \<in> set (sv_closed s). closing_true (conn_db c) cl))"

lemma all_true_changed:
  assumes "all_true s" and "sm_changes db_change (conn_of s) (conn_of s')" and "conn_of s' = Some c'"
    and "\<forall>x \<in> set (sv_open s') - set (sv_open s). caller_known (conn_db c') (op_auth x)"
    and "\<forall>cl \<in> set (sv_closed s') - set (sv_closed s). closing_true (conn_db c') cl"
  shows "all_true s'"
proof -
  obtain c where c: "conn_of s = Some c" "db_ok (conn_db c)" "\<forall>x \<in> set (sv_open s). caller_known (conn_db c) (op_auth x)"
    "\<forall>cl \<in> set (sv_closed s). closing_true (conn_db c) cl" using assms(1) by (auto simp: all_true_def)
  with assms(2,3) have ch: "db_change\<^sup>*\<^sup>* (conn_db c) (conn_db c')" by simp
  note ext = db_changes_extends [OF ch]
  have "\<forall>x \<in> set (sv_open s'). caller_known (conn_db c') (op_auth x)" using assms(4) c(3) caller_known_extends [OF _ ext] by blast
  moreover have "\<forall>cl \<in> set (sv_closed s'). closing_true (conn_db c') cl"
    using assms(5) c(4) caller_known_extends [OF _ ext] by (auto simp: closing_true_def)
  ultimately show ?thesis using assms(3) db_changes_ok [OF ch c(2)] by (auto simp: all_true_def)
qed

lemma service_true:
  assumes "service_step sha rs st fr ws s s'" and "all_true s"
  shows "all_true s'"
proof -
  obtain c where c: "conn_of s = Some c" "db_ok (conn_db c)" using assms(2) by (auto simp: all_true_def)
  have ch: "sm_changes db_change (conn_of s) (conn_of s')" by (rule service_changes [OF assms(1)])
  then obtain c' where c': "conn_of s' = Some c'" "db_change\<^sup>*\<^sup>* (conn_db c) (conn_db c')" using c by auto
  have quiet: ?thesis if "sv_open s' = sv_open s" "sv_closed s' = sv_closed s"
    by (rule all_true_changed [OF assms(2) ch c'(1)]) (use that in simp_all)
  from assms(1) show ?thesis
  proof cases
    case traffic
    then show ?thesis
    proof cases
      case (arrive v now rid cred)
      obtain auth sm where r: "require_api_key sha rs v st now cred (conn_of s) = (auth, sm)" by fastforce
      then have "sm = Some c'" using arrive c'(1) by (simp add: arrive_def set_conn_def)
      from arrival_known [OF r c this] have "caller_known (conn_db c') auth" .
      then show ?thesis using arrive r by (intro all_true_changed [OF assms(2) ch c'(1)]) (auto simp: arrive_def set_conn_def)
    next
      case (close x n schema_errors allow body t pulls cancelled sl rq rest uid now latency)
      obtain r q sl' sent where p: "rq = (r, q)" "rest = (sl', sent)" by (metis prod.collapse)
      have "caller_known (conn_db c) (op_auth x)" using assms(2) close(2) c by (auto simp: all_true_def)
      then have "closing_true (conn_db c') (closing_of (uid 0) now latency x (r, q))"
        using path_recorded [OF close(3) [unfolded p], of "uid 0" now "op_id x" latency] caller_known_extends [OF _ db_changes_extends [OF c'(2)]]
        by (simp add: closing_true_def)
      then show ?thesis using close(1) p
        by (intro all_true_changed [OF assms(2) ch c'(1)]) (auto simp: close_chat_def dest: notin_set_remove1)
    qed (use quiet in \<open>simp_all add: set_conn_def\<close>)
  qed (use quiet in \<open>simp_all add: set_conn_def set_files_def\<close>)
qed

lemma service_runs_true: "(service_step sha rs st fr ws)\<^sup>*\<^sup>* s s' \<Longrightarrow> all_true s \<Longrightarrow> all_true s'"
  by (induction rule: rtranclp_induct) (auto intro: service_true)

lemma careful_runs: "(careful_step sha rs st fr ws)\<^sup>*\<^sup>* s s' \<Longrightarrow> (service_step sha rs st fr ws)\<^sup>*\<^sup>* s s'"
proof -
  have "careful_step sha rs st fr ws \<le> service_step sha rs st fr ws"
    by (auto elim!: careful_step.cases intro: service_step.intros)
  then show "(careful_step sha rs st fr ws)\<^sup>*\<^sup>* s s' \<Longrightarrow> ?thesis" using rtranclp_mono by blast
qed

lemma same_record_tells:
  assumes "same_record a b"
  shows "recorded_caller auth a = recorded_caller auth b" and "tells a m r = tells b m r" and "model_of a = model_of b"
proof -
  have e: "a_principal_hash a = a_principal_hash b" "a_org_id a = a_org_id b" "a_api_key_id a = a_api_key_id b" "a_model a = a_model b"
    "a_status_code a = a_status_code b" "a_error_type a = a_error_type b" "a_prompt_tokens a = a_prompt_tokens b"
    "a_completion_tokens a = a_completion_tokens b" "a_total_tokens a = a_total_tokens b" "a_cost_usd a = a_cost_usd b"
    using assms by (cases a; cases b; simp add: same_record_def)+
  show "recorded_caller auth a = recorded_caller auth b" "model_of a = model_of b" by (simp_all add: recorded_caller_def model_of_def e split: sum.split)
  have "no_usage a = no_usage b" "usage_recorded a m u = usage_recorded b m u" for m u by (simp_all add: no_usage_def usage_recorded_def e)
  then show "tells a m r = tells b m r" by (cases r) (simp_all add: e split: stream_kind.split exc.split)
qed


subsection \<open>The insert of the sample request\<close>

definition sample_recorded :: service where
  "sample_recorded = sample_closed\<lparr>sv_audit := run_task (\<lambda>_. []) default_settings 0 (sv_audit sample_closed)\<rparr>"

lemma sample_recorded_step: "traffic_step rev sample_resolver default_settings (\<lambda>_. []) (\<lambda>_. sample_world) sample_closed sample_recorded"
  unfolding sample_recorded_def
proof (rule traffic_step.insert)
  obtain c where "conn_of sample_arrived = Some c" by (simp add: sample_arrives sample_service_def)
  from schedule_job [OF _ this, of default_settings nat_str 7 5 sample_open "fst (fst sample_answer)" "snd (fst sample_answer)" "\<lambda>_. []"]
  show "0 < length (as_tasks (sv_audit sample_closed))"
    by (auto simp: sample_closed_def close_chat_def default_settings_def)
qed

lemma sample_writable: "\<forall>cl \<in> set (sv_closed sample_closed). writable (cl_record cl)"
proof -
  have "writable (cl_record (closing_of (nat_str 0) 7 5 sample_open (fst sample_answer)))" by code_simp
  then show ?thesis by (simp add: sample_closed_def close_chat_def sample_arrives sample_service_def)
qed

lemma sample_careful:
  "(careful_step rev sample_resolver default_settings (\<lambda>_. []) (\<lambda>_. sample_world))\<^sup>*\<^sup>* sample_service sample_recorded"
    (is "?R\<^sup>*\<^sup>* _ _")
proof -
  have "?R sample_service sample_arrived"
    by (rule careful_step.ordinary [OF sample_steps(1)]) (simp add: sample_arrives sample_service_def)
  moreover have "?R sample_arrived sample_closed" by (rule careful_step.ordinary [OF sample_steps(2) sample_writable])
  moreover have "?R sample_closed sample_recorded"
    by (rule careful_step.ordinary [OF sample_recorded_step]) (use sample_writable in \<open>simp add: sample_recorded_def\<close>)
  ultimately show ?thesis by (meson converse_rtranclp_into_rtranclp rtranclp.rtrancl_refl)
qed

lemma sample_run_closed: "length (sv_closed sample_recorded) = 1"
  by (simp add: sample_recorded_def sample_closed_def close_chat_def sample_arrives sample_service_def)

lemma sample_run_tasks: "as_tasks (sv_audit sample_recorded) = []"
proof -
  obtain c where "conn_of sample_arrived = Some c" by (simp add: sample_arrives sample_service_def)
  from schedule_job [OF sample_service_facts(1) this, of nat_str 7 5 sample_open "fst (fst sample_answer)" "snd (fst sample_answer)" "\<lambda>_. []"]
  show ?thesis
    by (auto simp: sample_recorded_def run_task_def sample_closed_def close_chat_def default_settings_def sample_arrives sample_service_def)
qed

lemma sample_no_file: "file_text (fallback_of default_settings sample_service) = []"
  by (simp add: sample_service_def)



end
